(* ===== verification/Prelude.thy ===== *)
theory Prelude
  imports Main "HOL-Library.Word" "HOL-Library.AList" "HOL-Library.Monad_Syntax"
begin

text \<open>
  Shared vocabulary of the development: byte strings and machine integers, the big-endian
  integer codec that the packet format uses, Rust's checked and saturating arithmetic, write
  buffers, insertion-ordered maps, and the two interfaces that several components share (actors
  that process an event queue, and functions that split a byte string into chunks).
\<close>

unbundle bit_operations_syntax

section \<open>Machine integers and byte strings\<close>

type_synonym u8 = "8 word"
type_synonym u16 = "16 word"
type_synonym u32 = "32 word"
type_synonym u64 = "64 word"
type_synonym bytes = "u8 list"

named_theorems codec_simps \<open>round-trip and length equations of encoders and decoders\<close>
named_theorems inv_intros \<open>one preservation rule per operation of a state machine\<close>

text \<open>Rust's \<open>checked_add\<close>, \<open>checked_sub\<close> and \<open>div_ceil\<close>.\<close>

definition checked_add :: "'a::len word \<Rightarrow> 'a word \<Rightarrow> 'a word option" where
  "checked_add a b = (if unat a + unat b < 2 ^ LENGTH('a) then Some (a + b) else None)"

definition checked_sub :: "'a::len word \<Rightarrow> 'a word \<Rightarrow> 'a word option" where
  "checked_sub a b = (if b \<le> a then Some (a - b) else None)"

definition div_ceil :: "nat \<Rightarrow> nat \<Rightarrow> nat" where
  "div_ceil a b = a div b + (if a mod b > 0 then 1 else 0)"

lemma checked_add_Some:
  "checked_add a b = Some c \<Longrightarrow> unat c = unat a + unat b"
  by (auto simp: checked_add_def unat_word_ariths split: if_splits)

lemma checked_add_None:
  "checked_add (a :: 'a::len word) b = None \<longleftrightarrow> 2 ^ LENGTH('a) \<le> unat a + unat b"
  by (auto simp: checked_add_def)

lemma div_ceil_0 [simp]: "div_ceil 0 b = 0"
  by (simp add: div_ceil_def)

lemma div_ceil_step:
  assumes "0 < b" "b < a"
  shows "div_ceil a b = Suc (div_ceil (a - b) b)"
proof -
  from assms have "a div b = Suc ((a - b) div b)"
    by (simp add: le_div_geq)
  moreover from assms have "a mod b = (a - b) mod b"
    by (simp add: le_mod_geq)
  ultimately show ?thesis
    by (simp add: div_ceil_def)
qed

lemma div_ceil_small: "0 < a \<Longrightarrow> a \<le> b \<Longrightarrow> div_ceil a b = 1"
  by (cases "a = b") (auto simp: div_ceil_def)

lemma div_ceil_mult_ge:
  assumes "0 < b"
  shows "a \<le> div_ceil a b * b"
proof (cases "a mod b = 0")
  case True
  then show ?thesis by (auto simp: div_ceil_def)
next
  case False
  have "a < a div b * b + b"
    using dividend_less_div_times [OF assms, of a] by simp
  with False show ?thesis by (simp add: div_ceil_def)
qed

section \<open>Big-endian integers\<close>

text \<open>\<open>put_u16\<close>, \<open>put_u32\<close>, \<open>put_u64\<close> write an integer most significant byte first;
  \<open>get_u16\<close>, \<open>get_u32\<close> and \<open>u64::from_be_bytes\<close> read it back.\<close>

fun be_encode :: "nat \<Rightarrow> nat \<Rightarrow> bytes" where
  "be_encode 0 x = []"
| "be_encode (Suc n) x = be_encode n (x div 256) @ [word_of_nat (x mod 256)]"

definition be_decode :: "bytes \<Rightarrow> nat" where
  "be_decode bs = foldl (\<lambda>acc b. acc * 256 + unat b) 0 bs"

lemma length_be_encode [simp, codec_simps]: "length (be_encode n x) = n"
  by (induction n arbitrary: x) auto

lemma be_decode_snoc: "be_decode (bs @ [b]) = be_decode bs * 256 + unat b"
  by (simp add: be_decode_def)

lemma unat_byte_mod: "unat (word_of_nat (x mod 256) :: u8) = x mod 256"
  by (simp add: unat_of_nat)

lemma be_decode_encode [codec_simps]: "be_decode (be_encode n x) = x mod 256 ^ n"
proof (induction n arbitrary: x)
  case 0
  then show ?case by (simp add: be_decode_def)
next
  case (Suc n)
  have "be_decode (be_encode (Suc n) x) = (x div 256 mod 256 ^ n) * 256 + x mod 256"
    by (simp only: be_encode.simps be_decode_snoc Suc.IH unat_byte_mod)
  also have "\<dots> = x mod (256 * 256 ^ n)"
    using mod_mult2_eq [of x 256 "256 ^ n"] by (simp add: mult.commute)
  finally show ?case by simp
qed

lemma be_decode_word:
  fixes w :: "'a::len word"
  assumes "256 ^ n = (2::nat) ^ LENGTH('a)"
  shows "(word_of_nat (be_decode (be_encode n (unat w))) :: 'a word) = w"
proof -
  have "be_decode (be_encode n (unat w)) = unat w"
    by (simp add: be_decode_encode assms)
  then show ?thesis by simp
qed

definition put_u16 :: "u16 \<Rightarrow> bytes" where "put_u16 w = be_encode 2 (unat w)"
definition put_u32 :: "u32 \<Rightarrow> bytes" where "put_u32 w = be_encode 4 (unat w)"
definition put_u64 :: "u64 \<Rightarrow> bytes" where "put_u64 w = be_encode 8 (unat w)"

definition get_u16 :: "bytes \<Rightarrow> u16" where "get_u16 bs = word_of_nat (be_decode (take 2 bs))"
definition get_u32 :: "bytes \<Rightarrow> u32" where "get_u32 bs = word_of_nat (be_decode (take 4 bs))"
definition get_u64 :: "bytes \<Rightarrow> u64" where "get_u64 bs = word_of_nat (be_decode (take 8 bs))"

lemma length_put [simp, codec_simps]:
  "length (put_u16 a) = 2" "length (put_u32 b) = 4" "length (put_u64 c) = 8"
  by (simp_all add: put_u16_def put_u32_def put_u64_def)

lemma get_put [simp, codec_simps]:
  "get_u16 (put_u16 a @ rest) = a"
  "get_u32 (put_u32 b @ rest) = b"
  "get_u64 (put_u64 c @ rest) = c"
  "get_u64 (put_u64 c) = c"
  by (simp_all add: put_u16_def get_u16_def put_u32_def get_u32_def put_u64_def get_u64_def
      be_decode_word)

lemma drop_put [simp, codec_simps]:
  "drop 2 (put_u16 a @ rest) = rest" "drop 4 (put_u32 b @ rest) = rest"
  by simp_all

section \<open>Write buffers\<close>

text \<open>A \<open>BufMut\<close>: the bytes written so far and how many more it accepts. Writing past the
  end panics, which is \<open>None\<close>.\<close>

record bufmut =
  written :: bytes
  remaining_mut :: nat

definition put_slice :: "bytes \<Rightarrow> bufmut \<Rightarrow> bufmut option" where
  "put_slice bs b =
     (if length bs \<le> remaining_mut b
      then Some (b\<lparr>written := written b @ bs, remaining_mut := remaining_mut b - length bs\<rparr>)
      else None)"

lemma put_slice_append:
  "Option.bind (put_slice xs b) (put_slice ys) = put_slice (xs @ ys) b"
  by (auto simp: put_slice_def)

lemma put_slice_bind:
  "Option.bind (put_slice xs b) (\<lambda>b'. Option.bind (put_slice ys b') f) =
   Option.bind (put_slice (xs @ ys) b) f"
  by (auto simp: put_slice_def)

section \<open>Insertion-ordered maps\<close>

text \<open>
  \<open>IndexMap\<close> keeps its entries in insertion order: inserting an existing key replaces the value
  in place, a new key goes to the end, and \<open>shift_remove\<close> closes the gap. This is the
  association list with \<open>AList.update\<close> and \<open>AList.delete\<close>. A \<open>BTreeMap\<close> of which only
  lookups, insertions, removals and the size are observed is represented the same way.
\<close>

type_synonym ('k, 'v) index_map = "('k \<times> 'v) list"

abbreviation im_get :: "('k, 'v) index_map \<Rightarrow> 'k \<Rightarrow> 'v option" where
  "im_get m k \<equiv> map_of m k"

abbreviation im_insert :: "'k \<Rightarrow> 'v \<Rightarrow> ('k, 'v) index_map \<Rightarrow> ('k, 'v) index_map" where
  "im_insert k v m \<equiv> AList.update k v m"

abbreviation im_shift_remove :: "'k \<Rightarrow> ('k, 'v) index_map \<Rightarrow> ('k, 'v) index_map" where
  "im_shift_remove k m \<equiv> AList.delete k m"

abbreviation im_wf :: "('k, 'v) index_map \<Rightarrow> bool" where
  "im_wf m \<equiv> distinct (map fst m)"

lemma im_insert_new: "k \<notin> fst ` set m \<Longrightarrow> im_insert k v m = m @ [(k, v)]"
  by (induction m) auto

lemma im_insert_old_length: "k \<in> fst ` set m \<Longrightarrow> length (im_insert k v m) = length m"
  by (induction m) auto

lemma im_length_insert:
  "length (im_insert k v m) = (if k \<in> fst ` set m then length m else Suc (length m))"
  by (simp add: im_insert_new im_insert_old_length)

lemma im_delete_absent: "k \<notin> fst ` set m \<Longrightarrow> im_shift_remove k m = m"
  by (induction m) (auto simp: AList.delete_eq)

lemma im_delete_length_le: "length (im_shift_remove k m) \<le> length m"
  by (simp add: AList.delete_eq)

lemma im_delete_present_less: "k \<in> fst ` set m \<Longrightarrow> length (im_shift_remove k m) < length m"
  by (auto simp: AList.delete_eq intro!: length_filter_less)

lemma in_set_delete: "x \<in> set (im_shift_remove k m) \<Longrightarrow> x \<in> set m"
  by (simp add: AList.delete_eq)

lemma in_set_update: "x \<in> set (im_insert k v m) \<Longrightarrow> x = (k, v) \<or> x \<in> set m"
  by (induction m) (auto split: if_splits)

section \<open>Updating lists by index\<close>

lemma nth_update: "j < length xs \<Longrightarrow> xs[i := x] ! j = (if i = j then x else xs ! j)"
  by simp

lemma map_update_same: "f y = f (xs ! k) \<Longrightarrow> map f (xs[k := y]) = map f xs"
  by (cases "k < length xs") (simp_all add: map_update list_update_same_conv list_update_beyond)

section \<open>Actors\<close>

text \<open>
  The managers of the SDK are actors: they own a state and process input events one at a time,
  each handler updating the state. An invariant that holds initially and that every handler keeps
  holds after any sequence of events.
\<close>

fun actor_run :: "('s \<Rightarrow> 'e \<Rightarrow> 's) \<Rightarrow> 's \<Rightarrow> 'e list \<Rightarrow> 's" where
  "actor_run step s [] = s"
| "actor_run step s (e # es) = actor_run step (step s e) es"

lemma actor_run_append: "actor_run step s (xs @ ys) = actor_run step (actor_run step s xs) ys"
  by (induction xs arbitrary: s) auto

text \<open>\<open>ok\<close> restricts the events an environment can send in a state, for instance the order in
  which a handler iterates over a hash map to an enumeration of its keys.\<close>

fun actor_ok :: "('s \<Rightarrow> 'e \<Rightarrow> 's) \<Rightarrow> ('s \<Rightarrow> 'e \<Rightarrow> bool) \<Rightarrow> 's \<Rightarrow> 'e list \<Rightarrow> bool" where
  "actor_ok step ok s [] \<longleftrightarrow> True"
| "actor_ok step ok s (e # es) \<longleftrightarrow> ok s e \<and> actor_ok step ok (step s e) es"

lemma actor_ok_True [simp]: "actor_ok step (\<lambda>_ _. True) s es"
  by (induction es arbitrary: s) auto

lemma actor_ok_append:
  "actor_ok step ok s (xs @ ys) \<longleftrightarrow> actor_ok step ok s xs \<and> actor_ok step ok (actor_run step s xs) ys"
  by (induction xs arbitrary: s) auto

locale actor =
  fixes init :: "'s"
    and step :: "'s \<Rightarrow> 'e \<Rightarrow> 's"
    and ok :: "'s \<Rightarrow> 'e \<Rightarrow> bool"
    and inv :: "'s \<Rightarrow> bool"
  assumes inv_init: "inv init"
    and inv_step: "inv s \<Longrightarrow> ok s e \<Longrightarrow> inv (step s e)"
begin

lemma inv_run: "inv s \<Longrightarrow> actor_ok step ok s es \<Longrightarrow> inv (actor_run step s es)"
  by (induction es arbitrary: s) (auto intro: inv_step)

lemma inv_reachable: "actor_ok step ok init es \<Longrightarrow> inv (actor_run step init es)"
  by (rule inv_run [OF inv_init])

end

section \<open>Chunkers\<close>

text \<open>
  Several components cut a byte string into pieces of bounded size that are sent one by one and
  concatenated by the receiver. What they rely on: the pieces concatenate to the input, none is
  empty, and none exceeds the bound. \<open>good\<close> is the precondition on the input.
\<close>

locale chunker =
  fixes chunks :: "nat \<Rightarrow> bytes \<Rightarrow> bytes list"
    and good :: "nat \<Rightarrow> bytes \<Rightarrow> bool"
  assumes concat_chunks: "good n bs \<Longrightarrow> concat (chunks n bs) = bs"
    and chunks_nonempty: "good n bs \<Longrightarrow> c \<in> set (chunks n bs) \<Longrightarrow> c \<noteq> []"
    and chunks_bounded: "good n bs \<Longrightarrow> c \<in> set (chunks n bs) \<Longrightarrow> length c \<le> n"
begin

lemma sum_chunks: "good n bs \<Longrightarrow> sum_list (map length (chunks n bs)) = length bs"
  using concat_chunks [of n bs] length_concat [of "chunks n bs"] by simp

lemma chunks_empty_iff: "good n bs \<Longrightarrow> chunks n bs = [] \<longleftrightarrow> bs = []"
  using concat_chunks [of n bs] chunks_nonempty [of n bs]
  by (cases "chunks n bs") auto

lemma chunk_count_bounds:
  assumes "good n bs"
  shows "length (chunks n bs) \<le> length bs" "length bs \<le> length (chunks n bs) * n"
proof -
  have "length (chunks n bs) \<le> sum_list (map length (chunks n bs))"
    using sum_list_mono [of "chunks n bs" "\<lambda>_. 1" length] chunks_nonempty [OF assms]
    by (simp add: sum_list_triv Suc_le_eq)
  then show "length (chunks n bs) \<le> length bs"
    using sum_chunks [OF assms] by simp
  have "sum_list (map length (chunks n bs)) \<le> length (chunks n bs) * n"
    using sum_list_mono [of "chunks n bs" length "\<lambda>_. n"] chunks_bounded [OF assms]
    by (simp add: sum_list_triv)
  then show "length bs \<le> length (chunks n bs) * n"
    using sum_chunks [OF assms] by simp
qed

end

end
