(* ===== verification/Dtp_Packet.thy ===== *)
theory Dtp_Packet
  imports Prelude
begin

text \<open>
  The data track packet (DTP) format, \<^verbatim>\<open>livekit-datatrack/src/packet/\<close>: track handles and their
  allocator, header extensions, the packet header, serialisation into a write buffer and
  deserialisation from received bytes.
\<close>

section \<open>Constants\<close>

definition SUPPORTED_VERSION :: u8 where [simp]: "SUPPORTED_VERSION = 0"
definition BASE_HEADER_LEN :: nat where [simp]: "BASE_HEADER_LEN = 12"
definition VERSION_SHIFT :: nat where [simp]: "VERSION_SHIFT = 5"
definition VERSION_MASK :: u8 where [simp]: "VERSION_MASK = 0x07"
definition FRAME_MARKER_SHIFT :: nat where [simp]: "FRAME_MARKER_SHIFT = 3"
definition FRAME_MARKER_MASK :: u8 where [simp]: "FRAME_MARKER_MASK = 0x3"
definition FRAME_MARKER_START :: u8 where [simp]: "FRAME_MARKER_START = 0x2"
definition FRAME_MARKER_FINAL :: u8 where [simp]: "FRAME_MARKER_FINAL = 0x1"
definition FRAME_MARKER_INTER :: u8 where [simp]: "FRAME_MARKER_INTER = 0x0"
definition FRAME_MARKER_SINGLE :: u8 where [simp]: "FRAME_MARKER_SINGLE = 0x3"
definition EXT_WORDS_INDICATOR_SIZE :: nat where [simp]: "EXT_WORDS_INDICATOR_SIZE = 2"
definition EXT_FLAG_SHIFT :: nat where [simp]: "EXT_FLAG_SHIFT = 2"
definition EXT_FLAG_MASK :: u8 where [simp]: "EXT_FLAG_MASK = 0x1"
definition EXT_MARKER_LEN :: nat where [simp]: "EXT_MARKER_LEN = 2"
definition EXT_TAG_PADDING :: u8 where [simp]: "EXT_TAG_PADDING = 0"
definition E2EE_TAG :: u8 where [simp]: "E2EE_TAG = 1"
definition E2EE_LEN :: nat where [simp]: "E2EE_LEN = 13"
definition USER_TIMESTAMP_TAG :: u8 where [simp]: "USER_TIMESTAMP_TAG = 2"
definition USER_TIMESTAMP_LEN :: nat where [simp]: "USER_TIMESTAMP_LEN = 8"

text \<open>Lengths are \<open>usize\<close>; the targets of the SDK that matter here are 64 bit.\<close>

definition USIZE_MAX :: nat where "USIZE_MAX = 2 ^ 64 - 1"

section \<open>Handles\<close>

datatype handle = Handle u16

datatype handle_error = Reserved u16 | TooLarge

fun handle_u16 :: "handle \<Rightarrow> u16" where
  "handle_u16 (Handle v) = v"

definition handle_u32 :: "handle \<Rightarrow> u32" where
  "handle_u32 h = ucast (handle_u16 h)"

definition handle_try_from_u16 :: "u16 \<Rightarrow> handle_error + handle" where
  "handle_try_from_u16 value = (if value = 0 then Inl (Reserved value) else Inr (Handle value))"

definition handle_try_from_u32 :: "u32 \<Rightarrow> handle_error + handle" where
  "handle_try_from_u32 value =
     (if unat value < 2 ^ 16 then handle_try_from_u16 (ucast value) else Inl TooLarge)"

text \<open>Handles are ordered by value, which gives a canonical enumeration of finite sets of
  handles.\<close>

instantiation handle :: linorder
begin

definition less_eq_handle :: "handle \<Rightarrow> handle \<Rightarrow> bool" where
  "less_eq_handle a b = (handle_u16 a \<le> handle_u16 b)"

definition less_handle :: "handle \<Rightarrow> handle \<Rightarrow> bool" where
  "less_handle a b = (handle_u16 a < handle_u16 b)"

instance
proof
  fix x y :: handle
  show "x \<le> y \<Longrightarrow> y \<le> x \<Longrightarrow> x = y"
    by (cases x; cases y) (simp add: less_eq_handle_def)
qed (auto simp: less_eq_handle_def less_handle_def)

end

definition handle_wf :: "handle \<Rightarrow> bool" where
  "handle_wf h = (handle_u16 h \<noteq> 0)"

text \<open>\<open>HandleAllocator\<close>: a counter that starts at zero; \<open>get\<close> hands out the next value.\<close>

record handle_allocator =
  ha_value :: u16

definition handle_allocator_default :: handle_allocator where
  "handle_allocator_default = \<lparr>ha_value = 0\<rparr>"

definition handle_allocator_get :: "handle_allocator \<Rightarrow> handle option \<times> handle_allocator" where
  "handle_allocator_get a =
     (case checked_add (ha_value a) 1 of
        None \<Rightarrow> (None, a)
      | Some v \<Rightarrow> (Some (Handle v), a\<lparr>ha_value := v\<rparr>))"

section \<open>Extensions, headers and packets\<close>

record e2ee_ext =
  key_index :: u8
  iv :: bytes

record extensions =
  ext_user_timestamp :: "u64 option"
  ext_e2ee :: "e2ee_ext option"

definition extensions_default :: extensions where
  "extensions_default = \<lparr>ext_user_timestamp = None, ext_e2ee = None\<rparr>"

datatype frame_marker = Start | Inter | Final | Single

record header =
  hdr_marker :: frame_marker
  hdr_track_handle :: handle
  hdr_sequence :: u16
  hdr_frame_number :: u16
  hdr_timestamp :: u32
  hdr_extensions :: extensions

record packet =
  pkt_header :: header
  pkt_payload :: bytes

text \<open>What the Rust types enforce: a handle is never zero and an initialisation vector is an
  array of twelve bytes.\<close>

definition extensions_wf :: "extensions \<Rightarrow> bool" where
  "extensions_wf e = (case ext_e2ee e of None \<Rightarrow> True | Some x \<Rightarrow> length (iv x) = 12)"

definition header_wf :: "header \<Rightarrow> bool" where
  "header_wf h = (handle_wf (hdr_track_handle h) \<and> extensions_wf (hdr_extensions h))"

definition packet_wf :: "packet \<Rightarrow> bool" where
  "packet_wf p = header_wf (pkt_header p)"

section \<open>Serialisation\<close>

datatype serialize_error = TooSmallForHeader | TooSmallForPayload

definition extensions_serialized_len :: "extensions \<Rightarrow> nat" where
  "extensions_serialized_len e =
     (if ext_e2ee e \<noteq> None then EXT_MARKER_LEN + E2EE_LEN else 0) +
     (if ext_user_timestamp e \<noteq> None then EXT_MARKER_LEN + USER_TIMESTAMP_LEN else 0)"

record header_metrics =
  ext_len :: nat
  ext_words :: nat
  padding_len :: nat

definition header_metrics_of :: "header \<Rightarrow> header_metrics" where
  "header_metrics_of h =
     (let el = extensions_serialized_len (hdr_extensions h);
          ew = div_ceil (EXT_WORDS_INDICATOR_SIZE + el) 4;
          pl = ew * 4 - EXT_WORDS_INDICATOR_SIZE - el
      in \<lparr>ext_len = el, ext_words = ew, padding_len = pl\<rparr>)"

definition metrics_serialized_len :: "header_metrics \<Rightarrow> nat" where
  "metrics_serialized_len m =
     (if ext_len m > 0
      then BASE_HEADER_LEN + (EXT_WORDS_INDICATOR_SIZE + ext_len m + padding_len m)
      else BASE_HEADER_LEN)"

definition header_serialized_len :: "header \<Rightarrow> nat" where
  "header_serialized_len h = metrics_serialized_len (header_metrics_of h)"

definition e2ee_serialize_into :: "e2ee_ext \<Rightarrow> bufmut \<Rightarrow> bufmut option" where
  "e2ee_serialize_into e b = do {
     b \<leftarrow> put_slice [E2EE_TAG] b;
     b \<leftarrow> put_slice [word_of_nat E2EE_LEN] b;
     b \<leftarrow> put_slice [key_index e] b;
     put_slice (iv e) b }"

definition user_timestamp_serialize_into :: "u64 \<Rightarrow> bufmut \<Rightarrow> bufmut option" where
  "user_timestamp_serialize_into t b = do {
     b \<leftarrow> put_slice [USER_TIMESTAMP_TAG] b;
     b \<leftarrow> put_slice [word_of_nat USER_TIMESTAMP_LEN] b;
     put_slice (put_u64 t) b }"

definition extensions_serialize_into :: "extensions \<Rightarrow> bufmut \<Rightarrow> bufmut option" where
  "extensions_serialize_into e b = do {
     b \<leftarrow> (case ext_e2ee e of None \<Rightarrow> Some b | Some x \<Rightarrow> e2ee_serialize_into x b);
     (case ext_user_timestamp e of None \<Rightarrow> Some b | Some t \<Rightarrow> user_timestamp_serialize_into t b) }"

fun marker_bits :: "frame_marker \<Rightarrow> u8" where
  "marker_bits Single = FRAME_MARKER_SINGLE"
| "marker_bits Start = FRAME_MARKER_START"
| "marker_bits Inter = FRAME_MARKER_INTER"
| "marker_bits Final = FRAME_MARKER_FINAL"

definition initial_byte :: "frame_marker \<Rightarrow> bool \<Rightarrow> u8" where
  "initial_byte m ext =
     (let initial = push_bit VERSION_SHIFT SUPPORTED_VERSION;
          initial = initial OR push_bit FRAME_MARKER_SHIFT (marker_bits m)
      in if ext then initial OR push_bit EXT_FLAG_SHIFT 1 else initial)"

text \<open>\<open>None\<close> is a panic: a write past the end of the buffer or the failed assertion on the
  number of bytes written.\<close>

definition header_serialize_into :: "header \<Rightarrow> bufmut \<Rightarrow> (serialize_error + nat \<times> bufmut) option" where
  "header_serialize_into h buf =
     (let metrics = header_metrics_of h;
          len = metrics_serialized_len metrics;
          remaining_initial = remaining_mut buf
      in if remaining_mut buf < len then Some (Inl TooSmallForHeader)
         else do {
           b \<leftarrow> put_slice [initial_byte (hdr_marker h) (ext_len metrics > 0)] buf;
           b \<leftarrow> put_slice [0] b;
           b \<leftarrow> put_slice (put_u16 (handle_u16 (hdr_track_handle h))) b;
           b \<leftarrow> put_slice (put_u16 (hdr_sequence h)) b;
           b \<leftarrow> put_slice (put_u16 (hdr_frame_number h)) b;
           b \<leftarrow> put_slice (put_u32 (hdr_timestamp h)) b;
           b \<leftarrow> (if ext_len metrics > 0 then do {
                   b \<leftarrow> put_slice (put_u16 (word_of_nat (ext_words metrics - 1))) b;
                   b \<leftarrow> extensions_serialize_into (hdr_extensions h) b;
                   put_slice (replicate (padding_len metrics) 0) b }
                 else Some b);
           if remaining_initial - remaining_mut b = len then Some (Inr (len, b)) else None })"

definition packet_serialized_len :: "packet \<Rightarrow> nat" where
  "packet_serialized_len p = header_serialized_len (pkt_header p) + length (pkt_payload p)"

definition packet_serialize_into :: "packet \<Rightarrow> bufmut \<Rightarrow> (serialize_error + nat \<times> bufmut) option" where
  "packet_serialize_into p buf =
     (let payload_len = length (pkt_payload p)
      in case header_serialize_into (pkt_header p) buf of
           None \<Rightarrow> None
         | Some (Inl e) \<Rightarrow> Some (Inl e)
         | Some (Inr (header_len, b)) \<Rightarrow>
             if remaining_mut b < payload_len then Some (Inl TooSmallForPayload)
             else do {
               b \<leftarrow> put_slice (pkt_payload p) b;
               Some (Inr (header_len + payload_len, b)) })"

definition packet_serialize :: "packet \<Rightarrow> bytes option" where
  "packet_serialize p =
     (let len = packet_serialized_len p
      in case packet_serialize_into p \<lparr>written = [], remaining_mut = USIZE_MAX\<rparr> of
           Some (Inr (n, b)) \<Rightarrow> if n = len then Some (written b) else None
         | _ \<Rightarrow> None)"

section \<open>Deserialisation\<close>

datatype deserialize_error =
    TooShort
  | HeaderOverrun
  | MissingExtWords
  | UnsupportedVersion u8
  | InvalidHandle handle_error
  | MalformedExt u8

definition user_timestamp_deserialize :: "bytes \<Rightarrow> u64" where
  "user_timestamp_deserialize raw = get_u64 raw"

definition e2ee_deserialize :: "bytes \<Rightarrow> e2ee_ext" where
  "e2ee_deserialize raw = \<lparr>key_index = hd raw, iv = take 12 (drop 1 raw)\<rparr>"

text \<open>The loop over the extension block; \<open>deserialize_ext!\<close> is expanded in the two branches
  that use it.\<close>

fun extensions_loop :: "extensions \<Rightarrow> bytes \<Rightarrow> deserialize_error + extensions" where
  "extensions_loop exts (tag # l # raw) =
     (let len = unat l
      in if tag = EXT_TAG_PADDING then extensions_loop exts raw
         else if tag = E2EE_TAG \<and> len \<ge> E2EE_LEN then
           (if length raw < len then Inl (MalformedExt E2EE_TAG)
            else extensions_loop
                   (exts\<lparr>ext_e2ee := Some (e2ee_deserialize (take E2EE_LEN raw))\<rparr>)
                   (drop (len - E2EE_LEN) (drop E2EE_LEN raw)))
         else if tag = USER_TIMESTAMP_TAG \<and> len \<ge> USER_TIMESTAMP_LEN then
           (if length raw < len then Inl (MalformedExt USER_TIMESTAMP_TAG)
            else extensions_loop
                   (exts\<lparr>ext_user_timestamp :=
                      Some (user_timestamp_deserialize (take USER_TIMESTAMP_LEN raw))\<rparr>)
                   (drop (len - USER_TIMESTAMP_LEN) (drop USER_TIMESTAMP_LEN raw)))
         else if length raw < len then Inl (MalformedExt tag)
         else extensions_loop exts (drop len raw))"
| "extensions_loop exts raw = Inr exts"

definition extensions_deserialize :: "bytes \<Rightarrow> deserialize_error + extensions" where
  "extensions_deserialize raw = extensions_loop extensions_default raw"

definition marker_of_bits :: "u8 \<Rightarrow> frame_marker" where
  "marker_of_bits bits =
     (if bits = FRAME_MARKER_START then Start
      else if bits = FRAME_MARKER_FINAL then Final
      else if bits = FRAME_MARKER_SINGLE then Single
      else Inter)"

definition header_deserialize :: "bytes \<Rightarrow> deserialize_error + (header \<times> bytes)" where
  "header_deserialize raw =
     (if length raw < BASE_HEADER_LEN then Inl TooShort
      else let initial = hd raw; raw = drop 1 raw;
               version = drop_bit VERSION_SHIFT initial AND VERSION_MASK
      in if version > SUPPORTED_VERSION then Inl (UnsupportedVersion version)
      else let marker = marker_of_bits (drop_bit FRAME_MARKER_SHIFT initial AND FRAME_MARKER_MASK);
               ext_flag = (drop_bit EXT_FLAG_SHIFT initial AND EXT_FLAG_MASK > 0);
               raw = drop 1 raw
      in case handle_try_from_u16 (get_u16 raw) of
           Inl e \<Rightarrow> Inl (InvalidHandle e)
         | Inr track_handle \<Rightarrow>
           let raw = drop 2 raw; sequence = get_u16 raw;
               raw = drop 2 raw; frame_number = get_u16 raw;
               raw = drop 2 raw; timestamp = get_u32 raw;
               raw = drop 4 raw;
               mk = (\<lambda>exts. \<lparr>hdr_marker = marker, hdr_track_handle = track_handle,
                             hdr_sequence = sequence, hdr_frame_number = frame_number,
                             hdr_timestamp = timestamp, hdr_extensions = exts\<rparr>)
           in if ext_flag then
                (if length raw < 2 then Inl MissingExtWords
                 else let words = get_u16 raw; raw = drop 2 raw;
                          len = 4 * (unat words + 1) - EXT_WORDS_INDICATOR_SIZE
                      in if len > length raw then Inl HeaderOverrun
                         else case extensions_deserialize (take len raw) of
                                Inl e \<Rightarrow> Inl e
                              | Inr exts \<Rightarrow> Inr (mk exts, drop len raw))
              else Inr (mk extensions_default, raw))"

definition packet_deserialize :: "bytes \<Rightarrow> deserialize_error + packet" where
  "packet_deserialize raw =
     (case header_deserialize raw of
        Inl e \<Rightarrow> Inl e
      | Inr (h, rest) \<Rightarrow> Inr \<lparr>pkt_header = h, pkt_payload = rest\<rparr>)"

section \<open>The encoding as a byte string\<close>

text \<open>A specification of the encoding without buffers: the bytes in the order they are
  written.\<close>

definition e2ee_bytes :: "e2ee_ext \<Rightarrow> bytes" where
  "e2ee_bytes e = [1, 13, key_index e] @ iv e"

definition user_timestamp_bytes :: "u64 \<Rightarrow> bytes" where
  "user_timestamp_bytes t = [2, 8] @ put_u64 t"

definition extensions_bytes :: "extensions \<Rightarrow> bytes" where
  "extensions_bytes e =
     (case ext_e2ee e of None \<Rightarrow> [] | Some x \<Rightarrow> e2ee_bytes x) @
     (case ext_user_timestamp e of None \<Rightarrow> [] | Some t \<Rightarrow> user_timestamp_bytes t)"

definition header_bytes :: "header \<Rightarrow> bytes" where
  "header_bytes h =
     (let m = header_metrics_of h in
      [initial_byte (hdr_marker h) (ext_len m > 0), 0] @
      put_u16 (handle_u16 (hdr_track_handle h)) @ put_u16 (hdr_sequence h) @
      put_u16 (hdr_frame_number h) @ put_u32 (hdr_timestamp h) @
      (if ext_len m > 0
       then put_u16 (word_of_nat (ext_words m - 1)) @ extensions_bytes (hdr_extensions h) @
            replicate (padding_len m) 0
       else []))"

lemma put_slice_Nil [simp]: "put_slice [] b = Some b"
  by (simp add: put_slice_def)

lemma extensions_serialize_into_eq:
  "extensions_serialize_into e b = put_slice (extensions_bytes e) b"
  by (simp add: extensions_serialize_into_def e2ee_serialize_into_def
      user_timestamp_serialize_into_def extensions_bytes_def e2ee_bytes_def
      user_timestamp_bytes_def put_slice_bind put_slice_append split: option.split)

lemma length_extensions_bytes [codec_simps]:
  "extensions_wf e \<Longrightarrow> length (extensions_bytes e) = extensions_serialized_len e"
  by (simp add: extensions_bytes_def extensions_serialized_len_def extensions_wf_def
      e2ee_bytes_def user_timestamp_bytes_def split: option.splits)

lemma ext_len_values:
  "extensions_serialized_len e \<in> {0, 10, 15, 25}"
  by (simp add: extensions_serialized_len_def)

lemma metrics_values:
  "header_metrics_of h \<in>
     {\<lparr>ext_len = 0, ext_words = 1, padding_len = 2\<rparr>,
      \<lparr>ext_len = 10, ext_words = 3, padding_len = 0\<rparr>,
      \<lparr>ext_len = 15, ext_words = 5, padding_len = 3\<rparr>,
      \<lparr>ext_len = 25, ext_words = 7, padding_len = 1\<rparr>}"
  using ext_len_values [of "hdr_extensions h"]
  by (auto simp: header_metrics_of_def Let_def div_ceil_def simp del: add_2_eq_Suc)

lemma length_header_bytes [codec_simps]:
  assumes "header_wf h"
  shows "length (header_bytes h) = header_serialized_len h"
proof -
  have "ext_len (header_metrics_of h) = length (extensions_bytes (hdr_extensions h))"
    using assms by (simp add: header_metrics_of_def Let_def header_wf_def length_extensions_bytes)
  then show ?thesis
    by (simp add: header_bytes_def header_serialized_len_def metrics_serialized_len_def Let_def)
qed

lemma header_serialize_into_eq:
  assumes "header_wf h"
  shows "header_serialize_into h buf =
     Some (if remaining_mut buf < header_serialized_len h then Inl TooSmallForHeader
           else Inr (header_serialized_len h,
                     buf\<lparr>written := written buf @ header_bytes h,
                         remaining_mut := remaining_mut buf - header_serialized_len h\<rparr>))"
proof (cases "remaining_mut buf < header_serialized_len h")
  case True
  then show ?thesis
    by (simp add: header_serialize_into_def header_serialized_len_def Let_def)
next
  case False
  have "header_serialize_into h buf =
      do { b \<leftarrow> put_slice (header_bytes h) buf;
           if remaining_mut buf - remaining_mut b = header_serialized_len h
           then Some (Inr (header_serialized_len h, b)) else None }"
    using False unfolding header_serialized_len_def
    by (simp add: header_serialize_into_def header_bytes_def Let_def
        put_slice_bind put_slice_append extensions_serialize_into_eq)
  with False show ?thesis
    using length_header_bytes [OF assms] by (simp add: put_slice_def)
qed

section \<open>Decoding what was encoded\<close>

lemma initial_byte_version [simp]: "drop_bit 5 (initial_byte m e) AND 7 = (0 :: u8)"
  by (cases m; cases e) (simp_all add: initial_byte_def)

lemma initial_byte_marker [simp]: "marker_of_bits (drop_bit 3 (initial_byte m e) AND 3) = m"
  by (cases m; cases e) (simp_all add: initial_byte_def marker_of_bits_def)

lemma initial_byte_ext [simp]: "0 < drop_bit 2 (initial_byte m e) AND (1 :: u8) \<longleftrightarrow> e"
  by (cases m; cases e) (simp_all add: initial_byte_def)

lemma extensions_loop_e2ee:
  assumes "length (iv x) = 12"
  shows "extensions_loop exts (e2ee_bytes x @ rest) =
         extensions_loop (exts\<lparr>ext_e2ee := Some x\<rparr>) rest"
proof -
  have "e2ee_deserialize (key_index x # iv x) = x"
    using assms by (simp add: e2ee_deserialize_def)
  then show ?thesis
    using assms by (simp add: e2ee_bytes_def)
qed

lemma extensions_loop_user_timestamp:
  "extensions_loop exts (user_timestamp_bytes t @ rest) =
   extensions_loop (exts\<lparr>ext_user_timestamp := Some t\<rparr>) rest"
  by (simp add: user_timestamp_bytes_def user_timestamp_deserialize_def)

lemma extensions_loop_padding:
  "extensions_loop exts (replicate n 0) = Inr exts"
proof (induction n rule: less_induct)
  case (less n)
  show ?case
  proof (cases "n < 2")
    case True
    then have "n = 0 \<or> n = 1" by auto
    then show ?thesis by auto
  next
    case False
    then obtain m where "n = Suc (Suc m)"
      by (metis less_2_cases_iff not0_implies_Suc One_nat_def)
    with less show ?thesis by simp
  qed
qed

lemma extensions_deserialize_bytes:
  assumes "extensions_wf e"
  shows "extensions_deserialize (extensions_bytes e @ replicate n 0) = Inr e"
proof -
  have "extensions_loop extensions_default (extensions_bytes e @ replicate n 0) =
      extensions_loop e (replicate n 0)"
    using assms
    by (cases e; cases "ext_e2ee e"; cases "ext_user_timestamp e")
      (simp_all add: extensions_bytes_def extensions_default_def extensions_wf_def
        extensions_loop_e2ee extensions_loop_user_timestamp)
  then show ?thesis
    by (simp add: extensions_deserialize_def extensions_loop_padding)
qed

text \<open>The length that the decoder computes from the word count covers exactly the extensions and
  their padding.\<close>

lemma decoded_ext_len:
  fixes h :: header
  defines "m \<equiv> header_metrics_of h"
  assumes "ext_len m > 0"
  shows "4 * (unat (word_of_nat (ext_words m - 1) :: u16) + 1) - 2 = ext_len m + padding_len m"
  using metrics_values [of h] assms by (auto simp: m_def)

lemma header_deserialize_bytes [codec_simps]:
  assumes "header_wf h"
  shows "header_deserialize (header_bytes h @ rest) = Inr (h, rest)"
proof -
  let ?m = "header_metrics_of h" and ?e = "hdr_extensions h"
  have wf: "handle_try_from_u16 (handle_u16 (hdr_track_handle h)) = Inr (hdr_track_handle h)"
    and ewf: "extensions_wf ?e"
    using assms by (cases "hdr_track_handle h", simp_all add: header_wf_def handle_wf_def handle_try_from_u16_def)
  show ?thesis
  proof (cases "ext_len ?m > 0")
    case True
    let ?block = "extensions_bytes ?e @ replicate (padding_len ?m) 0"
    have len: "length ?block = ext_len ?m + padding_len ?m"
      using ewf by (simp add: length_extensions_bytes header_metrics_of_def Let_def)
    show ?thesis
      using True wf len decoded_ext_len [of h] extensions_deserialize_bytes [OF ewf, of "padding_len ?m"]
      by (simp add: header_deserialize_def header_bytes_def Let_def)
  next
    case False
    then have "?e = extensions_default"
      by (cases ?e; cases "ext_e2ee ?e"; cases "ext_user_timestamp ?e")
        (auto simp: header_metrics_of_def Let_def extensions_serialized_len_def extensions_default_def)
    with False wf show ?thesis
      by (simp add: header_deserialize_def header_bytes_def Let_def)
  qed
qed

section \<open>Properties of the format\<close>

lemma packet_serialize_into_eq:
  assumes "packet_wf p"
  shows "packet_serialize_into p buf =
     Some (if remaining_mut buf < header_serialized_len (pkt_header p) then Inl TooSmallForHeader
           else if remaining_mut buf < packet_serialized_len p then Inl TooSmallForPayload
           else Inr (packet_serialized_len p,
                     buf\<lparr>written := written buf @ header_bytes (pkt_header p) @ pkt_payload p,
                         remaining_mut := remaining_mut buf - packet_serialized_len p\<rparr>))"
  using assms
  by (auto simp: packet_serialize_into_def packet_wf_def header_serialize_into_eq Let_def
      packet_serialized_len_def put_slice_def)

lemma packet_serialize_eq:
  assumes "packet_wf p" "packet_serialized_len p \<le> USIZE_MAX"
  shows "packet_serialize p = Some (header_bytes (pkt_header p) @ pkt_payload p)"
  using assms by (simp add: packet_serialize_def packet_serialize_into_eq packet_serialized_len_def)

lemma packet_deserialize_bytes:
  "packet_wf p \<Longrightarrow> packet_deserialize (header_bytes (pkt_header p) @ pkt_payload p) = Inr p"
  by (simp add: packet_deserialize_def packet_wf_def header_deserialize_bytes)

text \<open>C3. Encoding then decoding a packet is the identity: every well-formed packet serialises
  without panicking, into exactly \<open>serialized_len\<close> bytes, and those bytes deserialise to the
  same header and payload.\<close>

theorem packet_roundtrip:
  assumes "packet_wf p" and "packet_serialized_len p \<le> USIZE_MAX"
  shows "\<exists>raw. packet_serialize p = Some raw \<and> length raw = packet_serialized_len p \<and>
           packet_deserialize raw = Inr p"
  using assms packet_serialize_eq [OF assms] packet_deserialize_bytes [OF assms(1)]
  by (simp add: packet_serialized_len_def packet_wf_def length_header_bytes)

definition sample_packet :: packet where
  "sample_packet =
     \<lparr>pkt_header = \<lparr>hdr_marker = Final, hdr_track_handle = Handle 0x8811, hdr_sequence = 0x4422,
        hdr_frame_number = 0x4411, hdr_timestamp = 0x44221188,
        hdr_extensions = \<lparr>ext_user_timestamp = Some 0x4411221111118811,
          ext_e2ee = Some \<lparr>key_index = 0xFA, iv = replicate 12 0x3C\<rparr>\<rparr>\<rparr>,
      pkt_payload = replicate 5 0xFA\<rparr>"

lemma sample_packet_wf: "packet_wf sample_packet" "packet_serialized_len sample_packet \<le> USIZE_MAX"
  by (simp_all add: sample_packet_def packet_wf_def header_wf_def handle_wf_def extensions_wf_def
      packet_serialized_len_def header_serialized_len_def metrics_serialized_len_def
      header_metrics_of_def extensions_serialized_len_def div_ceil_def USIZE_MAX_def)

theorem packet_roundtrip_witness:
  "\<exists>raw. packet_serialize sample_packet = Some raw \<and>
     length raw = packet_serialized_len sample_packet \<and> packet_deserialize raw = Inr sample_packet"
  by (rule packet_roundtrip [OF sample_packet_wf])

text \<open>Serialising into a buffer of any size takes exactly one of three outcomes and never
  panics: the header does not fit, the header fits and the payload does not, or the encoding is
  appended to the buffer and its length returned.\<close>

theorem serialize_into_outcomes:
  assumes "packet_wf p"
  shows "packet_serialize_into p buf =
     Some (if remaining_mut buf < header_serialized_len (pkt_header p) then Inl TooSmallForHeader
           else if remaining_mut buf < packet_serialized_len p then Inl TooSmallForPayload
           else Inr (packet_serialized_len p,
                     buf\<lparr>written := written buf @ header_bytes (pkt_header p) @ pkt_payload p,
                         remaining_mut := remaining_mut buf - packet_serialized_len p\<rparr>))"
  by (rule packet_serialize_into_eq [OF assms])

theorem serialize_into_outcomes_witness:
  "packet_serialize_into sample_packet \<lparr>written = [], remaining_mut = 41\<rparr> =
     Some (Inl TooSmallForPayload)"
  using serialize_into_outcomes [OF sample_packet_wf(1), of "\<lparr>written = [], remaining_mut = 41\<rparr>"]
  by (simp add: sample_packet_def packet_serialized_len_def header_serialized_len_def
      metrics_serialized_len_def header_metrics_of_def extensions_serialized_len_def div_ceil_def)

lemma extensions_loop_wf:
  "extensions_wf exts \<Longrightarrow> extensions_loop exts raw = Inr exts' \<Longrightarrow> extensions_wf exts'"
proof (induction exts raw rule: extensions_loop.induct)
  case (1 exts tag l raw)
  have "extensions_wf (exts\<lparr>ext_e2ee := Some (e2ee_deserialize (take 13 raw))\<rparr>)"
    if "13 \<le> unat l" "unat l \<le> length raw"
    using that by (simp add: extensions_wf_def e2ee_deserialize_def)
  moreover have "extensions_wf (exts\<lparr>ext_user_timestamp := t\<rparr>)" for t
    using "1.prems"(1) by (simp add: extensions_wf_def)
  ultimately show ?case
    using "1.prems" "1.IH" by (auto simp: Let_def not_less split: if_splits)
qed auto

lemma header_deserialize_wf:
  assumes "header_deserialize raw = Inr (h, rest)"
  shows "header_wf h"
proof -
  have "extensions_wf extensions_default"
    by (simp add: extensions_wf_def extensions_default_def)
  then have ewf: "extensions_deserialize blk = Inr e \<Longrightarrow> extensions_wf e" for blk e
    unfolding extensions_deserialize_def by (rule extensions_loop_wf)
  have hwf: "handle_try_from_u16 v = Inr t \<Longrightarrow> handle_wf t" for v t
    by (auto simp: handle_try_from_u16_def handle_wf_def split: if_splits)
  show ?thesis
    using assms ewf hwf \<open>extensions_wf extensions_default\<close>
    by (auto simp: header_deserialize_def header_wf_def Let_def split: if_splits sum.splits)
qed

lemma header_deserialize_rest:
  "header_deserialize raw = Inr (h, rest) \<Longrightarrow>
     \<exists>n. BASE_HEADER_LEN \<le> n \<and> n \<le> length raw \<and> rest = drop n raw"
proof -
  have I: "12 \<le> k \<Longrightarrow> k \<le> length raw \<Longrightarrow> \<exists>n\<ge>12. n \<le> length raw \<and> drop k raw = drop n raw" for k
    by auto
  assume "header_deserialize raw = Inr (h, rest)"
  then show ?thesis
    by (auto simp: header_deserialize_def Let_def split: if_splits sum.splits intro!: I)
qed

text \<open>C6. Whatever bytes arrive, a packet that the decoder accepts has a valid (non-zero) track
  handle and twelve-byte initialisation vectors, and its payload is what is left of the input
  after a header of at least twelve bytes.\<close>

theorem deserialize_type_safe:
  assumes "packet_deserialize raw = Inr p"
  shows "packet_wf p \<and>
    (\<exists>n. BASE_HEADER_LEN \<le> n \<and> n \<le> length raw \<and> pkt_payload p = drop n raw)"
  using assms header_deserialize_wf header_deserialize_rest [of raw]
  by (auto simp: packet_deserialize_def packet_wf_def split: sum.splits prod.splits)

theorem deserialize_type_safe_witness:
  "packet_deserialize [0x8, 0, 0x88, 0x11, 0x44, 0x22, 0x44, 0x11, 0x44, 0x22, 0x11, 0x88] =
     Inr \<lparr>pkt_header = \<lparr>hdr_marker = Final, hdr_track_handle = Handle 0x8811,
            hdr_sequence = 0x4422, hdr_frame_number = 0x4411, hdr_timestamp = 0x44221188,
            hdr_extensions = extensions_default\<rparr>, pkt_payload = []\<rparr> \<and>
   packet_wf \<lparr>pkt_header = \<lparr>hdr_marker = Final, hdr_track_handle = Handle 0x8811,
            hdr_sequence = 0x4422, hdr_frame_number = 0x4411, hdr_timestamp = 0x44221188,
            hdr_extensions = extensions_default\<rparr>, pkt_payload = []\<rparr>"
    (is "?d = Inr ?p \<and> _")
proof -
  have d: "?d = Inr ?p"
    by (simp add: packet_deserialize_def header_deserialize_def handle_try_from_u16_def
        get_u16_def get_u32_def be_decode_def marker_of_bits_def Let_def)
  show ?thesis
    using d deserialize_type_safe [OF d] by simp
qed

text \<open>Forward compatibility: an extension that this version does not know, or one whose
  declared length is shorter than the known one, is skipped without affecting the others; one that
  is longer than known is read and its extra bytes are skipped.\<close>

theorem extensions_forward_compatible:
  assumes "length body = unat l" and "tag \<noteq> EXT_TAG_PADDING"
  shows "extensions_loop exts (tag # l # body @ rest) =
     (if tag = E2EE_TAG \<and> E2EE_LEN \<le> unat l
      then extensions_loop (exts\<lparr>ext_e2ee := Some (e2ee_deserialize (take E2EE_LEN body))\<rparr>) rest
      else if tag = USER_TIMESTAMP_TAG \<and> USER_TIMESTAMP_LEN \<le> unat l
      then extensions_loop (exts\<lparr>ext_user_timestamp := Some (get_u64 (take USER_TIMESTAMP_LEN body))\<rparr>) rest
      else extensions_loop exts rest)"
  using assms by (auto simp: user_timestamp_deserialize_def)

theorem extensions_forward_compatible_witness:
  "extensions_loop extensions_default ([2, 12] @ put_u64 7 @ replicate 4 0xFF @ [8, 1, 9]) =
   Inr (extensions_default\<lparr>ext_user_timestamp := Some 7\<rparr>)"
proof -
  have "extensions_loop extensions_default (2 # 12 # (put_u64 7 @ replicate 4 0xFF) @ [8, 1, 9]) =
      extensions_loop (extensions_default\<lparr>ext_user_timestamp := Some 7\<rparr>) [8, 1, 9]"
    using extensions_forward_compatible
      [of "put_u64 7 @ replicate 4 0xFF" 12 2 extensions_default "[8, 1, 9]"]
    by simp
  moreover have "extensions_loop e (8 # 1 # [9] @ []) = extensions_loop e []" for e
    using extensions_forward_compatible [of "[9]" 1 8 e "[]"] by simp
  ultimately show ?thesis by simp
qed

fun allocate :: "nat \<Rightarrow> handle_allocator \<Rightarrow> handle option list" where
  "allocate 0 a = []"
| "allocate (Suc n) a = (case handle_allocator_get a of (h, a') \<Rightarrow> h # allocate n a')"

lemma handle_allocator_get_below:
  assumes "v < 65535"
  shows "handle_allocator_get \<lparr>ha_value = word_of_nat v\<rparr> =
           (Some (Handle (word_of_nat (Suc v))), \<lparr>ha_value = word_of_nat (Suc v)\<rparr>)"
proof -
  have "unat (word_of_nat v :: u16) = v"
    using assms by (simp add: unat_of_nat)
  with assms show ?thesis
    by (simp add: handle_allocator_get_def checked_add_def add.commute [of "1 :: u16"])
qed

lemma handle_allocator_get_exhausted:
  assumes "v = 65535"
  shows "handle_allocator_get \<lparr>ha_value = word_of_nat v\<rparr> = (None, \<lparr>ha_value = word_of_nat v\<rparr>)"
proof -
  have "unat (word_of_nat v :: u16) = v"
    using assms by (simp add: unat_of_nat)
  with assms show ?thesis
    by (simp add: handle_allocator_get_def checked_add_def)
qed

lemma allocate_from:
  "v \<le> 65535 \<Longrightarrow> allocate n \<lparr>ha_value = word_of_nat v\<rparr> =
     map (\<lambda>i. if v + i < 65535 then Some (Handle (word_of_nat (Suc (v + i)))) else None) [0..<n]"
proof (induction n arbitrary: v)
  case 0
  then show ?case by simp
next
  case (Suc n)
  show ?case
  proof (cases "v < 65535")
    case True
    with Suc.IH [of "Suc v"] show ?thesis
      by (simp add: handle_allocator_get_below map_upt_Suc del: upt_Suc)
  next
    case False
    with Suc.prems have "v = 65535" by linarith
    then have "handle_allocator_get \<lparr>ha_value = word_of_nat v\<rparr> = (None, \<lparr>ha_value = word_of_nat v\<rparr>)"
      by (rule handle_allocator_get_exhausted)
    with False Suc.IH [OF Suc.prems] show ?thesis
      by (simp add: map_upt_Suc del: upt_Suc)
  qed
qed

text \<open>The handle allocator hands out 1, 2, ..., 65535 in this order, so no handle is the
  reserved zero and none is given twice, and then reports exhaustion on every further request.\<close>

theorem allocator_sequence:
  "allocate n handle_allocator_default =
     map (\<lambda>i. if i < 65535 then Some (Handle (word_of_nat (Suc i))) else None) [0..<n]"
  using allocate_from [of 0 n, OF le0]
  by (simp only: handle_allocator_default_def semiring_1_class.of_nat_0 add_0)

end
