(* ===== verification/Dtp_Time.thy ===== *)
theory Dtp_Time
  imports Prelude
begin

text \<open>
  Packet timestamps and the clock that produces them,
  \<^verbatim>\<open>livekit-datatrack/src/packet/time.rs\<close>. Instants are nanoseconds from an arbitrary origin; the
  tick rate, a const parameter in the source, is an argument.
\<close>

definition timestamp_is_before :: "u32 \<Rightarrow> u32 \<Rightarrow> bool" where
  "timestamp_is_before self other = (sint (self - other) < 0)"

definition timestamp_wrapping_add :: "u32 \<Rightarrow> u32 \<Rightarrow> u32" where
  "timestamp_wrapping_add self ticks = self + ticks"

record clock =
  clk_epoch :: nat
  clk_base :: u32
  clk_prev :: u32

definition clock_with_epoch :: "nat \<Rightarrow> u32 \<Rightarrow> clock" where
  "clock_with_epoch epoch base = \<lparr>clk_epoch = epoch, clk_base = base, clk_prev = base\<rparr>"

definition duration_to_ticks :: "nat \<Rightarrow> nat \<Rightarrow> u32" where
  "duration_to_ticks rate nanos = word_of_nat ((nanos * rate + 500000000) div 1000000000)"

text \<open>\<open>Instant::duration_since\<close> is zero for an earlier instant, as subtraction on \<open>nat\<close> is.\<close>

definition clock_at :: "nat \<Rightarrow> nat \<Rightarrow> clock \<Rightarrow> u32 \<times> clock" where
  "clock_at rate instant c =
     (let elapsed = instant - clk_epoch c;
          ticks = duration_to_ticks rate elapsed;
          ts = timestamp_wrapping_add (clk_base c) ticks;
          ts = (if timestamp_is_before ts (clk_prev c) then clk_prev c else ts)
      in (ts, c\<lparr>clk_prev := ts\<rparr>))"

fun clock_run :: "nat \<Rightarrow> clock \<Rightarrow> nat list \<Rightarrow> u32 list" where
  "clock_run rate c [] = []"
| "clock_run rate c (t # ts) = (case clock_at rate t c of (r, c') \<Rightarrow> r # clock_run rate c' ts)"

section \<open>Elapsed ticks without wrap-around\<close>

definition ticks_of :: "nat \<Rightarrow> nat \<Rightarrow> nat" where
  "ticks_of rate nanos = (nanos * rate + 500000000) div 1000000000"

lemma duration_to_ticks_eq: "duration_to_ticks rate d = word_of_nat (ticks_of rate d)"
  by (simp add: duration_to_ticks_def ticks_of_def)

lemma ticks_of_mono: "d \<le> d' \<Longrightarrow> ticks_of rate d \<le> ticks_of rate d'"
  by (simp add: ticks_of_def div_le_mono)

lemma sint_small: "k < 2 ^ 31 \<Longrightarrow> \<not> sint (word_of_nat k :: u32) < 0"
  by (simp add: signed_of_nat signed_take_bit_int_eq_self)

lemma sint_large:
  assumes "2 ^ 31 \<le> k mod 2 ^ 32"
  shows "sint (word_of_nat k :: u32) < 0"
proof -
  let ?r = "k mod 2 ^ 32"
  have "sint (word_of_nat k :: u32) = signed_take_bit 31 (int k)"
    by (simp add: signed_of_nat)
  also have "signed_take_bit 31 (int k) = signed_take_bit 31 (int ?r - 2 ^ 32)"
    unfolding signed_take_bit_eq_iff_take_bit_eq by (simp add: take_bit_eq_mod zmod_int mod_diff_eq)
  also have "\<dots> = int ?r - 2 ^ 32"
    using assms by (intro signed_take_bit_int_eq_self) simp_all
  finally show ?thesis by (simp add: zmod_int)
qed

lemma word_diff_nat:
  "m \<le> n \<Longrightarrow> (base + word_of_nat n) - (base + word_of_nat m) = (word_of_nat (n - m) :: u32)"
  by (simp add: of_nat_diff)

lemma not_before_refl [simp]: "\<not> timestamp_is_before t t"
  by (simp add: timestamp_is_before_def)

section \<open>Properties of the clock\<close>

lemma clock_at_tracks:
  assumes "clk_prev c = clk_base c + word_of_nat (ticks_of rate d)"
    and "d \<le> t - clk_epoch c"
    and "ticks_of rate (t - clk_epoch c) - ticks_of rate d < 2 ^ 31"
  shows "clock_at rate t c =
           (clk_base c + word_of_nat (ticks_of rate (t - clk_epoch c)),
            c\<lparr>clk_prev := clk_base c + word_of_nat (ticks_of rate (t - clk_epoch c))\<rparr>)"
proof -
  have "\<not> timestamp_is_before (clk_base c + word_of_nat (ticks_of rate (t - clk_epoch c))) (clk_prev c)"
    unfolding timestamp_is_before_def assms(1) word_diff_nat [OF ticks_of_mono [OF assms(2)]]
    using assms(3) by (rule sint_small)
  then show ?thesis
    by (simp add: clock_at_def Let_def timestamp_wrapping_add_def duration_to_ticks_eq)
qed

lemma clock_run_tracks:
  assumes "clk_prev c = clk_base c + word_of_nat (ticks_of rate d)"
    and "sorted ((clk_epoch c + d) # ts)"
    and "successively (\<lambda>a b. ticks_of rate (b - clk_epoch c) - ticks_of rate (a - clk_epoch c) < 2 ^ 31)
           ((clk_epoch c + d) # ts)"
  shows "clock_run rate c ts = map (\<lambda>t. clk_base c + word_of_nat (ticks_of rate (t - clk_epoch c))) ts"
  using assms
proof (induction ts arbitrary: c d)
  case Nil
  then show ?case by simp
next
  case (Cons t ts)
  let ?c = "c\<lparr>clk_prev := clk_base c + word_of_nat (ticks_of rate (t - clk_epoch c))\<rparr>"
  have at: "clock_at rate t c = (clk_base c + word_of_nat (ticks_of rate (t - clk_epoch c)), ?c)"
    by (rule clock_at_tracks [OF Cons.prems(1)]) (use Cons.prems(2,3) in auto)
  have "clock_run rate ?c ts =
      map (\<lambda>t. clk_base ?c + word_of_nat (ticks_of rate (t - clk_epoch ?c))) ts"
    by (rule Cons.IH [of _ "t - clk_epoch c"]) (use Cons.prems(2,3) in auto)
  with at show ?case by simp
qed

text \<open>The clock is exact while it is used often enough: for non-decreasing instants whose
  distance, also from the epoch to the first, is below half the timestamp range, every timestamp is
  the base plus the rounded number of ticks since the epoch.\<close>

theorem clock_exact:
  assumes "sorted (epoch # ts)"
    and "successively (\<lambda>a b. ticks_of rate (b - epoch) - ticks_of rate (a - epoch) < 2 ^ 31) (epoch # ts)"
  shows "clock_run rate (clock_with_epoch epoch base) ts =
           map (\<lambda>t. base + duration_to_ticks rate (t - epoch)) ts"
proof -
  have "clock_run rate (clock_with_epoch epoch base) ts =
      map (\<lambda>t. clk_base (clock_with_epoch epoch base) +
             word_of_nat (ticks_of rate (t - clk_epoch (clock_with_epoch epoch base)))) ts"
    by (rule clock_run_tracks [where d = 0])
      (use assms in \<open>simp_all add: clock_with_epoch_def ticks_of_def\<close>)
  then show ?thesis
    by (simp add: clock_with_epoch_def duration_to_ticks_eq)
qed

text \<open>Two frames 50 ms apart at 90 kHz, across the wrap of the 32-bit timestamp.\<close>

theorem clock_exact_witness:
  "clock_run 90000 (clock_with_epoch 7 0xFFFFFFFF) [7, 50000007] = [0xFFFFFFFF, 4499]"
  using clock_exact [of 7 "[7, 50000007]" 90000 "0xFFFFFFFF"]
  by (simp add: ticks_of_def duration_to_ticks_def)

text \<open>Timestamps never go backwards: each result is not before the previous one in wrap-around
  order, whatever instants the clock is asked for.\<close>

theorem clock_monotonic:
  "\<not> timestamp_is_before (fst (clock_at rate t c)) (clk_prev c) \<and>
   clk_prev (snd (clock_at rate t c)) = fst (clock_at rate t c)"
  by (simp add: clock_at_def Let_def)

text \<open>C8. The price of that guard: when the ticks that passed since the previous frame lie, modulo the timestamp
  range of \<open>2 ^ 32\<close>, in its upper half (at 90 kHz, after a gap of at least 6 h 37 min 41 s and less than twice that,
  or the same with whole ranges added), the new timestamp compares as before the previous one and the clock repeats the old
  value instead of advancing.\<close>

theorem clock_stalls_after_long_gap:
  assumes "clk_prev c = clk_base c + duration_to_ticks rate d"
    and "d \<le> t - clk_epoch c"
    and "2 ^ 31 \<le> (ticks_of rate (t - clk_epoch c) - ticks_of rate d) mod 2 ^ 32"
  shows "clock_at rate t c = (clk_prev c, c)"
proof -
  have "timestamp_is_before (clk_base c + word_of_nat (ticks_of rate (t - clk_epoch c))) (clk_prev c)"
    unfolding timestamp_is_before_def assms(1) duration_to_ticks_eq
      word_diff_nat [OF ticks_of_mono [OF assms(2)]]
    by (rule sint_large [OF assms(3)])
  then show ?thesis
    by (simp add: clock_at_def Let_def timestamp_wrapping_add_def duration_to_ticks_eq)
qed

theorem clock_stalls_after_long_gap_witness:
  "clock_at 90000 (7 * 3600 * 1000000000) (clock_with_epoch 0 5) = (5, clock_with_epoch 0 5)"
  using clock_stalls_after_long_gap [of "clock_with_epoch 0 5" 90000 0 "7 * 3600 * 1000000000"]
  by (simp add: clock_with_epoch_def ticks_of_def duration_to_ticks_def)

end
