(* ===== verification/Packetizer.thy ===== *)
theory Packetizer
  imports Dtp_Packet Dtp_Time
begin

text \<open>
  Splitting application frames into packets: the chunk iterator
  (\<^verbatim>\<open>livekit-datatrack/src/utils/bytes.rs\<close>), wrapping counters (\<^verbatim>\<open>utils/counter.rs\<close>) and the
  packetizer (\<^verbatim>\<open>local/packetizer.rs\<close>).
\<close>

section \<open>Chunks and counters\<close>

definition chunk_iter_next :: "nat \<Rightarrow> bytes \<Rightarrow> (bytes \<times> bytes) option" where
  "chunk_iter_next max_size source =
     (if source = [] then None
      else let n = min max_size (length source) in Some (take n source, drop n source))"

text \<open>All chunks of the iterator. A zero chunk size, with which the iterator would not end, is
  refused by \<open>into_chunks\<close>.\<close>

function chunk_iter_collect :: "nat \<Rightarrow> bytes \<Rightarrow> bytes list" where
  "chunk_iter_collect max_size source =
     (if max_size = 0 then []
      else case chunk_iter_next max_size source of
             None \<Rightarrow> []
           | Some (chunk, rest) \<Rightarrow> chunk # chunk_iter_collect max_size rest)"
  by pat_completeness auto
termination
  by (relation "measure (\<lambda>(n, s). length s)")
    (auto simp: chunk_iter_next_def Let_def split: if_splits)

declare chunk_iter_collect.simps [simp del]

definition into_chunks :: "nat \<Rightarrow> bytes \<Rightarrow> bytes list option" where
  "into_chunks max_size source =
     (if max_size = 0 then None else Some (chunk_iter_collect max_size source))"

definition counter_get_then_increment :: "u16 \<Rightarrow> u16 \<times> u16" where
  "counter_get_then_increment c = (c, c + 1)"

section \<open>The packetizer\<close>

record packetizer =
  pz_handle :: handle
  pz_mtu_size :: nat
  pz_sequence :: u16
  pz_frame_number :: u16
  pz_clock :: clock

record packetizer_frame =
  pf_payload :: bytes
  pf_extensions :: extensions

datatype packetizer_error = MtuTooShort

text \<open>The random base timestamp and the current instant are arguments.\<close>

definition packetizer_new :: "u32 \<Rightarrow> nat \<Rightarrow> handle \<Rightarrow> nat \<Rightarrow> packetizer" where
  "packetizer_new base now track_handle mtu_size =
     \<lparr>pz_handle = track_handle, pz_mtu_size = mtu_size, pz_sequence = 0, pz_frame_number = 0,
      pz_clock = clock_with_epoch now base\<rparr>"

definition frame_marker_at :: "nat \<Rightarrow> nat \<Rightarrow> frame_marker" where
  "frame_marker_at index packet_count =
     (if packet_count \<le> 1 then Single
      else if index = 0 then Start
      else if index = packet_count - 1 then Final
      else Inter)"

text \<open>The iterator chain over the enumerated chunks, drawing a sequence number for each.\<close>

fun emit_packets :: "header \<Rightarrow> nat \<Rightarrow> nat \<Rightarrow> u16 \<Rightarrow> bytes list \<Rightarrow> packet list \<times> u16" where
  "emit_packets h packet_count index seq [] = ([], seq)"
| "emit_packets h packet_count index seq (chunk # chunks) =
     (let (sequence, seq') = counter_get_then_increment seq;
          (rest, seq'') = emit_packets h packet_count (Suc index) seq' chunks
      in (\<lparr>pkt_header = h\<lparr>hdr_marker := frame_marker_at index packet_count,
                          hdr_sequence := sequence\<rparr>,
           pkt_payload = chunk\<rparr> # rest, seq''))"

definition packetize ::
    "nat \<Rightarrow> packetizer_frame \<Rightarrow> packetizer \<Rightarrow> (packetizer_error + packet list) option \<times> packetizer" where
  "packetize now frame pz =
     (let (ts, clk) = clock_at 90000 now (pz_clock pz);
          pz = pz\<lparr>pz_clock := clk\<rparr>;
          h = \<lparr>hdr_marker = Inter, hdr_track_handle = pz_handle pz, hdr_sequence = 0,
               hdr_frame_number = 0, hdr_timestamp = ts, hdr_extensions = pf_extensions frame\<rparr>;
          max_payload_size = pz_mtu_size pz - header_serialized_len h
      in if max_payload_size = 0 then (Some (Inl MtuTooShort), pz)
         else
           let (fn, fn') = counter_get_then_increment (pz_frame_number pz);
               pz = pz\<lparr>pz_frame_number := fn'\<rparr>;
               h = h\<lparr>hdr_frame_number := fn\<rparr>;
               packet_count = div_ceil (length (pf_payload frame)) max_payload_size
           in case into_chunks max_payload_size (pf_payload frame) of
                None \<Rightarrow> (None, pz)
              | Some chunks \<Rightarrow>
                  let (packets, seq) = emit_packets h packet_count 0 (pz_sequence pz) chunks
                  in (Some (Inr packets), pz\<lparr>pz_sequence := seq\<rparr>))"

section \<open>The chunk iterator is a chunker\<close>

lemma chunk_iter_collect_Nil [simp]: "chunk_iter_collect n [] = []"
  by (subst chunk_iter_collect.simps) (simp add: chunk_iter_next_def)

lemma chunk_iter_collect_step:
  "0 < n \<Longrightarrow> bs \<noteq> [] \<Longrightarrow> chunk_iter_collect n bs = take n bs # chunk_iter_collect n (drop n bs)"
  by (subst chunk_iter_collect.simps) (simp add: chunk_iter_next_def Let_def min_def)

lemma chunk_iter_collect_induct [consumes 1, case_names Nil Step]:
  assumes "0 < n" and "P []"
    and "\<And>bs. bs \<noteq> [] \<Longrightarrow> P (drop n bs) \<Longrightarrow> P bs"
  shows "P bs"
proof (induction bs rule: length_induct)
  case (1 bs)
  show ?case
  proof (cases "bs = []")
    case False
    then have "length (drop n bs) < length bs"
      using assms(1) by (simp add: diff_less)
    with 1 False assms(3) show ?thesis by blast
  qed (simp add: assms(2))
qed

interpretation mtu_chunks: chunker chunk_iter_collect "\<lambda>n bs. 0 < n"
proof
  fix n :: nat and bs :: bytes
  assume n: "0 < n"
  show "concat (chunk_iter_collect n bs) = bs"
    using n by (induction bs rule: chunk_iter_collect_induct) (simp_all add: chunk_iter_collect_step [OF n])
  show "c \<noteq> []" if "c \<in> set (chunk_iter_collect n bs)" for c
    using n that by (induction bs rule: chunk_iter_collect_induct) (use n in \<open>auto simp: chunk_iter_collect_step [OF n]\<close>)
  show "length c \<le> n" if "c \<in> set (chunk_iter_collect n bs)" for c
    using n that by (induction bs rule: chunk_iter_collect_induct) (use n in \<open>auto simp: chunk_iter_collect_step [OF n]\<close>)
qed

lemma length_chunk_iter_collect:
  assumes n: "0 < n"
  shows "length (chunk_iter_collect n bs) = div_ceil (length bs) n"
  using n
proof (induction bs rule: chunk_iter_collect_induct)
  case (Step bs)
  then show ?case
    using n div_ceil_step [of n "length bs"] div_ceil_small [of "length bs" n]
    by (cases "n < length bs") (auto simp: chunk_iter_collect_step)
qed simp

section \<open>What the packetizer emits\<close>

lemma emit_packets_eq:
  "emit_packets h k i s cs =
     (map (\<lambda>(j, c). \<lparr>pkt_header = h\<lparr>hdr_marker := frame_marker_at j k,
                                    hdr_sequence := s + word_of_nat (j - i)\<rparr>,
                     pkt_payload = c\<rparr>) (enumerate i cs),
      s + word_of_nat (length cs))"
proof (induction cs arbitrary: i s)
  case Nil
  then show ?case by simp
next
  case (Cons c cs)
  have "map (\<lambda>(j, c). \<lparr>pkt_header = h\<lparr>hdr_marker := frame_marker_at j k,
                       hdr_sequence := s + 1 + word_of_nat (j - Suc i)\<rparr>, pkt_payload = c\<rparr>)
          (enumerate (Suc i) cs) =
        map (\<lambda>(j, c). \<lparr>pkt_header = h\<lparr>hdr_marker := frame_marker_at j k,
                       hdr_sequence := s + word_of_nat (j - i)\<rparr>, pkt_payload = c\<rparr>)
          (enumerate (Suc i) cs)"
  proof (rule map_cong [OF refl])
    fix x assume "x \<in> set (enumerate (Suc i) cs)"
    then have "fst x - i = Suc (fst x - Suc i)"
      by (auto simp: in_set_enumerate_eq)
    then show "(\<lambda>(j, c). \<lparr>pkt_header = h\<lparr>hdr_marker := frame_marker_at j k,
                 hdr_sequence := s + 1 + word_of_nat (j - Suc i)\<rparr>, pkt_payload = c\<rparr>) x =
               (\<lambda>(j, c). \<lparr>pkt_header = h\<lparr>hdr_marker := frame_marker_at j k,
                 hdr_sequence := s + word_of_nat (j - i)\<rparr>, pkt_payload = c\<rparr>) x"
      by (cases x) (simp add: add.assoc)
  qed
  with Cons show ?case
    by (simp add: counter_get_then_increment_def)
qed

lemma header_serialized_len_cong:
  "hdr_extensions h = hdr_extensions h' \<Longrightarrow> header_serialized_len h = header_serialized_len h'"
  by (simp add: header_serialized_len_def header_metrics_of_def Let_def)

text \<open>The header shared by the packets of a frame, and the packets themselves.\<close>

definition frame_header :: "u32 \<Rightarrow> packetizer_frame \<Rightarrow> packetizer \<Rightarrow> header" where
  "frame_header ts frame pz =
     \<lparr>hdr_marker = Inter, hdr_track_handle = pz_handle pz, hdr_sequence = 0,
      hdr_frame_number = pz_frame_number pz, hdr_timestamp = ts,
      hdr_extensions = pf_extensions frame\<rparr>"

definition frame_packets :: "header \<Rightarrow> u16 \<Rightarrow> nat \<Rightarrow> bytes list \<Rightarrow> packet list" where
  "frame_packets h s n cs =
     map (\<lambda>(i, c). \<lparr>pkt_header = h\<lparr>hdr_marker := frame_marker_at i n,
                                   hdr_sequence := s + word_of_nat i\<rparr>,
                     pkt_payload = c\<rparr>) (enumerate 0 cs)"

lemma length_frame_packets [simp]: "length (frame_packets h s n cs) = length cs"
  by (simp add: frame_packets_def)

lemma nth_frame_packets:
  "i < length cs \<Longrightarrow> frame_packets h s n cs ! i =
     \<lparr>pkt_header = h\<lparr>hdr_marker := frame_marker_at i n, hdr_sequence := s + word_of_nat i\<rparr>,
      pkt_payload = cs ! i\<rparr>"
  by (simp add: frame_packets_def nth_enumerate_eq)

lemma payloads_frame_packets: "map pkt_payload (frame_packets h s n cs) = cs"
  by (rule nth_equalityI) (simp_all add: nth_frame_packets)

lemma packetize_eq:
  fixes now frame pz
  defines "ts \<equiv> fst (clock_at 90000 now (pz_clock pz))"
    and "clk \<equiv> snd (clock_at 90000 now (pz_clock pz))"
  defines "h \<equiv> frame_header ts frame pz"
  defines "m \<equiv> pz_mtu_size pz - header_serialized_len h"
  defines "cs \<equiv> chunk_iter_collect m (pf_payload frame)"
  shows "packetize now frame pz =
    (if m = 0 then (Some (Inl MtuTooShort), pz\<lparr>pz_clock := clk\<rparr>)
     else (Some (Inr (frame_packets h (pz_sequence pz) (length cs) cs)),
           pz\<lparr>pz_clock := clk, pz_frame_number := pz_frame_number pz + 1,
              pz_sequence := pz_sequence pz + word_of_nat (length cs)\<rparr>))"
proof -
  have len: "header_serialized_len (h\<lparr>hdr_frame_number := 0\<rparr>) = header_serialized_len h"
    by (rule header_serialized_len_cong) simp
  then have "header_serialized_len \<lparr>hdr_marker = Inter, hdr_track_handle = pz_handle pz,
      hdr_sequence = 0, hdr_frame_number = 0, hdr_timestamp = ts,
      hdr_extensions = pf_extensions frame\<rparr> = header_serialized_len h"
    by (simp add: h_def frame_header_def)
  moreover obtain ts' clk' where at: "clock_at 90000 now (pz_clock pz) = (ts', clk')"
    by fastforce
  ultimately show ?thesis
    by (simp add: packetize_def at Let_def counter_get_then_increment_def into_chunks_def
        emit_packets_eq frame_packets_def m_def cs_def ts_def clk_def h_def frame_header_def
        length_chunk_iter_collect)
qed

lemma packetize_OkE:
  assumes "packetize now frame pz = (Some (Inr ps), pz')"
  obtains h cs where "ps = frame_packets h (pz_sequence pz) (length cs) cs"
    and "h = frame_header (fst (clock_at 90000 now (pz_clock pz))) frame pz"
    and "cs = chunk_iter_collect (pz_mtu_size pz - header_serialized_len h) (pf_payload frame)"
    and "header_serialized_len h < pz_mtu_size pz"
    and "pz' = pz\<lparr>pz_clock := snd (clock_at 90000 now (pz_clock pz)),
                  pz_frame_number := pz_frame_number pz + 1,
                  pz_sequence := pz_sequence pz + word_of_nat (length cs)\<rparr>"
  using assms unfolding packetize_eq by (auto split: if_splits)

lemma packetize_packets:
  assumes "packetize now frame pz = (Some (Inr ps), pz')" and "p \<in> set ps"
  shows "packet_serialized_len p \<le> pz_mtu_size pz" "hdr_track_handle (pkt_header p) = pz_handle pz"
    "hdr_extensions (pkt_header p) = pf_extensions frame"
    "length ps = div_ceil (length (pf_payload frame)) (pz_mtu_size pz - header_serialized_len (pkt_header p))"
proof -
  from assms(1) obtain h cs where ps: "ps = frame_packets h (pz_sequence pz) (length cs) cs"
    and h: "h = frame_header (fst (clock_at 90000 now (pz_clock pz))) frame pz"
    and cs: "cs = chunk_iter_collect (pz_mtu_size pz - header_serialized_len h) (pf_payload frame)"
    and fits: "header_serialized_len h < pz_mtu_size pz"
    by (rule packetize_OkE)
  from assms(2) obtain i where i: "i < length cs" "p = ps ! i"
    by (auto simp: in_set_conv_nth ps)
  have pos: "0 < pz_mtu_size pz - header_serialized_len h"
    using fits by simp
  have hl: "header_serialized_len (pkt_header p) = header_serialized_len h"
    by (rule header_serialized_len_cong) (use i in \<open>simp add: ps nth_frame_packets\<close>)
  have "length (cs ! i) \<le> pz_mtu_size pz - header_serialized_len h"
    using i by (intro mtu_chunks.chunks_bounded [OF pos, of _ "pf_payload frame"]) (simp add: cs [symmetric])
  then show "packet_serialized_len p \<le> pz_mtu_size pz"
    using hl i fits by (simp add: packet_serialized_len_def ps nth_frame_packets)
  show "hdr_track_handle (pkt_header p) = pz_handle pz" "hdr_extensions (pkt_header p) = pf_extensions frame"
    using i by (simp_all add: ps nth_frame_packets h frame_header_def)
  show "length ps = div_ceil (length (pf_payload frame)) (pz_mtu_size pz - header_serialized_len (pkt_header p))"
    using hl length_chunk_iter_collect [OF pos, of "pf_payload frame"] cs by (simp add: ps)
qed

text \<open>C4. What \<open>packetize\<close> returns for a frame: the payloads concatenate to the frame's payload, no
  packet exceeds the MTU, there are as few packets as the MTU allows, sequence numbers are
  consecutive modulo 65536 from the counter, all packets carry the frame's number, handle and
  extensions, the markers are \<open>Single\<close> for one packet and \<open>Start\<close>, \<open>Inter\<close>, \<open>Final\<close> otherwise, and
  both counters move on.\<close>

theorem packetize_spec:
  assumes "packetize now frame pz = (Some (Inr ps), pz')"
  shows "concat (map pkt_payload ps) = pf_payload frame \<and>
    (\<forall>i < length ps. packet_serialized_len (ps ! i) \<le> pz_mtu_size pz \<and>
       hdr_sequence (pkt_header (ps ! i)) = pz_sequence pz + word_of_nat i \<and>
       hdr_frame_number (pkt_header (ps ! i)) = pz_frame_number pz \<and>
       hdr_track_handle (pkt_header (ps ! i)) = pz_handle pz \<and>
       hdr_extensions (pkt_header (ps ! i)) = pf_extensions frame \<and>
       hdr_marker (pkt_header (ps ! i)) =
         (if length ps = 1 then Single else if i = 0 then Start
          else if Suc i = length ps then Final else Inter)) \<and>
    (\<forall>p \<in> set ps. length ps = div_ceil (length (pf_payload frame))
                              (pz_mtu_size pz - header_serialized_len (pkt_header p))) \<and>
    pz_sequence pz' = pz_sequence pz + word_of_nat (length ps) \<and>
    pz_frame_number pz' = pz_frame_number pz + 1"
proof -
  from assms obtain h cs where ps: "ps = frame_packets h (pz_sequence pz) (length cs) cs"
    and h: "h = frame_header (fst (clock_at 90000 now (pz_clock pz))) frame pz"
    and cs: "cs = chunk_iter_collect (pz_mtu_size pz - header_serialized_len h) (pf_payload frame)"
    and fits: "header_serialized_len h < pz_mtu_size pz"
    and pz': "pz' = pz\<lparr>pz_clock := snd (clock_at 90000 now (pz_clock pz)),
                  pz_frame_number := pz_frame_number pz + 1,
                  pz_sequence := pz_sequence pz + word_of_nat (length cs)\<rparr>"
    by (rule packetize_OkE)
  have "\<forall>i < length ps. packet_serialized_len (ps ! i) \<le> pz_mtu_size pz"
    "\<forall>p \<in> set ps. length ps = div_ceil (length (pf_payload frame))
                             (pz_mtu_size pz - header_serialized_len (pkt_header p))"
    using packetize_packets [OF assms] by (simp_all add: nth_mem)
  moreover have "concat (map pkt_payload ps) = pf_payload frame"
    using mtu_chunks.concat_chunks [of _ "pf_payload frame"] fits
    by (simp add: ps payloads_frame_packets cs)
  ultimately show ?thesis
    by (auto simp: ps nth_frame_packets h frame_header_def frame_marker_at_def pz')
qed

definition sample_packetizer :: packetizer where
  "sample_packetizer = (packetizer_new 5 0 (Handle 1) 15)\<lparr>pz_sequence := 0xFFFF\<rparr>"

definition sample_frame :: packetizer_frame where
  "sample_frame = \<lparr>pf_payload = [1, 2, 3, 4, 5, 6, 7], pf_extensions = extensions_default\<rparr>"

definition sample_packets :: "packet list" where
  "sample_packets =
     map (\<lambda>(m, s, pl). \<lparr>pkt_header = \<lparr>hdr_marker = m, hdr_track_handle = Handle 1, hdr_sequence = s,
             hdr_frame_number = 0, hdr_timestamp = 5, hdr_extensions = extensions_default\<rparr>,
             pkt_payload = pl\<rparr>)
       [(Start, 0xFFFF, [1, 2, 3]), (Inter, 0, [4, 5, 6]), (Final, 1, [7])]"

lemma sample_packetized:
  "packetize 0 sample_frame sample_packetizer =
     (Some (Inr sample_packets), sample_packetizer\<lparr>pz_sequence := 2, pz_frame_number := 1\<rparr>)"
proof -
  let ?h = "frame_header 5 sample_frame sample_packetizer"
  have len: "header_serialized_len ?h = 12"
    by (simp add: header_serialized_len_def metrics_serialized_len_def header_metrics_of_def Let_def
        frame_header_def sample_frame_def extensions_default_def extensions_serialized_len_def)
  have at: "clock_at 90000 0 (pz_clock sample_packetizer) = (5, pz_clock sample_packetizer)"
    by (simp add: clock_at_def sample_packetizer_def packetizer_new_def clock_with_epoch_def
        duration_to_ticks_def timestamp_wrapping_add_def)
  have cs: "chunk_iter_collect 3 (pf_payload sample_frame) = [[1, 2, 3], [4, 5, 6], [7]]"
    by (simp add: sample_frame_def chunk_iter_collect_step)
  have mtu: "pz_mtu_size sample_packetizer = 15"
    by (simp add: sample_packetizer_def packetizer_new_def)
  show ?thesis
    by (simp add: packetize_eq at len cs mtu)
      (simp add: frame_packets_def sample_packets_def frame_header_def sample_frame_def
        sample_packetizer_def packetizer_new_def frame_marker_at_def)
qed

theorem packetize_spec_witness:
  "concat (map pkt_payload sample_packets) = [1, 2, 3, 4, 5, 6, 7] \<and>
   packet_serialized_len (sample_packets ! 1) \<le> 15 \<and>
   hdr_sequence (pkt_header (sample_packets ! 1)) = 0xFFFF + 1"
  using packetize_spec [OF sample_packetized]
  by (auto simp: sample_frame_def sample_packetizer_def packetizer_new_def sample_packets_def)

text \<open>\<open>packetize\<close> always returns (its chunk iterator is never built with a zero size), and it
  fails exactly when the header fills the MTU; then no sequence or frame number is consumed.\<close>

theorem packetize_outcomes:
  "(\<exists>ps pz'. packetize now frame pz = (Some (Inr ps), pz') \<and>
       header_serialized_len (frame_header 0 frame pz) < pz_mtu_size pz) \<or>
   (\<exists>pz'. packetize now frame pz = (Some (Inl MtuTooShort), pz') \<and>
       pz_mtu_size pz \<le> header_serialized_len (frame_header 0 frame pz) \<and>
       pz_sequence pz' = pz_sequence pz \<and> pz_frame_number pz' = pz_frame_number pz)"
proof -
  have "header_serialized_len (frame_header (fst (clock_at 90000 now (pz_clock pz))) frame pz) =
      header_serialized_len (frame_header 0 frame pz)"
    by (rule header_serialized_len_cong) (simp add: frame_header_def)
  then show ?thesis by (auto simp: packetize_eq)
qed

end
