(* ===== verification/Depacketizer.thy ===== *)
theory Depacketizer
  imports Packetizer "HOL-Library.Multiset"
begin

text \<open>
  Reassembling frames from packets, \<^verbatim>\<open>livekit-datatrack/src/remote/depacketizer.rs\<close>: the operations,
  the bound on what is buffered, which frames are delivered, and the round trip with the packetizer
  under reordering.
\<close>

section \<open>The depacketizer\<close>

definition MAX_BUFFER_PACKETS :: nat where "MAX_BUFFER_PACKETS = 128"

record partial_frame =
  start_sequence :: u16
  pfr_extensions :: extensions
  payloads :: "(u16, bytes) index_map"

record depacketizer =
  partials :: "(u16, partial_frame) index_map"

record depacketizer_frame =
  df_payload :: bytes
  df_extensions :: extensions

datatype drop_reason = Interrupted u16 | UnknownFrame | BufferFull | Incomplete u16 u16

record drop_error =
  drop_frame_number :: u16
  drop_reason :: drop_reason

record push_result =
  pr_frame :: "depacketizer_frame option"
  pr_drop_error :: "drop_error option"

definition push_result_default :: push_result where
  "push_result_default = \<lparr>pr_frame = None, pr_drop_error = None\<rparr>"

definition push_result_of_frame :: "depacketizer_frame \<Rightarrow> push_result" where
  "push_result_of_frame f = push_result_default\<lparr>pr_frame := Some f\<rparr>"

definition push_result_of_drop :: "drop_error \<Rightarrow> push_result" where
  "push_result_of_drop e = push_result_default\<lparr>pr_drop_error := Some e\<rparr>"

definition depacketizer_new :: depacketizer where
  "depacketizer_new = \<lparr>partials = []\<rparr>"

definition evict_oldest :: "u16 \<Rightarrow> depacketizer \<Rightarrow> drop_error option \<times> depacketizer" where
  "evict_oldest new_frame_number d =
     (case partials d of
        [] \<Rightarrow> (None, d)
      | (oldest, _) # _ \<Rightarrow>
          (Some \<lparr>drop_frame_number = oldest, drop_reason = Interrupted new_frame_number\<rparr>,
           d\<lparr>partials := im_shift_remove oldest (partials d)\<rparr>))"

definition frame_from_single :: "nat \<Rightarrow> packet \<Rightarrow> depacketizer \<Rightarrow> push_result \<times> depacketizer" where
  "frame_from_single max_partial_frames packet d =
     (let h = pkt_header packet;
          (err, d) = (if max_partial_frames \<le> length (partials d)
                      then evict_oldest (hdr_frame_number h) d else (None, d))
      in (\<lparr>pr_frame = Some \<lparr>df_payload = pkt_payload packet, df_extensions = hdr_extensions h\<rparr>,
           pr_drop_error = err\<rparr>, d))"

text \<open>The eviction loop of \<open>begin_partial\<close>; it surfaces the first eviction only.\<close>

function evict_loop ::
    "nat \<Rightarrow> u16 \<Rightarrow> drop_error option \<Rightarrow> depacketizer \<Rightarrow> drop_error option \<times> depacketizer" where
  "evict_loop max_partial_frames frame_number err d =
     (if max_partial_frames \<le> length (partials d)
      then case evict_oldest frame_number d of
             (None, d') \<Rightarrow> (err, d')
           | (Some evicted, d') \<Rightarrow>
               evict_loop max_partial_frames frame_number
                 (if err = None then Some evicted else err) d'
      else (err, d))"
  by pat_completeness auto
termination
  by (relation "measure (\<lambda>(m, f, e, d). length (partials d))")
    (auto simp: evict_oldest_def AList.delete_eq le_imp_less_Suc split: list.splits)

declare evict_loop.simps [simp del]

definition begin_partial :: "nat \<Rightarrow> packet \<Rightarrow> depacketizer \<Rightarrow> push_result \<times> depacketizer" where
  "begin_partial max_partial_frames packet d =
     (let h = pkt_header packet;
          (err, d) = evict_loop max_partial_frames (hdr_frame_number h) None d;
          p = \<lparr>start_sequence = hdr_sequence h, pfr_extensions = hdr_extensions h,
               payloads = [(hdr_sequence h, pkt_payload packet)]\<rparr>
      in (push_result_default\<lparr>pr_drop_error := err\<rparr>,
          d\<lparr>partials := im_insert (hdr_frame_number h) p (partials d)\<rparr>))"

text \<open>The loop of \<open>finalize\<close>: it removes the payloads in sequence order until the end sequence
  (the reassembled payload) or a gap (\<open>None\<close>).\<close>

function finalize_loop :: "(u16, bytes) index_map \<Rightarrow> u16 \<Rightarrow> u16 \<Rightarrow> bytes \<Rightarrow> bytes option" where
  "finalize_loop ps sequence end_sequence payload =
     (case im_get ps sequence of
        None \<Rightarrow> None
      | Some partial_payload \<Rightarrow>
          if sequence \<noteq> end_sequence
          then finalize_loop (im_shift_remove sequence ps) (sequence + 1) end_sequence
                 (payload @ partial_payload)
          else Some (payload @ partial_payload))"
  by pat_completeness auto
termination
  by (relation "measure (\<lambda>(ps, s, e, a). length ps)")
    (auto intro!: im_delete_present_less dest!: map_of_SomeD simp: rev_image_eqI)

declare finalize_loop.simps [simp del]

definition finalize :: "u16 \<Rightarrow> partial_frame \<Rightarrow> u16 \<Rightarrow> push_result" where
  "finalize frame_number p end_sequence =
     (let received = word_of_nat (length (payloads p))
      in case finalize_loop (payloads p) (start_sequence p) end_sequence [] of
           Some payload \<Rightarrow>
             push_result_of_frame \<lparr>df_payload = payload, df_extensions = pfr_extensions p\<rparr>
         | None \<Rightarrow>
             push_result_of_drop \<lparr>drop_frame_number = frame_number,
               drop_reason = Incomplete received (end_sequence - start_sequence p + 1)\<rparr>)"

definition push_to_partial :: "packet \<Rightarrow> depacketizer \<Rightarrow> push_result \<times> depacketizer" where
  "push_to_partial packet d =
     (let h = pkt_header packet; n = hdr_frame_number h
      in case im_get (partials d) n of
           None \<Rightarrow>
             (push_result_of_drop \<lparr>drop_frame_number = n, drop_reason = UnknownFrame\<rparr>, d)
         | Some p \<Rightarrow>
             if MAX_BUFFER_PACKETS \<le> length (payloads p)
             then (push_result_of_drop \<lparr>drop_frame_number = n, drop_reason = BufferFull\<rparr>,
                   d\<lparr>partials := im_shift_remove n (partials d)\<rparr>)
             else
               let p = p\<lparr>payloads := im_insert (hdr_sequence h) (pkt_payload packet) (payloads p)\<rparr>
               in if hdr_marker h = Final
                  then (finalize n p (hdr_sequence h),
                        d\<lparr>partials := im_shift_remove n (im_insert n p (partials d))\<rparr>)
                  else (push_result_default, d\<lparr>partials := im_insert n p (partials d)\<rparr>))"

definition depacketizer_push :: "nat \<Rightarrow> packet \<Rightarrow> depacketizer \<Rightarrow> push_result \<times> depacketizer" where
  "depacketizer_push max_partial_frames packet d =
     (case hdr_marker (pkt_header packet) of
        Single \<Rightarrow> frame_from_single max_partial_frames packet d
      | Start \<Rightarrow> begin_partial max_partial_frames packet d
      | Inter \<Rightarrow> push_to_partial packet d
      | Final \<Rightarrow> push_to_partial packet d)"

text \<open>Pushing packets one after the other, collecting the results. Every push comes with its own
  options: \<open>m i\<close> is the \<open>max_partial_frames\<close> of the push with number \<open>i\<close>.\<close>

fun push_all :: "(nat \<Rightarrow> nat) \<Rightarrow> packet list \<Rightarrow> depacketizer \<Rightarrow> push_result list \<times> depacketizer" where
  "push_all m [] d = ([], d)"
| "push_all m (p # ps) d =
     (let (r, d') = depacketizer_push (m 0) p d; (rs, d'') = push_all (\<lambda>i. m (Suc i)) ps d' in (r # rs, d''))"

section \<open>Finalisation\<close>

definition holds_run :: "(u16, bytes) index_map \<Rightarrow> u16 \<Rightarrow> bytes list \<Rightarrow> bool" where
  "holds_run m s cs \<longleftrightarrow> (\<forall>i < length cs. im_get m (s + word_of_nat i) = Some (cs ! i))"

lemma holds_run_Nil [simp]: "holds_run m s []"
  by (simp add: holds_run_def)

lemma holds_run_Cons:
  "holds_run m s (c # cs) \<longleftrightarrow> im_get m s = Some c \<and> holds_run m (s + 1) cs"
  unfolding holds_run_def
  by (auto simp: less_Suc_eq_0_disj nth_Cons ac_simps split: nat.splits)

lemma u16_step: "e \<noteq> s \<Longrightarrow> unat (e - s) = Suc (unat (e - (s + 1 :: u16)))"
  using unat_minus_one [of "e - s"] unat_gt_0 [of "e - s"]
  by (simp add: algebra_simps)

lemma u16_add_neq: "Suc i < 65536 \<Longrightarrow> s + 1 + word_of_nat i \<noteq> (s :: u16)"
proof
  assume i: "Suc i < 65536" and "s + 1 + word_of_nat i = (s :: u16)"
  then have "(word_of_nat (Suc i) :: u16) = 0"
    by (simp add: algebra_simps)
  then have "unat (word_of_nat (Suc i) :: u16) = 0"
    by simp
  with i show False
    by (simp only: unat_of_nat) (simp add: take_bit_nat_eq_self)
qed

lemma finalize_loop_complete:
  assumes "holds_run m s cs" and "length cs = Suc (unat (e - s))"
  shows "finalize_loop m s e acc = Some (acc @ concat cs)"
  using assms
proof (induction cs arbitrary: m s acc)
  case Nil
  then show ?case by simp
next
  case (Cons c cs)
  show ?case
  proof (cases "e = s")
    case True
    with Cons.prems show ?thesis
      by (subst finalize_loop.simps) (simp add: holds_run_Cons)
  next
    case False
    then have len: "length cs = Suc (unat (e - (s + 1)))"
      using Cons.prems(2) u16_step [of e s] by simp
    have "unat (e - s) < 2 ^ LENGTH(16)"
      by (rule unsigned_less)
    with u16_step [OF False] have "unat (e - (s + 1)) < 65535"
      by simp
    then have "s + 1 + word_of_nat i \<noteq> s" if "i < length cs" for i
      using that len by (intro u16_add_neq) simp
    then have "holds_run (im_shift_remove s m) (s + 1) cs"
      using Cons.prems(1) by (simp add: holds_run_Cons) (simp add: holds_run_def delete_conv')
    from Cons.IH [OF this len] Cons.prems(1) False show ?thesis
      by (subst finalize_loop.simps) (simp add: holds_run_Cons)
  qed
qed

lemma finalize_loop_sound:
  "finalize_loop m s e acc = Some r \<Longrightarrow>
     \<exists>cs. holds_run m s cs \<and> length cs = Suc (unat (e - s)) \<and> r = acc @ concat cs"
proof (induction m s e acc rule: finalize_loop.induct)
  case (1 m s e acc)
  from "1.prems" obtain b where b: "im_get m s = Some b"
    by (subst (asm) finalize_loop.simps) (auto split: option.splits)
  show ?case
  proof (cases "s = e")
    case True
    with "1.prems" b show ?thesis
      by (intro exI [of _ "[b]"]) (simp add: finalize_loop.simps [of m] holds_run_Cons)
  next
    case False
    with "1.prems" b have "finalize_loop (im_shift_remove s m) (s + 1) e (acc @ b) = Some r"
      by (simp add: finalize_loop.simps [of m])
    with "1.IH" [OF b False] obtain cs where cs: "holds_run (im_shift_remove s m) (s + 1) cs"
      "length cs = Suc (unat (e - (s + 1)))" "r = (acc @ b) @ concat cs"
      by blast
    from cs(1) have "holds_run m (s + 1) cs"
      by (auto simp: holds_run_def delete_conv' split: if_splits)
    with b cs(2,3) u16_step [of e s] False show ?thesis
      by (intro exI [of _ "b # cs"]) (auto simp: holds_run_Cons)
  qed
qed

lemma finalize_loop_iff:
  "finalize_loop m s e [] = Some r \<longleftrightarrow>
     (\<exists>cs. holds_run m s cs \<and> length cs = Suc (unat (e - s)) \<and> r = concat cs)"
  using finalize_loop_sound [of m s e "[]" r] finalize_loop_complete [of m s _ e "[]"] by auto

text \<open>Finalisation is exact: a partial frame yields a payload exactly when it holds a payload for
  every sequence number from its start to the end sequence, in wrap-around order, and the result is
  their concatenation in that order, whatever order they arrived in.\<close>

theorem finalize_exact:
  "pr_frame (finalize n p e) = Some f \<longleftrightarrow>
     (\<exists>cs. length cs = Suc (unat (e - start_sequence p)) \<and>
           (\<forall>i < length cs. im_get (payloads p) (start_sequence p + word_of_nat i) = Some (cs ! i)) \<and>
           f = \<lparr>df_payload = concat cs, df_extensions = pfr_extensions p\<rparr>)"
proof -
  have "pr_frame (finalize n p e) = Some f \<longleftrightarrow>
      (\<exists>r. finalize_loop (payloads p) (start_sequence p) e [] = Some r \<and>
           f = \<lparr>df_payload = r, df_extensions = pfr_extensions p\<rparr>)"
    by (auto simp: finalize_def Let_def push_result_of_frame_def push_result_of_drop_def
        push_result_default_def split: option.splits)
  also have "\<dots> \<longleftrightarrow> (\<exists>cs. length cs = Suc (unat (e - start_sequence p)) \<and>
      holds_run (payloads p) (start_sequence p) cs \<and>
      f = \<lparr>df_payload = concat cs, df_extensions = pfr_extensions p\<rparr>)"
    unfolding finalize_loop_iff by blast
  finally show ?thesis
    unfolding holds_run_def .
qed

lemma all_less_two: "(\<forall>i < Suc (Suc 0). P i) \<longleftrightarrow> P 0 \<and> P (Suc 0)"
  by (auto simp: less_Suc_eq)

theorem finalize_exact_witness:
  "pr_frame (finalize 3 \<lparr>start_sequence = 0xFFFF, pfr_extensions = extensions_default,
      payloads = [(0, [2]), (0xFFFF, [1])]\<rparr> 0) =
   Some \<lparr>df_payload = [1, 2], df_extensions = extensions_default\<rparr>"
  unfolding finalize_exact
  by (intro exI [of _ "[[1], [2]]"]) (simp add: all_less_two)

section \<open>What is buffered stays bounded\<close>

definition partial_ok :: "partial_frame \<Rightarrow> bool" where
  "partial_ok p \<longleftrightarrow> im_wf (payloads p) \<and> length (payloads p) \<le> MAX_BUFFER_PACKETS \<and>
     start_sequence p \<in> fst ` set (payloads p)"

definition depacketizer_inv :: "nat \<Rightarrow> depacketizer \<Rightarrow> bool" where
  "depacketizer_inv k d \<longleftrightarrow> im_wf (partials d) \<and> length (partials d) \<le> k \<and>
     (\<forall>p \<in> snd ` set (partials d). partial_ok p)"

lemma depacketizer_inv_tighten:
  "depacketizer_inv k d \<Longrightarrow> length (partials d) \<le> k' \<Longrightarrow> depacketizer_inv k' d"
  by (simp add: depacketizer_inv_def)

lemma depacketizer_inv_delete [inv_intros]:
  "depacketizer_inv m d \<Longrightarrow> depacketizer_inv m (d\<lparr>partials := im_shift_remove k (partials d)\<rparr>)"
  unfolding depacketizer_inv_def
  using im_delete_length_le [of k "partials d"]
  by (auto simp: distinct_delete dest: in_set_delete)

lemma evict_oldest_inv [inv_intros]:
  "depacketizer_inv m d \<Longrightarrow> depacketizer_inv m (snd (evict_oldest n d))"
  using depacketizer_inv_delete [of m d "fst (hd (partials d))"]
  by (auto simp: evict_oldest_def split: list.splits)

lemma evict_loop_inv:
  "depacketizer_inv m d \<Longrightarrow>
     depacketizer_inv m (snd (evict_loop k n e d)) \<and>
     (length (partials (snd (evict_loop k n e d))) < k \<or> partials (snd (evict_loop k n e d)) = [])"
proof (induction k n e d rule: evict_loop.induct)
  case (1 k n e d)
  show ?case
  proof (cases "k \<le> length (partials d)")
    case False
    with "1.prems" show ?thesis by (simp add: evict_loop.simps [of k])
  next
    case True
    show ?thesis
    proof (cases "fst (evict_oldest n d)")
      case None
      then have "partials d = []" by (auto simp: evict_oldest_def split: list.splits)
      with "1.prems" show ?thesis
        by (simp add: evict_loop.simps [of k] evict_oldest_def)
    next
      case (Some x)
      obtain d' where d': "evict_oldest n d = (Some x, d')"
        using Some by (cases "evict_oldest n d") auto
      have "depacketizer_inv m d'"
        using evict_oldest_inv [OF "1.prems", of n] d' by simp
      with "1.IH" [OF True d' [symmetric] refl] show ?thesis
        by (simp add: evict_loop.simps [of k n e] True d')
    qed
  qed
qed

lemma depacketizer_inv_insert:
  assumes "depacketizer_inv m d" and "partial_ok p"
    and "n \<in> fst ` set (partials d) \<or> length (partials d) < m"
  shows "depacketizer_inv m (d\<lparr>partials := im_insert n p (partials d)\<rparr>)"
  using assms im_length_insert [of n p "partials d"]
  unfolding depacketizer_inv_def
  by (auto simp: distinct_update dest!: in_set_update split: if_splits)

lemma partial_ok_insert:
  "partial_ok p \<Longrightarrow> length (payloads p) < MAX_BUFFER_PACKETS \<Longrightarrow>
     partial_ok (p\<lparr>payloads := im_insert s c (payloads p)\<rparr>)"
  by (simp add: partial_ok_def distinct_update im_length_insert dom_update)

lemma begin_partial_inv:
  assumes inv: "depacketizer_inv k d"
  shows "depacketizer_inv (max 1 m) (snd (begin_partial m p d))"
proof -
  let ?d = "snd (evict_loop m (hdr_frame_number (pkt_header p)) None d)"
  have loop: "depacketizer_inv k ?d" "length (partials ?d) < max 1 m"
    using evict_loop_inv [OF inv, of m "hdr_frame_number (pkt_header p)" None] by auto
  then have "depacketizer_inv (max 1 m) ?d"
    by (auto intro: depacketizer_inv_tighten)
  with loop(2) show ?thesis
    by (auto simp: begin_partial_def Let_def partial_ok_def MAX_BUFFER_PACKETS_def
        split: prod.splits intro!: depacketizer_inv_insert)
qed

lemma frame_from_single_inv:
  "depacketizer_inv k d \<Longrightarrow> depacketizer_inv k (snd (frame_from_single m p d))"
  using evict_oldest_inv [of k d "hdr_frame_number (pkt_header p)"]
  by (auto simp: frame_from_single_def Let_def split: prod.splits)

lemma push_to_partial_inv:
  assumes inv: "depacketizer_inv k d"
  shows "depacketizer_inv k (snd (push_to_partial p d))"
proof (cases "im_get (partials d) (hdr_frame_number (pkt_header p))")
  case None
  with inv show ?thesis by (simp add: push_to_partial_def Let_def)
next
  case (Some q)
  let ?q = "q\<lparr>payloads := im_insert (hdr_sequence (pkt_header p)) (pkt_payload p) (payloads q)\<rparr>"
  from Some have mem: "(hdr_frame_number (pkt_header p), q) \<in> set (partials d)"
    by (rule map_of_SomeD)
  then have "partial_ok q"
    using inv by (force simp: depacketizer_inv_def)
  then have "depacketizer_inv k (d\<lparr>partials := im_insert (hdr_frame_number (pkt_header p)) ?q (partials d)\<rparr>)"
    if "length (payloads q) < MAX_BUFFER_PACKETS"
    using that mem by (intro depacketizer_inv_insert [OF inv] partial_ok_insert) force+
  from this depacketizer_inv_delete [OF this] depacketizer_inv_delete [OF inv] Some show ?thesis
    by (auto simp: push_to_partial_def Let_def not_le)
qed

text \<open>The room for partial frames after a run of pushes: what the last start packet left, with the
  option of its own push.\<close>

fun partial_limit :: "nat \<Rightarrow> (nat \<Rightarrow> nat) \<Rightarrow> packet list \<Rightarrow> nat" where
  "partial_limit k m [] = k"
| "partial_limit k m (p # ps) =
     partial_limit (if hdr_marker (pkt_header p) = Start then max 1 (m 0) else k) (\<lambda>i. m (Suc i)) ps"

lemma depacketizer_push_inv:
  assumes "depacketizer_inv k d"
  shows "depacketizer_inv (if hdr_marker (pkt_header p) = Start then max 1 m else k)
    (snd (depacketizer_push m p d))"
  using assms begin_partial_inv [OF assms] frame_from_single_inv [OF assms] push_to_partial_inv [OF assms]
  by (cases "hdr_marker (pkt_header p)") (simp_all add: depacketizer_push_def)

lemma push_all_inv:
  "depacketizer_inv k d \<Longrightarrow> depacketizer_inv (partial_limit k m ps) (snd (push_all m ps d))"
proof (induction ps arbitrary: k m d)
  case (Cons p ps)
  from Cons.IH [OF depacketizer_push_inv [OF Cons.prems, of p "m 0"], of "\<lambda>i. m (Suc i)"] show ?case
    by (simp add: Let_def split_beta)
qed simp

text \<open>C5. Memory is bounded whatever packets arrive and however the option changes from push to push:
  after any sequence of pushes from a new depacketizer there are at most as many partial frames as the
  \<open>max_partial_frames\<close> of the push of the last start packet (one, if it was zero; none before the first start
  packet), so that a smaller option takes effect at once; each has at most 128 buffered
  payloads, under distinct keys, and still holds its start packet.\<close>

theorem depacketizer_bounded:
  "let d = snd (push_all m ps depacketizer_new) in
     im_wf (partials d) \<and> length (partials d) \<le> partial_limit 0 m ps \<and>
     (\<forall>p. p \<in> snd ` set (partials d) \<longrightarrow> im_wf (payloads p) \<and> length (payloads p) \<le> 128 \<and>
        start_sequence p \<in> fst ` set (payloads p))"
proof -
  have "depacketizer_inv (partial_limit 0 m ps) (snd (push_all m ps depacketizer_new))"
    by (rule push_all_inv) (simp add: depacketizer_inv_def depacketizer_new_def)
  then show ?thesis
    unfolding Let_def depacketizer_inv_def partial_ok_def MAX_BUFFER_PACKETS_def by blast
qed

text \<open>Three frames under way, then the option shrinks from three to one: the next start packet leaves one.\<close>

definition sample_start :: "u16 \<Rightarrow> packet" where
  "sample_start n = \<lparr>pkt_header = \<lparr>hdr_marker = Start, hdr_track_handle = Handle 1, hdr_sequence = 0,
     hdr_frame_number = n, hdr_timestamp = 5, hdr_extensions = extensions_default\<rparr>, pkt_payload = [1]\<rparr>"

theorem depacketizer_bounded_witness:
  "let d = snd (push_all (\<lambda>i. if i < 3 then 3 else 1) (map sample_start [1, 2, 3, 4]) depacketizer_new)
   in length (partials d) = 1 \<and> length (partials d) \<le> partial_limit 0 (\<lambda>i. if i < 3 then 3 else 1) (map sample_start [1, 2, 3, 4])"
  using depacketizer_bounded [of "\<lambda>i. if i < 3 then 3 else 1" "map sample_start [1, 2, 3, 4]"]
  by (simp add: Let_def) (simp add: sample_start_def depacketizer_push_def begin_partial_def
      evict_loop.simps evict_oldest_def depacketizer_new_def)

section \<open>Delivered frames consist of received packets\<close>

text \<open>A frame put together from a set of received packets: the payload of a single packet, or the
  concatenated payloads of packets of one frame with consecutive sequence numbers, from that of a
  start packet, whose extensions it has, to that of a final packet.\<close>

definition assembled_from :: "packet set \<Rightarrow> depacketizer_frame \<Rightarrow> bool" where
  "assembled_from H f \<longleftrightarrow>
     (\<exists>q \<in> H. hdr_marker (pkt_header q) = Single \<and>
        f = \<lparr>df_payload = pkt_payload q, df_extensions = hdr_extensions (pkt_header q)\<rparr>) \<or>
     (\<exists>first \<in> H. \<exists>final \<in> H. \<exists>qs.
        hdr_marker (pkt_header first) = Start \<and> hdr_marker (pkt_header final) = Final \<and>
        set qs \<subseteq> H \<and>
        (\<forall>q \<in> set (first # final # qs).
           hdr_frame_number (pkt_header q) = hdr_frame_number (pkt_header first)) \<and>
        length qs = Suc (unat (hdr_sequence (pkt_header final) - hdr_sequence (pkt_header first))) \<and>
        (\<forall>i < length qs. hdr_sequence (pkt_header (qs ! i)) =
                          hdr_sequence (pkt_header first) + word_of_nat i) \<and>
        f = \<lparr>df_payload = concat (map pkt_payload qs),
             df_extensions = hdr_extensions (pkt_header first)\<rparr>)"

definition traced :: "packet set \<Rightarrow> u16 \<Rightarrow> partial_frame \<Rightarrow> bool" where
  "traced H n p \<longleftrightarrow>
     (\<exists>q \<in> H. hdr_marker (pkt_header q) = Start \<and> hdr_frame_number (pkt_header q) = n \<and>
        hdr_sequence (pkt_header q) = start_sequence p \<and>
        hdr_extensions (pkt_header q) = pfr_extensions p) \<and>
     (\<forall>(s, b) \<in> set (payloads p). \<exists>q \<in> H. hdr_frame_number (pkt_header q) = n \<and>
        hdr_sequence (pkt_header q) = s \<and> pkt_payload q = b)"

definition all_traced :: "packet set \<Rightarrow> depacketizer \<Rightarrow> bool" where
  "all_traced H d \<longleftrightarrow> (\<forall>(n, p) \<in> set (partials d). traced H n p)"

lemma traced_mono: "traced H n p \<Longrightarrow> H \<subseteq> H' \<Longrightarrow> traced H' n p"
  unfolding traced_def by fast

lemma all_traced_mono: "all_traced H d \<Longrightarrow> H \<subseteq> H' \<Longrightarrow> all_traced H' d"
  unfolding all_traced_def using traced_mono by blast

lemma all_traced_delete:
  "all_traced H d \<Longrightarrow> all_traced H (d\<lparr>partials := im_shift_remove k (partials d)\<rparr>)"
  unfolding all_traced_def by (auto dest: in_set_delete)

lemma all_traced_insert:
  "all_traced H d \<Longrightarrow> traced H n p \<Longrightarrow> all_traced H (d\<lparr>partials := im_insert n p (partials d)\<rparr>)"
  unfolding all_traced_def by (auto dest!: in_set_update)

lemma all_traced_evict_oldest: "all_traced H d \<Longrightarrow> all_traced H (snd (evict_oldest n d))"
  using all_traced_delete [of H d "fst (hd (partials d))"]
  by (auto simp: evict_oldest_def split: list.splits)

lemma all_traced_evict_loop: "all_traced H d \<Longrightarrow> all_traced H (snd (evict_loop k n e d))"
proof (induction k n e d rule: evict_loop.induct)
  case (1 k n e d)
  show ?case
    using "1.IH" "1.prems" all_traced_evict_oldest [OF "1.prems", of n]
    by (subst evict_loop.simps) (auto split: prod.splits option.splits)
qed

lemma traced_insert:
  assumes "traced H (hdr_frame_number (pkt_header q)) p"
  shows "traced (insert q H) (hdr_frame_number (pkt_header q))
    (p\<lparr>payloads := im_insert (hdr_sequence (pkt_header q)) (pkt_payload q) (payloads p)\<rparr>)"
proof -
  have "traced (insert q H) (hdr_frame_number (pkt_header q)) p"
    using assms by (rule traced_mono) blast
  then show ?thesis
    unfolding traced_def by (fastforce dest!: in_set_update)
qed

lemma finalize_assembled:
  assumes tr: "traced H n p" and q: "q \<in> H" "hdr_marker (pkt_header q) = Final"
      "hdr_frame_number (pkt_header q) = n"
    and f: "pr_frame (finalize n p (hdr_sequence (pkt_header q))) = Some f"
  shows "assembled_from H f"
proof -
  let ?e = "hdr_sequence (pkt_header q)"
  obtain r where r: "finalize_loop (payloads p) (start_sequence p) ?e [] = Some r"
    and f': "f = \<lparr>df_payload = r, df_extensions = pfr_extensions p\<rparr>"
    using f by (auto simp: finalize_def Let_def push_result_of_frame_def push_result_of_drop_def
        push_result_default_def split: option.splits)
  then obtain cs where len: "length cs = Suc (unat (?e - start_sequence p))"
    and run: "\<And>i. i < length cs \<Longrightarrow> im_get (payloads p) (start_sequence p + word_of_nat i) = Some (cs ! i)"
    and r': "r = concat cs"
    unfolding finalize_loop_iff holds_run_def by blast
  obtain first where first: "first \<in> H" "hdr_marker (pkt_header first) = Start"
    "hdr_frame_number (pkt_header first) = n" "hdr_sequence (pkt_header first) = start_sequence p"
    "hdr_extensions (pkt_header first) = pfr_extensions p"
    using tr unfolding traced_def by blast
  have "\<exists>g \<in> H. hdr_frame_number (pkt_header g) = n \<and>
      hdr_sequence (pkt_header g) = start_sequence p + word_of_nat i \<and> pkt_payload g = cs ! i"
    if "i < length cs" for i
    using map_of_SomeD [OF run [OF that]] tr unfolding traced_def by fastforce
  then obtain g where g: "\<And>i. i < length cs \<Longrightarrow> g i \<in> H \<and> hdr_frame_number (pkt_header (g i)) = n \<and>
      hdr_sequence (pkt_header (g i)) = start_sequence p + word_of_nat i \<and> pkt_payload (g i) = cs ! i"
    by metis
  define qs where "qs = map g [0..<length cs]"
  have qs: "length qs = length cs" "map pkt_payload qs = cs"
    "\<And>i. i < length qs \<Longrightarrow> hdr_sequence (pkt_header (qs ! i)) = start_sequence p + word_of_nat i"
    "\<And>x. x \<in> set qs \<Longrightarrow> x \<in> H \<and> hdr_frame_number (pkt_header x) = n"
    using g by (auto simp: qs_def intro: nth_equalityI)
  from first q len f' r' qs show ?thesis
    unfolding assembled_from_def
    by (intro disjI2 bexI [of _ first] bexI [of _ q] exI [of _ qs]) auto
qed

lemma push_traced:
  assumes "all_traced H d"
  shows "all_traced (insert q H) (snd (depacketizer_push m q d)) \<and>
    (\<forall>f. pr_frame (fst (depacketizer_push m q d)) = Some f \<longrightarrow> assembled_from (insert q H) f)"
proof (cases "hdr_marker (pkt_header q) \<in> {Inter, Final}")
  case False
  have d: "all_traced (insert q H) d"
    using assms by (rule all_traced_mono) blast
  show ?thesis
    using False all_traced_evict_oldest [OF d] all_traced_evict_loop [OF d]
    by (cases "hdr_marker (pkt_header q)")
      (auto simp: depacketizer_push_def frame_from_single_def begin_partial_def Let_def
        push_result_default_def assembled_from_def traced_def d
        split: prod.splits intro!: all_traced_insert, (metis snd_conv)+)
next
  case True
  let ?n = "hdr_frame_number (pkt_header q)"
  have d: "all_traced (insert q H) d"
    using assms by (rule all_traced_mono) blast
  have push: "depacketizer_push m q d = push_to_partial q d"
    using True by (auto simp: depacketizer_push_def)
  show ?thesis
  proof (cases "im_get (partials d) ?n")
    case None
    with d show ?thesis
      by (simp add: push push_to_partial_def Let_def push_result_of_drop_def push_result_default_def)
  next
    case (Some p)
    let ?p = "p\<lparr>payloads := im_insert (hdr_sequence (pkt_header q)) (pkt_payload q) (payloads p)\<rparr>"
    have p: "traced (insert q H) ?n ?p"
      using map_of_SomeD [OF Some] assms by (intro traced_insert) (auto simp: all_traced_def)
    note ins = all_traced_insert [OF d p]
    show ?thesis
      using Some ins all_traced_delete [OF d, of ?n] all_traced_delete [OF ins, of ?n]
        finalize_assembled [OF p]
      by (auto simp: push push_to_partial_def Let_def push_result_of_drop_def push_result_default_def)
  qed
qed

lemma length_fst_push_all [simp]: "length (fst (push_all m ps d)) = length ps"
  by (induction ps arbitrary: m d) (simp_all add: Let_def split: prod.splits, metis fst_conv)

lemma push_all_assembled:
  assumes "all_traced H d" and "i < length ps"
    and "pr_frame (fst (push_all m ps d) ! i) = Some f"
  shows "assembled_from (H \<union> set (take (Suc i) ps)) f"
  using assms
proof (induction ps arbitrary: m d H i)
  case (Cons q ps)
  obtain r d' where push: "depacketizer_push (m 0) q d = (r, d')" by fastforce
  obtain rs d'' where rest: "push_all (\<lambda>i. m (Suc i)) ps d' = (rs, d'')" by fastforce
  note step = push_traced [OF Cons.prems(1), of q "m 0", unfolded push, simplified]
  show ?case
  proof (cases i)
    case 0
    with step Cons.prems(3) push rest show ?thesis by simp
  next
    case (Suc j)
    with Cons.IH [of "insert q H" d' j "\<lambda>i. m (Suc i)"] step Cons.prems push rest show ?thesis by simp
  qed
qed simp

text \<open>C2. No fabricated or mixed data: every frame a depacketizer delivers, after any sequence of
  pushes, is either the payload of one received \<open>Single\<close> packet, or the concatenation of received
  payloads of one frame number with consecutive sequence numbers from a received start packet to a
  received final packet, with the start packet's extensions.\<close>

theorem delivered_from_received:
  assumes "i < length ps"
    and "pr_frame (fst (push_all m ps depacketizer_new) ! i) = Some f"
  shows "assembled_from (set (take (Suc i) ps)) f"
  using push_all_assembled [of "{}" depacketizer_new i ps m f] assms
  by (simp add: all_traced_def depacketizer_new_def)

theorem delivered_from_received_witness:
  "assembled_from (set sample_packets)
     \<lparr>df_payload = [1, 2, 3, 4, 5, 6, 7], df_extensions = extensions_default\<rparr>"
proof -
  have "pr_frame (fst (push_all (\<lambda>_. 1) sample_packets depacketizer_new) ! 2) =
      Some \<lparr>df_payload = [1, 2, 3, 4, 5, 6, 7], df_extensions = extensions_default\<rparr>"
    by (simp add: sample_packets_def depacketizer_push_def begin_partial_def push_to_partial_def
        evict_loop.simps evict_oldest_def depacketizer_new_def MAX_BUFFER_PACKETS_def finalize_def
        finalize_loop.simps push_result_of_frame_def push_result_default_def)
  from delivered_from_received [OF _ this] show ?thesis
    by (simp add: sample_packets_def)
qed

section \<open>Round trip with the packetizer\<close>

abbreviation entry :: "packet \<Rightarrow> u16 \<times> bytes" where
  "entry q \<equiv> (hdr_sequence (pkt_header q), pkt_payload q)"

lemma push_all_append:
  "push_all m (xs @ ys) d =
     (fst (push_all m xs d) @ fst (push_all (\<lambda>i. m (length xs + i)) ys (snd (push_all m xs d))),
      snd (push_all (\<lambda>i. m (length xs + i)) ys (snd (push_all m xs d))))"
  by (induction xs arbitrary: m d) (simp_all add: Let_def split_beta)

lemma push_start:
  assumes "hdr_marker (pkt_header q) = Start"
  shows "im_get (partials (snd (depacketizer_push m q d))) (hdr_frame_number (pkt_header q)) =
      Some \<lparr>start_sequence = hdr_sequence (pkt_header q), pfr_extensions = hdr_extensions (pkt_header q),
            payloads = [entry q]\<rparr> \<and>
    pr_frame (fst (depacketizer_push m q d)) = None"
  using assms
  by (auto simp: depacketizer_push_def begin_partial_def Let_def update_conv' push_result_default_def
      split: prod.splits)

lemma push_inter:
  assumes "im_get (partials d) n = Some p"
    and "hdr_marker (pkt_header q) = Inter" "hdr_frame_number (pkt_header q) = n"
    and "hdr_sequence (pkt_header q) \<notin> fst ` set (payloads p)"
    and "length (payloads p) < MAX_BUFFER_PACKETS"
  shows "im_get (partials (snd (depacketizer_push m q d))) n =
      Some (p\<lparr>payloads := payloads p @ [entry q]\<rparr>) \<and>
    pr_frame (fst (depacketizer_push m q d)) = None"
  using assms
  by (simp add: depacketizer_push_def push_to_partial_def Let_def update_conv' im_insert_new
      push_result_default_def)

lemma push_inters:
  assumes "im_get (partials d) n = Some p"
    and "\<forall>q \<in> set xs. hdr_marker (pkt_header q) = Inter \<and> hdr_frame_number (pkt_header q) = n"
    and "distinct (map fst (payloads p @ map entry xs))"
    and "length (payloads p) + length xs \<le> MAX_BUFFER_PACKETS"
  shows "im_get (partials (snd (push_all m xs d))) n = Some (p\<lparr>payloads := payloads p @ map entry xs\<rparr>) \<and>
    map pr_frame (fst (push_all m xs d)) = replicate (length xs) None"
  using assms
proof (induction xs arbitrary: m d p)
  case (Cons q xs)
  note step = push_inter [OF Cons.prems(1), of q "m 0"]
  from Cons.IH [of "snd (depacketizer_push (m 0) q d)" "p\<lparr>payloads := payloads p @ [entry q]\<rparr>" "\<lambda>i. m (Suc i)"]
    step Cons.prems show ?case
    by (simp add: Let_def split_beta image_iff)
qed simp

lemma push_final:
  assumes "im_get (partials d) n = Some p"
    and "hdr_marker (pkt_header q) = Final" "hdr_frame_number (pkt_header q) = n"
    and "hdr_sequence (pkt_header q) \<notin> fst ` set (payloads p)"
    and "length (payloads p) < MAX_BUFFER_PACKETS"
  shows "fst (depacketizer_push m q d) =
      finalize n (p\<lparr>payloads := payloads p @ [entry q]\<rparr>) (hdr_sequence (pkt_header q)) \<and>
    im_get (partials (snd (depacketizer_push m q d))) n = None"
  using assms
  by (simp add: depacketizer_push_def push_to_partial_def Let_def im_insert_new delete_conv')

lemma word_of_nat_inj_u16:
  assumes "word_of_nat i = (word_of_nat j :: u16)" "i < 65536" "j < 65536"
  shows "i = j"
proof -
  have "unat (word_of_nat i :: u16) = unat (word_of_nat j :: u16)"
    using assms(1) by simp
  with assms(2,3) show ?thesis
    by (simp add: unat_of_nat take_bit_nat_eq_self)
qed

lemma distinct_seqs_frame_packets:
  assumes "length cs \<le> 65536"
  shows "distinct (map (fst \<circ> entry) (frame_packets h s n cs))"
  using assms
  by (auto simp: distinct_conv_nth nth_frame_packets dest: word_of_nat_inj_u16)

lemma holds_run_perm:
  assumes "mset xs = mset (frame_packets h s n cs)" and "length cs \<le> 65536"
  shows "holds_run (map entry xs) s cs"
proof -
  let ?ps = "frame_packets h s n cs"
  have m: "mset (map (fst \<circ> entry) xs) = mset (map (fst \<circ> entry) ?ps)"
    using assms(1) by simp
  have dist: "distinct (map fst (map entry xs))"
    using distinct_seqs_frame_packets [OF assms(2), of h s n] mset_eq_imp_distinct_iff [OF m]
    by (simp add: comp_def)
  have "(s + word_of_nat i, cs ! i) \<in> set (map entry xs)" if "i < length cs" for i
  proof -
    have "?ps ! i \<in> set ?ps"
      using that by simp
    then have "?ps ! i \<in> set xs"
      using mset_eq_setD [OF assms(1)] by simp
    then have "entry (?ps ! i) \<in> set (map entry xs)"
      by (simp add: image_iff) blast
    then show ?thesis
      using that by (simp add: nth_frame_packets)
  qed
  with dist show ?thesis
    by (simp add: holds_run_def map_of_eq_Some_iff)
qed

lemma unat_run_length:
  "0 < n \<Longrightarrow> n \<le> 65536 \<Longrightarrow> Suc (unat (s + word_of_nat (n - 1) - (s :: u16))) = n"
  by (cases n) (simp_all add: unat_of_nat take_bit_nat_eq_self del: of_nat_Suc)

lemma frame_packets_ends:
  assumes "2 \<le> length cs"
  shows "hd (frame_packets h s (length cs) cs) =
      \<lparr>pkt_header = h\<lparr>hdr_marker := Start, hdr_sequence := s\<rparr>, pkt_payload = hd cs\<rparr>"
    "last (frame_packets h s (length cs) cs) =
      \<lparr>pkt_header = h\<lparr>hdr_marker := Final, hdr_sequence := s + word_of_nat (length cs - 1)\<rparr>,
       pkt_payload = last cs\<rparr>"
proof -
  have "length (frame_packets h s (length cs) cs) \<noteq> 0" "length cs \<noteq> 0"
    using assms by (simp_all only: length_frame_packets)
  then have ne: "frame_packets h s (length cs) cs \<noteq> []" "cs \<noteq> []"
    by (metis length_0_conv)+
  show "hd (frame_packets h s (length cs) cs) =
      \<lparr>pkt_header = h\<lparr>hdr_marker := Start, hdr_sequence := s\<rparr>, pkt_payload = hd cs\<rparr>"
    using assms by (simp add: ne hd_conv_nth nth_frame_packets frame_marker_at_def)
  show "last (frame_packets h s (length cs) cs) =
      \<lparr>pkt_header = h\<lparr>hdr_marker := Final, hdr_sequence := s + word_of_nat (length cs - 1)\<rparr>,
       pkt_payload = last cs\<rparr>"
    using assms by (simp add: ne last_conv_nth nth_frame_packets frame_marker_at_def del: of_nat_diff)
qed

lemma frame_packets_middle:
  assumes "q \<in> set (butlast (tl (frame_packets h s (length cs) cs)))"
  shows "hdr_marker (pkt_header q) = Inter \<and> hdr_frame_number (pkt_header q) = hdr_frame_number h"
proof -
  from assms obtain i where "i < length cs - Suc (Suc 0)" "q = frame_packets h s (length cs) cs ! Suc i"
    by (auto simp: in_set_conv_nth nth_butlast nth_tl)
  then show ?thesis
    by (auto simp: nth_frame_packets frame_marker_at_def)
qed

lemma hd_middle_last: "2 \<le> length xs \<Longrightarrow> hd xs # butlast (tl xs) @ [last xs] = xs"
  by (cases xs; cases "tl xs" rule: rev_cases) auto

lemma push_permuted_frame:
  assumes len: "2 \<le> length cs" "length cs \<le> 128"
    and first: "hdr_marker (pkt_header first) = Start" "hdr_frame_number (pkt_header first) = n"
      "hdr_sequence (pkt_header first) = s" "hdr_extensions (pkt_header first) = e"
    and mid: "\<forall>q \<in> set mid. hdr_marker (pkt_header q) = Inter \<and> hdr_frame_number (pkt_header q) = n"
      "Suc (Suc (length mid)) = length cs"
    and final: "hdr_marker (pkt_header final) = Final" "hdr_frame_number (pkt_header final) = n"
      "hdr_sequence (pkt_header final) = s + word_of_nat (length cs - 1)"
    and dist: "distinct (map fst (map entry (first # mid @ [final])))"
    and run: "holds_run (map entry (first # mid @ [final])) s cs"
  shows "map pr_frame (fst (push_all m (first # mid @ [final]) d)) =
      replicate (length cs - 1) None @ [Some \<lparr>df_payload = concat cs, df_extensions = e\<rparr>] \<and>
    im_get (partials (snd (push_all m (first # mid @ [final]) d))) n = None"
proof -
  define d1 where "d1 = snd (depacketizer_push (m 0) first d)"
  define p1 where "p1 = \<lparr>start_sequence = s, pfr_extensions = e, payloads = [entry first]\<rparr>"
  define d2 where "d2 = snd (push_all (\<lambda>i. m (Suc i)) mid d1)"
  define p2 where "p2 = p1\<lparr>payloads := payloads p1 @ map entry mid\<rparr>"
  have 1: "im_get (partials d1) n = Some p1" "pr_frame (fst (depacketizer_push (m 0) first d)) = None"
    using push_start [OF first(1), of "m 0" d] first by (simp_all add: d1_def p1_def)
  have 2: "im_get (partials d2) n = Some p2 \<and>
      map pr_frame (fst (push_all (\<lambda>i. m (Suc i)) mid d1)) = replicate (length mid) None"
    unfolding p2_def d2_def
    using dist mid(2) len
    by (intro push_inters [OF 1(1) mid(1)]) (auto simp: p1_def MAX_BUFFER_PACKETS_def)
  have 3: "fst (depacketizer_push (m (Suc (length mid))) final d2) =
      finalize n (p2\<lparr>payloads := payloads p2 @ [entry final]\<rparr>) (hdr_sequence (pkt_header final)) \<and>
    im_get (partials (snd (depacketizer_push (m (Suc (length mid))) final d2))) n = None"
    using 2 dist mid(2) len
    by (intro push_final final) (auto simp: p2_def p1_def MAX_BUFFER_PACKETS_def)
  have "finalize_loop (map entry (first # mid @ [final])) s (hdr_sequence (pkt_header final)) [] =
      Some ([] @ concat cs)"
    using len by (intro finalize_loop_complete [OF run]) (subst final(3), subst unat_run_length, auto)
  then have "pr_frame (fst (depacketizer_push (m (Suc (length mid))) final d2)) =
      Some \<lparr>df_payload = concat cs, df_extensions = e\<rparr>"
    using 3 by (simp add: finalize_def p2_def p1_def push_result_of_frame_def push_result_default_def)
  with 1(2) 2 3 mid(2) show ?thesis
    by (simp add: push_all_append Let_def split_beta d1_def [symmetric] d2_def [symmetric]
        flip: mid(2) replicate_append_same)
qed

lemma reassemble_permuted:
  assumes ps: "ps = frame_packets h s (length cs) cs" and len: "2 \<le> length cs" "length cs \<le> 128"
    and qs: "mset mid = mset (butlast (tl ps))"
  shows "map pr_frame (fst (push_all m (hd ps # mid @ [last ps]) d)) =
      replicate (length cs - 1) None @
        [Some \<lparr>df_payload = concat cs, df_extensions = hdr_extensions h\<rparr>] \<and>
    im_get (partials (snd (push_all m (hd ps # mid @ [last ps]) d))) (hdr_frame_number h) = None"
proof -
  let ?all = "hd ps # mid @ [last ps]"
  have "mset ?all = mset (hd ps # butlast (tl ps) @ [last ps])"
    using qs by simp
  also have "\<dots> = mset ps"
    using len ps by (subst hd_middle_last) simp_all
  finally have all: "mset ?all = mset (frame_packets h s (length cs) cs)"
    by (simp only: ps)
  then have m: "mset (map (fst \<circ> entry) ?all) = mset (map (fst \<circ> entry) (frame_packets h s (length cs) cs))"
    by (simp only: mset_map)
  have dist: "distinct (map fst (map entry ?all))"
    using distinct_seqs_frame_packets [of cs h s "length cs"] len
    unfolding mset_eq_imp_distinct_iff [OF m, symmetric] by (simp add: comp_def)
  have "Suc (Suc (length mid)) = length cs"
    using mset_eq_length [OF qs] len by (simp add: ps)
  moreover have "holds_run (map entry ?all) s cs"
    using holds_run_perm [OF all] len by simp
  moreover have "\<forall>q \<in> set mid. hdr_marker (pkt_header q) = Inter \<and> hdr_frame_number (pkt_header q) = hdr_frame_number h"
    using mset_eq_setD [OF qs] frame_packets_middle ps by blast
  ultimately show ?thesis
    using frame_packets_ends [OF len(1), of h s] dist
    by (intro push_permuted_frame len) (simp_all add: ps)
qed
text \<open>Frames survive the packetizer and the depacketizer: for a non-empty frame cut into at most
  128 packets, if the first and the last packet arrive first and last and the others arrive in any
  order between them, then a depacketizer in any state delivers the original payload and extensions
  with the last packet, nothing before it, and keeps no partial frame behind.\<close>

lemma packetize_reassemble:
  assumes "packetize now frame pz = (Some (Inr ps), pz')"
    and "pf_payload frame \<noteq> []" and "length ps \<le> 128"
    and "mset qs = mset ps" and "hd qs = hd ps" and "last qs = last ps"
  shows "map pr_frame (fst (push_all m qs d)) =
      replicate (length ps - 1) None @
        [Some \<lparr>df_payload = pf_payload frame, df_extensions = pf_extensions frame\<rparr>] \<and>
    (1 < length ps \<longrightarrow> im_get (partials (snd (push_all m qs d))) (pz_frame_number pz) = None)"
proof -
  from assms(1) obtain h cs where ps: "ps = frame_packets h (pz_sequence pz) (length cs) cs"
    and h: "h = frame_header (fst (clock_at 90000 now (pz_clock pz))) frame pz"
    and cs: "cs = chunk_iter_collect (pz_mtu_size pz - header_serialized_len h) (pf_payload frame)"
    and fits: "header_serialized_len h < pz_mtu_size pz"
    by (rule packetize_OkE)
  have hd: "hdr_extensions h = pf_extensions frame" "hdr_frame_number h = pz_frame_number pz"
    by (simp_all add: h frame_header_def)
  have payload: "concat cs = pf_payload frame"
    using mtu_chunks.concat_chunks [of "pz_mtu_size pz - header_serialized_len h"] fits cs by simp
  have lens: "length qs = length cs" "length ps = length cs"
    using mset_eq_length [OF assms(4)] ps by simp_all
  consider (one) c where "cs = [c]" | (more) "2 \<le> length cs"
    using payload assms(2) by (cases cs; cases "tl cs") auto
  then show ?thesis
  proof cases
    case one
    then have "qs = ps"
      using assms(4) lens by (simp add: ps length_Suc_conv) (auto simp: frame_packets_def)
    then show ?thesis
      using one payload hd
      by (simp add: ps frame_packets_def frame_marker_at_def depacketizer_push_def
          frame_from_single_def Let_def split_beta)
  next
    case more
    have split: "hd ps # butlast (tl qs) @ [last ps] = qs"
      using hd_middle_last [of qs] more lens assms(5,6) by simp
    have "mset (hd ps # butlast (tl qs) @ [last ps]) = mset (hd ps # butlast (tl ps) @ [last ps])"
      using split hd_middle_last [of ps] more lens assms(4) by simp
    then have "mset (butlast (tl qs)) = mset (butlast (tl ps))"
      by simp
    from reassemble_permuted [OF ps more _ this, of m d] assms(3) show ?thesis
      unfolding split by (simp add: lens payload hd)
  qed
qed

lemma push_unknown:
  assumes "\<forall>q \<in> set xs. hdr_marker (pkt_header q) \<in> {Inter, Final} \<and> hdr_frame_number (pkt_header q) = n"
    and "im_get (partials d) n = None"
  shows "map pr_frame (fst (push_all m xs d)) = replicate (length xs) None"
  using assms
proof (induction xs arbitrary: m)
  case (Cons q xs)
  then have "depacketizer_push (m 0) q d =
      (push_result_of_drop \<lparr>drop_frame_number = n, drop_reason = UnknownFrame\<rparr>, d)"
    by (auto simp: depacketizer_push_def push_to_partial_def)
  with Cons show ?case
    by (simp add: Let_def split_beta push_result_of_drop_def push_result_default_def)
qed simp

lemma frame_packets_markers:
  assumes "i < length cs" "2 \<le> length cs"
  shows "hdr_marker (pkt_header (frame_packets h s (length cs) cs ! i)) =
      (if i = 0 then Start else if Suc i = length cs then Final else Inter)"
    "hdr_frame_number (pkt_header (frame_packets h s (length cs) cs ! i)) = hdr_frame_number h"
  using assms by (auto simp: nth_frame_packets frame_marker_at_def)

lemma push_full:
  assumes "im_get (partials d) n = Some p" and "length (payloads p) = MAX_BUFFER_PACKETS"
    and "hdr_marker (pkt_header q) \<in> {Inter, Final}" "hdr_frame_number (pkt_header q) = n"
  shows "pr_frame (fst (depacketizer_push m q d)) = None \<and>
    im_get (partials (snd (depacketizer_push m q d))) n = None"
  using assms
  by (auto simp: depacketizer_push_def push_to_partial_def Let_def push_result_of_drop_def
      push_result_default_def delete_conv')

lemma push_overfull_frame:
  assumes first: "hdr_marker (pkt_header first) = Start" "hdr_frame_number (pkt_header first) = n"
    and mid: "\<forall>q \<in> set mid. hdr_marker (pkt_header q) = Inter \<and> hdr_frame_number (pkt_header q) = n"
      "Suc (length mid) = MAX_BUFFER_PACKETS"
    and dist: "distinct (map fst (map entry (first # mid)))"
    and rest: "\<forall>q \<in> set rest. hdr_marker (pkt_header q) \<in> {Inter, Final} \<and> hdr_frame_number (pkt_header q) = n"
  shows "map pr_frame (fst (push_all m (first # mid @ rest) d)) =
    replicate (length (first # mid @ rest)) None"
proof -
  define d1 where "d1 = snd (depacketizer_push (m 0) first d)"
  define d2 where "d2 = snd (push_all (\<lambda>i. m (Suc i)) mid d1)"
  obtain p1 where 1: "im_get (partials d1) n = Some p1" "payloads p1 = [entry first]"
    "pr_frame (fst (depacketizer_push (m 0) first d)) = None"
    using push_start [OF first(1), of "m 0" d] first by (simp add: d1_def)
  have 2: "im_get (partials d2) n = Some (p1\<lparr>payloads := payloads p1 @ map entry mid\<rparr>) \<and>
      map pr_frame (fst (push_all (\<lambda>i. m (Suc i)) mid d1)) = replicate (length mid) None"
    unfolding d2_def using dist mid(2) by (intro push_inters [OF 1(1) mid(1)]) (simp_all add: 1(2))
  have "map pr_frame (fst (push_all k rest d2)) = replicate (length rest) None" for k
  proof (cases rest)
    case (Cons q qs)
    have "pr_frame (fst (depacketizer_push (k 0) q d2)) = None \<and>
        im_get (partials (snd (depacketizer_push (k 0) q d2))) n = None"
      using 2 mid(2) rest Cons by (intro push_full) (auto simp: 1(2))
    with push_unknown [of qs n] rest Cons show ?thesis
      by (simp add: Let_def split_beta)
  qed simp
  with 1 2 show ?thesis
    by (simp add: push_all_append Let_def split_beta d1_def [symmetric] d2_def [symmetric] replicate_add)
qed

text \<open>C7. The packetizer puts no limit on the packets of a frame, but a frame of more than 128
  packets is never delivered: even if all its packets arrive in order, the depacketizer runs into
  its buffer limit, drops the partial frame and then does not know the frame any more.\<close>

theorem oversized_frame_never_delivered:
  assumes "packetize now frame pz = (Some (Inr ps), pz')" and "128 < length ps"
  shows "map pr_frame (fst (push_all m ps d)) = replicate (length ps) None"
proof -
  from assms(1) obtain h cs where ps: "ps = frame_packets h (pz_sequence pz) (length cs) cs"
    by (rule packetize_OkE)
  then have len: "128 < length cs" using assms(2) by simp
  have split: "hd ps # take 127 (tl ps) @ drop 127 (tl ps) = ps"
    using assms(2) by (cases ps) auto
  have nth: "(hd ps # take 127 (tl ps)) ! i = ps ! i" if "i < 128" for i
    using that assms(2) by (cases i; cases ps) auto
  have seq: "hdr_sequence (pkt_header (ps ! i)) = pz_sequence pz + word_of_nat i" if "i < 128" for i
    using that len by (simp add: ps nth_frame_packets)
  have "distinct (map fst (map entry (hd ps # take 127 (tl ps))))"
    unfolding distinct_conv_nth map_map
    using assms(2) len
    by (auto simp: nth seq simp del: list.map nth_Cons_Suc dest: word_of_nat_inj_u16)
  moreover have "\<forall>q \<in> set (take 127 (tl ps)).
      hdr_marker (pkt_header q) = Inter \<and> hdr_frame_number (pkt_header q) = hdr_frame_number h"
    using len by (auto simp: in_set_conv_nth nth_tl ps frame_packets_markers)
  moreover have "\<forall>q \<in> set (drop 127 (tl ps)).
      hdr_marker (pkt_header q) \<in> {Inter, Final} \<and> hdr_frame_number (pkt_header q) = hdr_frame_number h"
    using len by (auto simp: in_set_conv_nth nth_tl ps frame_packets_markers)
  moreover have "hdr_marker (pkt_header (hd ps)) = Start" "hdr_frame_number (pkt_header (hd ps)) = hdr_frame_number h"
    using frame_packets_ends [of cs h "pz_sequence pz"] len by (simp_all add: ps)
  moreover have "Suc (length (take 127 (tl ps))) = MAX_BUFFER_PACKETS"
    using assms(2) by (simp add: MAX_BUFFER_PACKETS_def)
  ultimately have "map pr_frame (fst (push_all m (hd ps # take 127 (tl ps) @ drop 127 (tl ps)) d)) =
      replicate (length (hd ps # take 127 (tl ps) @ drop 127 (tl ps))) None"
    by (intro push_overfull_frame)
  then show ?thesis
    unfolding split .
qed

theorem oversized_frame_never_delivered_witness:
  "\<exists>ps pz'. packetize 0 (sample_frame\<lparr>pf_payload := replicate 129 7\<rparr>) (sample_packetizer\<lparr>pz_mtu_size := 13\<rparr>) =
       (Some (Inr ps), pz') \<and> length ps = 129 \<and>
     map pr_frame (fst (push_all (\<lambda>_. 1) ps depacketizer_new)) = replicate 129 None"
proof -
  have "header_serialized_len (frame_header t (sample_frame\<lparr>pf_payload := replicate 129 7\<rparr>)
      (sample_packetizer\<lparr>pz_mtu_size := 13\<rparr>)) = 12" for t
    by (simp add: header_serialized_len_def metrics_serialized_len_def header_metrics_of_def Let_def
        frame_header_def sample_frame_def extensions_default_def extensions_serialized_len_def)
  then obtain ps pz' where ps: "packetize 0 (sample_frame\<lparr>pf_payload := replicate 129 7\<rparr>)
      (sample_packetizer\<lparr>pz_mtu_size := 13\<rparr>) = (Some (Inr ps), pz')" "length ps = 129"
    by (simp add: packetize_eq length_chunk_iter_collect div_ceil_def)
  with oversized_frame_never_delivered [OF ps(1), of "\<lambda>_. 1" depacketizer_new] show ?thesis
    by auto
qed

end
