(* ===== verification/Pipelines.thy ===== *)
theory Pipelines
  imports Depacketizer
begin

text \<open>
  Frames, end-to-end encryption and the two per-track pipelines:
  \<^verbatim>\<open>livekit-datatrack/src/frame.rs\<close>, \<^verbatim>\<open>e2ee.rs\<close>, \<^verbatim>\<open>local/pipeline.rs\<close> and
  \<^verbatim>\<open>remote/pipeline.rs\<close>, with the round trip of a frame from one to the other over the wire format.
  The encryption and decryption providers are parameters.
\<close>

section \<open>Frames\<close>

record data_track_frame =
  dtf_payload :: bytes
  dtf_user_timestamp :: "u64 option"

definition frame_new :: "bytes \<Rightarrow> data_track_frame" where
  "frame_new payload = \<lparr>dtf_payload = payload, dtf_user_timestamp = None\<rparr>"

definition with_user_timestamp :: "u64 \<Rightarrow> data_track_frame \<Rightarrow> data_track_frame" where
  "with_user_timestamp value frame = frame\<lparr>dtf_user_timestamp := Some value\<rparr>"

text \<open>The system time is in nanoseconds relative to the Unix epoch, so it can be negative.\<close>

definition with_user_timestamp_now :: "int \<Rightarrow> data_track_frame \<Rightarrow> data_track_frame" where
  "with_user_timestamp_now now frame =
     frame\<lparr>dtf_user_timestamp :=
       (if 0 \<le> now then Some (word_of_int (now div 1000000)) else None)\<rparr>"

definition duration_since_timestamp :: "int \<Rightarrow> data_track_frame \<Rightarrow> nat option" where
  "duration_since_timestamp now frame = do {
     ts \<leftarrow> dtf_user_timestamp frame;
     let ts_time = uint ts * 1000000;
     if ts_time \<le> now then Some (nat (now - ts_time)) else None }"

section \<open>End-to-end encryption\<close>

record encrypted_payload =
  ep_payload :: bytes
  ep_iv :: bytes
  ep_key_index :: u8

datatype encryption_error = EncryptionFailed
datatype decryption_error = DecryptionFailed

type_synonym encryption_provider = "bytes \<Rightarrow> encryption_error + encrypted_payload"
type_synonym decryption_provider = "encrypted_payload \<Rightarrow> string \<Rightarrow> decryption_error + bytes"

section \<open>The sending pipeline\<close>

record local_pipeline =
  lp_encryption_provider :: "encryption_provider option"
  lp_packetizer :: packetizer

datatype pipeline_error = PipelinePacketizer packetizer_error | PipelineEncryption encryption_error

definition TRANSPORT_MTU :: nat where "TRANSPORT_MTU = 16000"

definition local_pipeline_new ::
    "u32 \<Rightarrow> nat \<Rightarrow> handle \<Rightarrow> encryption_provider option \<Rightarrow> local_pipeline" where
  "local_pipeline_new base now pub_handle provider =
     \<lparr>lp_encryption_provider = provider,
      lp_packetizer = packetizer_new base now pub_handle TRANSPORT_MTU\<rparr>"

definition packetizer_frame_of :: "data_track_frame \<Rightarrow> packetizer_frame" where
  "packetizer_frame_of frame =
     \<lparr>pf_payload = dtf_payload frame,
      pf_extensions = \<lparr>ext_user_timestamp = dtf_user_timestamp frame, ext_e2ee = None\<rparr>\<rparr>"

definition encrypt_if_needed ::
    "encryption_provider option \<Rightarrow> packetizer_frame \<Rightarrow> encryption_error + packetizer_frame" where
  "encrypt_if_needed provider frame =
     (case provider of
        None \<Rightarrow> Inr frame
      | Some encrypt \<Rightarrow>
          (case encrypt (pf_payload frame) of
             Inl e \<Rightarrow> Inl e
           | Inr encrypted \<Rightarrow>
               Inr (frame\<lparr>pf_payload := ep_payload encrypted,
                          pf_extensions := (pf_extensions frame)\<lparr>ext_e2ee :=
                            Some \<lparr>key_index = ep_key_index encrypted, iv = ep_iv encrypted\<rparr>\<rparr>\<rparr>)))"

definition process_frame ::
    "nat \<Rightarrow> data_track_frame \<Rightarrow> local_pipeline \<Rightarrow> (pipeline_error + packet list) option \<times> local_pipeline" where
  "process_frame now frame lp =
     (case encrypt_if_needed (lp_encryption_provider lp) (packetizer_frame_of frame) of
        Inl e \<Rightarrow> (Some (Inl (PipelineEncryption e)), lp)
      | Inr frame \<Rightarrow>
          let (r, pz) = packetize now frame (lp_packetizer lp);
              lp = lp\<lparr>lp_packetizer := pz\<rparr>
          in (case r of
                None \<Rightarrow> None
              | Some (Inl e) \<Rightarrow> Some (Inl (PipelinePacketizer e))
              | Some (Inr packets) \<Rightarrow> Some (Inr packets), lp))"

section \<open>The receiving pipeline\<close>

text \<open>The maximum number of partial frames is a shared cell that the application may change at any
  time; the value read when a packet is processed is an argument.\<close>

record remote_pipeline =
  rp_publisher_identity :: string
  rp_e2ee_provider :: "decryption_provider option"
  rp_depacketizer :: depacketizer

definition remote_pipeline_new :: "string \<Rightarrow> decryption_provider option \<Rightarrow> remote_pipeline" where
  "remote_pipeline_new publisher_identity provider =
     \<lparr>rp_publisher_identity = publisher_identity, rp_e2ee_provider = provider,
      rp_depacketizer = depacketizer_new\<rparr>"

definition pipeline_depacketize ::
    "nat \<Rightarrow> packet \<Rightarrow> remote_pipeline \<Rightarrow> depacketizer_frame option \<times> remote_pipeline" where
  "pipeline_depacketize max_partial_frames packet rp =
     (let (result, d) = depacketizer_push max_partial_frames packet (rp_depacketizer rp)
      in (pr_frame result, rp\<lparr>rp_depacketizer := d\<rparr>))"

definition decrypt_if_needed :: "remote_pipeline \<Rightarrow> depacketizer_frame \<Rightarrow> depacketizer_frame option" where
  "decrypt_if_needed rp frame =
     (case rp_e2ee_provider rp of
        None \<Rightarrow> Some frame
      | Some decrypt \<Rightarrow>
          (case ext_e2ee (df_extensions frame) of
             None \<Rightarrow> None
           | Some e2ee \<Rightarrow>
               (case decrypt \<lparr>ep_payload = df_payload frame, ep_iv = iv e2ee, ep_key_index = key_index e2ee\<rparr>
                       (rp_publisher_identity rp) of
                  Inl _ \<Rightarrow> None
                | Inr decrypted \<Rightarrow> Some (frame\<lparr>df_payload := decrypted\<rparr>))))"

definition data_track_frame_of :: "depacketizer_frame \<Rightarrow> data_track_frame" where
  "data_track_frame_of frame =
     \<lparr>dtf_payload = df_payload frame,
      dtf_user_timestamp = ext_user_timestamp (df_extensions frame)\<rparr>"

definition process_packet ::
    "nat \<Rightarrow> packet \<Rightarrow> remote_pipeline \<Rightarrow> data_track_frame option \<times> remote_pipeline" where
  "process_packet max_partial_frames packet rp =
     (let (frame, rp) = pipeline_depacketize max_partial_frames packet rp
      in (do { frame \<leftarrow> frame; frame \<leftarrow> decrypt_if_needed rp frame; Some (data_track_frame_of frame) }, rp))"

text \<open>A receiver fed with raw packets, dropping those that do not decode; \<open>m i\<close> is the option in force at
  the packet with number \<open>i\<close>.\<close>

fun receive_all ::
    "(nat \<Rightarrow> nat) \<Rightarrow> bytes list \<Rightarrow> remote_pipeline \<Rightarrow> data_track_frame option list \<times> remote_pipeline" where
  "receive_all m [] rp = ([], rp)"
| "receive_all m (raw # raws) rp =
     (case packet_deserialize raw of
        Inl _ \<Rightarrow> let (fs, rp) = receive_all (\<lambda>i. m (Suc i)) raws rp in (None # fs, rp)
      | Inr packet \<Rightarrow>
          let (f, rp) = process_packet (m 0) packet rp; (fs, rp) = receive_all (\<lambda>i. m (Suc i)) raws rp
          in (f # fs, rp))"

section \<open>From the publisher to the subscriber\<close>

text \<open>What the encryption provider's type says (an initialisation vector has twelve bytes), and what
  its contract with the subscriber's provider is: the subscriber, naming the right publisher,
  decrypts what the publisher encrypted.\<close>

definition provider_typed :: "encryption_provider option \<Rightarrow> bool" where
  "provider_typed provider \<longleftrightarrow>
     (\<forall>f x e. provider = Some f \<and> f x = Inr e \<longrightarrow> length (ep_iv e) = 12)"

definition providers_agree ::
    "encryption_provider option \<Rightarrow> decryption_provider option \<Rightarrow> string \<Rightarrow> bool" where
  "providers_agree enc dec identity \<longleftrightarrow>
     (case (enc, dec) of
        (None, None) \<Rightarrow> True
      | (Some f, Some g) \<Rightarrow> (\<forall>x e. f x = Inr e \<longrightarrow> g e identity = Inr x)
      | _ \<Rightarrow> False)"

lemma encrypted_payload_eta [simp]:
  "\<lparr>ep_payload = ep_payload e, ep_iv = ep_iv e, ep_key_index = ep_key_index e\<rparr> = e"
  by simp

lemma encrypt_then_decrypt:
  assumes "encrypt_if_needed provider (packetizer_frame_of frame) = Inr ef"
    and "providers_agree provider (rp_e2ee_provider rp) (rp_publisher_identity rp)"
  shows "map_option data_track_frame_of
      (decrypt_if_needed rp \<lparr>df_payload = pf_payload ef, df_extensions = pf_extensions ef\<rparr>) = Some frame"
  using assms
  by (auto simp: encrypt_if_needed_def decrypt_if_needed_def providers_agree_def
      packetizer_frame_of_def data_track_frame_of_def split: option.splits sum.splits)

lemma receive_all_eq:
  assumes "list_all2 (\<lambda>raw p. packet_deserialize raw = Inr p) raws ps"
  shows "fst (receive_all m raws rp) =
    map (\<lambda>r. Option.bind (pr_frame r) (\<lambda>f. map_option data_track_frame_of (decrypt_if_needed rp f)))
      (fst (push_all m ps (rp_depacketizer rp)))"
  using assms
proof (induction arbitrary: m rp rule: list_all2_induct)
  case (Cons raw raws p ps)
  let ?rp = "rp\<lparr>rp_depacketizer := snd (depacketizer_push (m 0) p (rp_depacketizer rp))\<rparr>"
  have "decrypt_if_needed ?rp f = decrypt_if_needed rp f" for f
    by (simp add: decrypt_if_needed_def cong: option.case_cong sum.case_cong)
  moreover have "Option.bind x (\<lambda>y. Option.bind (g y) (\<lambda>z. Some (h z))) =
      Option.bind x (\<lambda>y. map_option h (g y))" for x :: "'a option" and g :: "'a \<Rightarrow> 'b option" and h :: "'b \<Rightarrow> 'c"
    by (simp add: map_conv_bind_option comp_def)
  ultimately show ?case
    using Cons by (simp add: process_packet_def pipeline_depacketize_def Let_def split_beta)
qed simp

lemma wire_roundtrip:
  assumes "\<forall>p \<in> set ps. packet_wf p \<and> packet_serialized_len p \<le> USIZE_MAX"
    and "map packet_serialize ps = map Some raws"
  shows "list_all2 (\<lambda>raw p. packet_deserialize raw = Inr p) raws ps"
proof -
  have len: "length raws = length ps"
    using assms(2) by (metis length_map)
  have "packet_deserialize (raws ! i) = Inr (ps ! i)" if "i < length ps" for i
  proof -
    have "packet_serialize (ps ! i) = Some (raws ! i)"
      using assms(2) that len by (metis nth_map)
    moreover have "packet_wf (ps ! i)" "packet_serialized_len (ps ! i) \<le> USIZE_MAX"
      using assms(1) that by simp_all
    ultimately show ?thesis
      using packet_serialize_eq packet_deserialize_bytes by force
  qed
  then show ?thesis
    by (simp add: list_all2_conv_all_nth len)
qed

text \<open>C1. A frame travels from the publisher to the subscriber: what \<open>process_frame\<close> encrypts and cuts
  into at most 128 packets can be serialised, and a receiving pipeline in any state whose decryption
  provider matches decodes, reassembles and decrypts it to the original frame, payload and user
  timestamp, when the first packet arrives first, the last one last and the others in any order.\<close>

theorem data_track_end_to_end:
  assumes sent: "process_frame now frame lp = (Some (Inr ps), lp')" and "ps \<noteq> []" "length ps \<le> 128"
    and "handle_wf (pz_handle (lp_packetizer lp))" "pz_mtu_size (lp_packetizer lp) \<le> USIZE_MAX"
    and "provider_typed (lp_encryption_provider lp)"
    and agree: "providers_agree (lp_encryption_provider lp) (rp_e2ee_provider rp) (rp_publisher_identity rp)"
    and order: "mset qs = mset ps" "hd qs = hd ps" "last qs = last ps"
  shows "\<exists>raws. map packet_serialize qs = map Some raws \<and>
           fst (receive_all m raws rp) = replicate (length ps - 1) None @ [Some frame]"
proof -
  obtain ef pz' where enc: "encrypt_if_needed (lp_encryption_provider lp) (packetizer_frame_of frame) = Inr ef"
    and pz: "packetize now ef (lp_packetizer lp) = (Some (Inr ps), pz')"
    using sent by (auto simp: process_frame_def Let_def split: sum.splits option.splits prod.splits)
  have wf: "\<forall>q \<in> set qs. packet_wf q \<and> packet_serialized_len q \<le> USIZE_MAX"
  proof
    fix q assume "q \<in> set qs"
    then have "q \<in> set ps" using mset_eq_setD [OF order(1)] by simp
    note q = packetize_packets [OF pz this]
    have "extensions_wf (pf_extensions ef)"
      using enc assms(6)
      by (auto simp: encrypt_if_needed_def packetizer_frame_of_def extensions_wf_def provider_typed_def
          split: option.splits sum.splits)
    then show "packet_wf q \<and> packet_serialized_len q \<le> USIZE_MAX"
      using q assms(4,5) by (simp add: packet_wf_def header_wf_def)
  qed
  define raws where "raws = map (\<lambda>q. header_bytes (pkt_header q) @ pkt_payload q) qs"
  have raws: "map packet_serialize qs = map Some raws"
    using wf by (simp add: raws_def packet_serialize_eq)
  have "pf_payload ef \<noteq> []"
    using packetize_packets(4) [OF pz, of "hd ps"] assms(2) by auto
  from packetize_reassemble [OF pz this assms(3) order, of m "rp_depacketizer rp"]
  have "map pr_frame (fst (push_all m qs (rp_depacketizer rp))) = replicate (length ps - 1) None @
      [Some \<lparr>df_payload = pf_payload ef, df_extensions = pf_extensions ef\<rparr>]" ..
  then have "map (\<lambda>r. Option.bind (pr_frame r) (\<lambda>f. map_option data_track_frame_of (decrypt_if_needed rp f)))
        (fst (push_all m qs (rp_depacketizer rp))) = replicate (length ps - 1) None @ [Some frame]"
    using encrypt_then_decrypt [OF enc agree]
    unfolding map_map [of "\<lambda>x. Option.bind x (\<lambda>f. map_option data_track_frame_of (decrypt_if_needed rp f))" pr_frame,
        unfolded comp_def, symmetric]
    by simp
  with raws receive_all_eq [OF wire_roundtrip [OF wf raws], of m rp] show ?thesis
    by auto
qed

text \<open>A provider that masks bytes, a frame of three packets, arriving in order.\<close>

definition sample_encrypt :: encryption_provider where
  "sample_encrypt payload =
     Inr \<lparr>ep_payload = map (\<lambda>b. b XOR 0x5A) payload, ep_iv = replicate 12 3, ep_key_index = 1\<rparr>"

definition sample_decrypt :: decryption_provider where
  "sample_decrypt e sender_identity =
     (if sender_identity = ''alice'' \<and> ep_key_index e = 1
      then Inr (map (\<lambda>b. b XOR 0x5A) (ep_payload e)) else Inl DecryptionFailed)"

definition sample_local_pipeline :: local_pipeline where
  "sample_local_pipeline =
     \<lparr>lp_encryption_provider = Some sample_encrypt, lp_packetizer = packetizer_new 9 0 (Handle 4) 34\<rparr>"

lemma sample_agree:
  "providers_agree (Some sample_encrypt) (Some sample_decrypt) ''alice''"
  "provider_typed (Some sample_encrypt)"
  by (auto simp: providers_agree_def provider_typed_def sample_encrypt_def sample_decrypt_def comp_def xor.assoc)

lemma sample_processed:
  "\<exists>ps lp'. process_frame 0 (frame_new [1, 2, 3, 4, 5]) sample_local_pipeline = (Some (Inr ps), lp') \<and>
     length ps = 3"
proof -
  let ?f = "\<lparr>pf_payload = map (\<lambda>b. b XOR 0x5A) [1, 2, 3, 4, 5],
      pf_extensions = \<lparr>ext_user_timestamp = None,
        ext_e2ee = Some \<lparr>key_index = 1, iv = replicate 12 3\<rparr>\<rparr>\<rparr>"
  have "header_serialized_len (frame_header t ?f (packetizer_new 9 0 (Handle 4) 34)) = 32" for t
    by (simp add: header_serialized_len_def metrics_serialized_len_def header_metrics_of_def Let_def
        frame_header_def extensions_serialized_len_def div_ceil_def)
  then obtain ps pz' where "packetize 0 ?f (packetizer_new 9 0 (Handle 4) 34) = (Some (Inr ps), pz')"
      "length ps = 3"
    by (simp add: packetize_eq length_chunk_iter_collect div_ceil_def packetizer_new_def)
  then show ?thesis
    by (simp add: process_frame_def encrypt_if_needed_def sample_local_pipeline_def sample_encrypt_def
        packetizer_frame_of_def frame_new_def Let_def)
qed

theorem data_track_end_to_end_witness:
  "\<exists>ps lp' raws. process_frame 0 (frame_new [1, 2, 3, 4, 5]) sample_local_pipeline = (Some (Inr ps), lp') \<and>
     map packet_serialize ps = map Some raws \<and>
     fst (receive_all (\<lambda>_. 1) raws (remote_pipeline_new ''alice'' (Some sample_decrypt))) =
       [None, None, Some (frame_new [1, 2, 3, 4, 5])]"
proof -
  obtain ps lp' where ps: "process_frame 0 (frame_new [1, 2, 3, 4, 5]) sample_local_pipeline = (Some (Inr ps), lp')"
    and len: "length ps = 3"
    using sample_processed by blast
  have "ps \<noteq> []" "length ps \<le> 128"
    using len by auto
  moreover have "replicate 2 x = [x, x]" for x :: "data_track_frame option"
    by (simp add: numeral_2_eq_2)
  ultimately show ?thesis
    using data_track_end_to_end [OF ps, of "remote_pipeline_new ''alice'' (Some sample_decrypt)" ps "\<lambda>_. 1"]
      ps sample_agree
    by (auto simp: sample_local_pipeline_def remote_pipeline_new_def packetizer_new_def handle_wf_def
        USIZE_MAX_def len)
qed

end
