(* ===== verification/Track_Info.thy ===== *)
theory Track_Info
  imports Dtp_Packet "HOL-Library.List_Lexorder" "HOL-Library.Char_ord"
begin

text \<open>
  Data track identifiers and information (\<^verbatim>\<open>livekit-datatrack/src/track.rs\<close>), the events the two
  managers exchange with the signalling client, and the conversions between them and the protocol
  messages (\<^verbatim>\<open>local/proto.rs\<close>, \<^verbatim>\<open>remote/proto.rs\<close>). A hash map that is iterated is an association
  list with distinct keys; its order is the order of the iteration.
\<close>

section \<open>Track information\<close>

datatype data_track_sid = DataTrackSid string

fun sid_string :: "data_track_sid \<Rightarrow> string" where
  "sid_string (DataTrackSid s) = s"

text \<open>Identifiers are compared as strings, as the derived order of the newtype does.\<close>

instantiation data_track_sid :: linorder
begin

definition less_eq_data_track_sid :: "data_track_sid \<Rightarrow> data_track_sid \<Rightarrow> bool" where
  "less_eq_data_track_sid a b = (sid_string a \<le> sid_string b)"

definition less_data_track_sid :: "data_track_sid \<Rightarrow> data_track_sid \<Rightarrow> bool" where
  "less_data_track_sid a b = (sid_string a < sid_string b)"

instance
proof
  fix x y :: data_track_sid
  show "x \<le> y \<Longrightarrow> y \<le> x \<Longrightarrow> x = y"
    by (cases x; cases y) (simp add: less_eq_data_track_sid_def)
qed (auto simp: less_eq_data_track_sid_def less_data_track_sid_def)

end

definition SID_PREFIX :: string where "SID_PREFIX = ''DTR_''"

definition sid_try_from :: "string \<Rightarrow> data_track_sid option" where
  "sid_try_from raw_id =
     (if take (length SID_PREFIX) raw_id = SID_PREFIX then Some (DataTrackSid raw_id) else None)"

record data_track_info =
  dti_sid :: data_track_sid
  dti_pub_handle :: handle
  dti_name :: string
  dti_uses_e2ee :: bool

text \<open>The ways a conversion from a protocol message fails, all an \<open>InternalError\<close> in the source.\<close>

datatype internal_error =
    MissingInfo
  | BadHandle handle_error
  | UnsupportedE2eeType
  | BadSid
  | DescriptorExists
  | UnknownTrack
  | SfuRejected string

datatype publish_error =
    NotAllowed | DuplicateName | InvalidName | PublishTimeout | LimitReached | PublishDisconnected
  | PublishInternal internal_error

section \<open>Protocol messages\<close>

datatype encryption_type = TypeNone | TypeGcm | TypeCustom

fun encryption_type_i32 :: "encryption_type \<Rightarrow> int" where
  "encryption_type_i32 TypeNone = 0"
| "encryption_type_i32 TypeGcm = 1"
| "encryption_type_i32 TypeCustom = 2"

text \<open>The generated accessor returns the default for a number that is no enum value.\<close>

definition encryption_type_of :: "int \<Rightarrow> encryption_type" where
  "encryption_type_of n = (if n = 1 then TypeGcm else if n = 2 then TypeCustom else TypeNone)"

record proto_data_track_info =
  pdti_pub_handle :: u32
  pdti_sid :: string
  pdti_name :: string
  pdti_encryption :: int

record proto_publish_request =
  ppr_pub_handle :: u32
  ppr_name :: string
  ppr_encryption :: int

datatype request_reason =
    ReasonOk | ReasonNotFound | ReasonNotAllowed | ReasonLimitExceeded | ReasonQueued
  | ReasonUnsupportedType | ReasonUnclassifiedError | ReasonInvalidHandle | ReasonInvalidName
  | ReasonDuplicateHandle | ReasonDuplicateName

datatype proto_request = RequestPublishDataTrack proto_publish_request | RequestOther

record proto_request_response =
  prr_reason :: request_reason
  prr_message :: string
  prr_request :: "proto_request option"

record proto_participant_info =
  ppi_identity :: string
  ppi_data_tracks :: "proto_data_track_info list"

record proto_published_data_track =
  ppd_publisher_identity :: string
  ppd_publisher_sid :: string
  ppd_track_sid :: string

record proto_update_subscription =
  pus_track_sid :: string
  pus_subscribe :: bool

section \<open>Events of the local manager\<close>

record sfu_publish_request =
  spq_handle :: handle
  spq_name :: string
  spq_uses_e2ee :: bool

record sfu_publish_response =
  spr_handle :: handle
  spr_result :: "publish_error + data_track_info"

definition proto_of_publish_request :: "sfu_publish_request \<Rightarrow> proto_publish_request" where
  "proto_of_publish_request e =
     \<lparr>ppr_pub_handle = handle_u32 (spq_handle e), ppr_name = spq_name e,
      ppr_encryption = encryption_type_i32 (if spq_uses_e2ee e then TypeGcm else TypeNone)\<rparr>"

definition proto_of_unpublish_request :: "handle \<Rightarrow> u32" where
  "proto_of_unpublish_request h = handle_u32 h"

definition info_try_from :: "proto_data_track_info \<Rightarrow> internal_error + data_track_info" where
  "info_try_from msg =
     (case handle_try_from_u32 (pdti_pub_handle msg) of
        Inl e \<Rightarrow> Inl (BadHandle e)
      | Inr h \<Rightarrow>
          (case encryption_type_of (pdti_encryption msg) of
             TypeCustom \<Rightarrow> Inl UnsupportedE2eeType
           | enc \<Rightarrow>
               (case sid_try_from (pdti_sid msg) of
                  None \<Rightarrow> Inl BadSid
                | Some sid \<Rightarrow>
                    Inr \<lparr>dti_sid = sid, dti_pub_handle = h, dti_name = pdti_name msg,
                         dti_uses_e2ee = (enc = TypeGcm)\<rparr>)))"

definition publish_response_try_from ::
    "proto_data_track_info option \<Rightarrow> internal_error + sfu_publish_response" where
  "publish_response_try_from msg =
     (case msg of
        None \<Rightarrow> Inl MissingInfo
      | Some m \<Rightarrow>
          (case info_try_from m of
             Inl e \<Rightarrow> Inl e
           | Inr info \<Rightarrow> Inr \<lparr>spr_handle = dti_pub_handle info, spr_result = Inr info\<rparr>))"

definition unpublish_response_try_from ::
    "proto_data_track_info option \<Rightarrow> internal_error + handle" where
  "unpublish_response_try_from msg =
     (case msg of
        None \<Rightarrow> Inl MissingInfo
      | Some m \<Rightarrow>
          (case handle_try_from_u32 (pdti_pub_handle m) of Inl e \<Rightarrow> Inl (BadHandle e) | Inr h \<Rightarrow> Inr h))"

definition publish_result_from_request_response ::
    "proto_request_response \<Rightarrow> sfu_publish_response option" where
  "publish_result_from_request_response msg =
     (case prr_request msg of
        Some (RequestPublishDataTrack request) \<Rightarrow>
          (case handle_try_from_u32 (ppr_pub_handle request) of
             Inl _ \<Rightarrow> None
           | Inr h \<Rightarrow>
               Some \<lparr>spr_handle = h,
                 spr_result = Inl
                   (case prr_reason msg of
                      ReasonNotAllowed \<Rightarrow> NotAllowed
                    | ReasonDuplicateName \<Rightarrow> DuplicateName
                    | ReasonInvalidName \<Rightarrow> InvalidName
                    | _ \<Rightarrow> PublishInternal (SfuRejected (prr_message msg)))\<rparr>)
      | _ \<Rightarrow> None)"

definition proto_of_info :: "data_track_info \<Rightarrow> proto_data_track_info" where
  "proto_of_info info =
     \<lparr>pdti_pub_handle = handle_u32 (dti_pub_handle info), pdti_sid = sid_string (dti_sid info),
      pdti_name = dti_name info,
      pdti_encryption = encryption_type_i32 (if dti_uses_e2ee info then TypeGcm else TypeNone)\<rparr>"

definition publish_responses_for_sync_state ::
    "data_track_info list \<Rightarrow> proto_data_track_info option list" where
  "publish_responses_for_sync_state tracks = map (\<lambda>info. Some (proto_of_info info)) tracks"

section \<open>Events of the remote manager\<close>

record sfu_update_subscription =
  sus_sid :: data_track_sid
  sus_subscribe :: bool

fun subscriber_handles_try_from ::
    "(u32 \<times> proto_published_data_track) list \<Rightarrow> internal_error + (handle \<times> data_track_sid) list" where
  "subscriber_handles_try_from [] = Inr []"
| "subscriber_handles_try_from ((h, info) # rest) =
     (case handle_try_from_u32 h of
        Inl e \<Rightarrow> Inl (BadHandle e)
      | Inr handle \<Rightarrow>
          (case sid_try_from (ppd_track_sid info) of
             None \<Rightarrow> Inl BadSid
           | Some sid \<Rightarrow>
               (case subscriber_handles_try_from rest of
                  Inl e \<Rightarrow> Inl e
                | Inr m \<Rightarrow> Inr ((handle, sid) # m))))"

fun infos_try_from :: "proto_data_track_info list \<Rightarrow> internal_error + data_track_info list" where
  "infos_try_from [] = Inr []"
| "infos_try_from (m # ms) =
     (case info_try_from m of
        Inl e \<Rightarrow> Inl e
      | Inr info \<Rightarrow> (case infos_try_from ms of Inl e \<Rightarrow> Inl e | Inr infos \<Rightarrow> Inr (info # infos)))"

text \<open>\<open>extract_track_info\<close> takes the tracks out of the message even when a conversion fails.\<close>

definition extract_track_info ::
    "proto_participant_info \<Rightarrow> (internal_error + data_track_info list) \<times> proto_participant_info" where
  "extract_track_info msg = (infos_try_from (ppi_data_tracks msg), msg\<lparr>ppi_data_tracks := []\<rparr>)"

fun participant_infos_loop ::
    "string option \<Rightarrow> proto_participant_info list \<Rightarrow> (string, data_track_info list) index_map \<Rightarrow>
     (internal_error + (string, data_track_info list) index_map) \<times> proto_participant_info list" where
  "participant_infos_loop local_identity [] acc = (Inr acc, [])"
| "participant_infos_loop local_identity (msg # msgs) acc =
     (if local_identity = Some (ppi_identity msg)
      then let (r, msgs') = participant_infos_loop local_identity msgs acc in (r, msg # msgs')
      else
        let (infos, msg') = extract_track_info msg
        in case infos of
             Inl e \<Rightarrow> (Inl e, msg' # msgs)
           | Inr ts \<Rightarrow>
               let (r, msgs') =
                 participant_infos_loop local_identity msgs (im_insert (ppi_identity msg) ts acc)
               in (r, msg' # msgs'))"

definition event_from_participant_info ::
    "proto_participant_info list \<Rightarrow> string option \<Rightarrow>
     (internal_error + (string, data_track_info list) index_map) \<times> proto_participant_info list" where
  "event_from_participant_info msgs local_identity = participant_infos_loop local_identity msgs []"

definition event_from_join ::
    "proto_participant_info list \<Rightarrow>
     (internal_error + (string, data_track_info list) index_map) \<times> proto_participant_info list" where
  "event_from_join others = event_from_participant_info others None"

definition event_from_participant_update ::
    "proto_participant_info list \<Rightarrow> string \<Rightarrow>
     (internal_error + (string, data_track_info list) index_map) \<times> proto_participant_info list" where
  "event_from_participant_update msgs local_identity =
     event_from_participant_info msgs (Some local_identity)"

definition proto_of_update_subscription ::
    "sfu_update_subscription \<Rightarrow> proto_update_subscription list" where
  "proto_of_update_subscription e =
     [\<lparr>pus_track_sid = sid_string (sus_sid e), pus_subscribe = sus_subscribe e\<rparr>]"

section \<open>Properties of the conversions\<close>

definition sid_wf :: "data_track_sid \<Rightarrow> bool" where
  "sid_wf sid \<longleftrightarrow> take (length SID_PREFIX) (sid_string sid) = SID_PREFIX"

definition info_wf :: "data_track_info \<Rightarrow> bool" where
  "info_wf info \<longleftrightarrow> handle_wf (dti_pub_handle info) \<and> sid_wf (dti_sid info)"

lemma sid_try_from_string: "sid_wf sid \<Longrightarrow> sid_try_from (sid_string sid) = Some sid"
  by (cases sid) (simp add: sid_try_from_def sid_wf_def)

lemma sid_try_from_wf: "sid_try_from s = Some sid \<Longrightarrow> sid_wf sid \<and> sid_string sid = s"
  by (auto simp: sid_try_from_def sid_wf_def split: if_splits)

lemma handle_u32_roundtrip: "handle_wf h \<Longrightarrow> handle_try_from_u32 (handle_u32 h) = Inr h"
proof -
  assume wf: "handle_wf h"
  have small: "unat (handle_u16 h) < 2 ^ LENGTH(16)"
    by (rule unsigned_less)
  then have "unat (ucast (handle_u16 h) :: u32) < 2 ^ 16"
    by (simp add: unsigned_ucast_eq take_bit_nat_eq_self)
  moreover have "ucast (ucast (handle_u16 h) :: u32) = handle_u16 h"
    by (simp add: unsigned_ucast_eq take_bit_word_eq_self)
  ultimately show ?thesis
    using wf by (cases h) (simp add: handle_try_from_u32_def handle_u32_def handle_try_from_u16_def
        handle_wf_def)
qed

lemma handle_try_from_u32_wf: "handle_try_from_u32 v = Inr h \<Longrightarrow> handle_wf h"
  by (auto simp: handle_try_from_u32_def handle_try_from_u16_def handle_wf_def split: if_splits)

lemma info_roundtrip: "info_wf info \<Longrightarrow> info_try_from (proto_of_info info) = Inr info"
  by (cases info)
    (auto simp: info_try_from_def proto_of_info_def info_wf_def handle_u32_roundtrip sid_try_from_string
      encryption_type_of_def split: encryption_type.splits)

lemma info_try_from_wf: "info_try_from m = Inr info \<Longrightarrow> info_wf info"
  by (auto simp: info_try_from_def info_wf_def split: sum.splits encryption_type.splits option.splits
      dest: handle_try_from_u32_wf sid_try_from_wf)

text \<open>Track information survives the sync state message: what the client reports about its
  published tracks after a reconnect decodes, track by track, to a publish response with the same
  information under the track's own handle.\<close>

theorem sync_state_roundtrip:
  assumes "list_all info_wf tracks"
  shows "map publish_response_try_from (publish_responses_for_sync_state tracks) =
    map (\<lambda>info. Inr \<lparr>spr_handle = dti_pub_handle info, spr_result = Inr info\<rparr>) tracks"
  using assms
  by (auto simp: publish_responses_for_sync_state_def publish_response_try_from_def info_roundtrip
      list_all_iff)

theorem sync_state_roundtrip_witness:
  "map publish_response_try_from (publish_responses_for_sync_state
     [\<lparr>dti_sid = DataTrackSid ''DTR_1'', dti_pub_handle = Handle 0xFFFF, dti_name = ''temp'',
       dti_uses_e2ee = True\<rparr>]) =
   [Inr \<lparr>spr_handle = Handle 0xFFFF, spr_result = Inr
      \<lparr>dti_sid = DataTrackSid ''DTR_1'', dti_pub_handle = Handle 0xFFFF, dti_name = ''temp'',
       dti_uses_e2ee = True\<rparr>\<rparr>]"
  using sync_state_roundtrip [of "[\<lparr>dti_sid = DataTrackSid ''DTR_1'', dti_pub_handle = Handle 0xFFFF,
      dti_name = ''temp'', dti_uses_e2ee = True\<rparr>]"]
  by (simp add: info_wf_def handle_wf_def sid_wf_def SID_PREFIX_def)

lemma infos_try_from_wf: "infos_try_from ms = Inr infos \<Longrightarrow> list_all info_wf infos"
  by (induction ms arbitrary: infos) (auto split: sum.splits dest: info_try_from_wf)

lemma participant_infos_loop_spec:
  "participant_infos_loop me msgs acc = (Inr m, msgs') \<Longrightarrow> im_wf acc \<Longrightarrow>
     (\<forall>(who, ts) \<in> set acc. list_all info_wf ts \<and> Some who \<noteq> me) \<Longrightarrow>
     im_wf m \<and> (\<forall>(who, ts) \<in> set m. list_all info_wf ts \<and> Some who \<noteq> me) \<and>
     fst ` set m = fst ` set acc \<union> {who \<in> ppi_identity ` set msgs. Some who \<noteq> me}"
proof (induction msgs arbitrary: acc msgs')
  case (Cons msg msgs)
  show ?case
  proof (cases "me = Some (ppi_identity msg)")
    case True
    obtain ms where "participant_infos_loop me msgs acc = (Inr m, ms)"
      using Cons.prems(1) True by (auto simp: Let_def split: prod.splits)
    from Cons.IH [OF this Cons.prems(2,3)] True show ?thesis
      by auto
  next
    case False
    with Cons.prems obtain ts where ts: "infos_try_from (ppi_data_tracks msg) = Inr ts"
      by (auto simp: Let_def extract_track_info_def split: sum.splits)
    obtain ms where rest: "participant_infos_loop me msgs (im_insert (ppi_identity msg) ts acc) = (Inr m, ms)"
      using Cons.prems(1) False ts by (auto simp: Let_def extract_track_info_def split: prod.splits)
    have acc: "\<forall>(who, ts) \<in> set (im_insert (ppi_identity msg) ts acc).
        list_all info_wf ts \<and> Some who \<noteq> me"
      using Cons.prems(3) infos_try_from_wf [OF ts] False by (auto dest!: in_set_update)
    have wf: "im_wf (im_insert (ppi_identity msg) ts acc)"
      using Cons.prems(2) by (simp add: distinct_update)
    have "{who \<in> ppi_identity ` set (msg # msgs). Some who \<noteq> me} =
        insert (ppi_identity msg) {who \<in> ppi_identity ` set msgs. Some who \<noteq> me}"
      using False by auto
    with Cons.IH [OF rest wf acc] show ?thesis
      by (simp add: dom_update)
  qed
qed auto

text \<open>A participant update becomes a publication update for exactly the other participants in it:
  each appears once, the local participant does not, and every track has a valid handle and an
  identifier with the required prefix.\<close>

theorem participant_update_spec:
  assumes "event_from_participant_update msgs me = (Inr updates, msgs')"
  shows "im_wf updates \<and> fst ` set updates = {who \<in> ppi_identity ` set msgs. who \<noteq> me} \<and>
    list_all (\<lambda>(who, tracks). list_all info_wf tracks) updates"
  using assms participant_infos_loop_spec [of "Some me" msgs "[]" updates msgs']
  by (auto simp: event_from_participant_update_def event_from_participant_info_def list_all_iff)

theorem participant_update_spec_witness:
  "fst ` set [(''bob'', [\<lparr>dti_sid = DataTrackSid ''DTR_9'', dti_pub_handle = Handle 3,
        dti_name = ''imu'', dti_uses_e2ee = False\<rparr>])] =
     {who \<in> ppi_identity ` set
        [\<lparr>ppi_identity = ''me'', ppi_data_tracks = []\<rparr>,
         \<lparr>ppi_identity = ''bob'', ppi_data_tracks =
           [\<lparr>pdti_pub_handle = 3, pdti_sid = ''DTR_9'', pdti_name = ''imu'', pdti_encryption = 0\<rparr>]\<rparr>].
      who \<noteq> ''me''}"
proof -
  have "event_from_participant_update
      [\<lparr>ppi_identity = ''me'', ppi_data_tracks = []\<rparr>,
       \<lparr>ppi_identity = ''bob'', ppi_data_tracks =
         [\<lparr>pdti_pub_handle = 3, pdti_sid = ''DTR_9'', pdti_name = ''imu'', pdti_encryption = 0\<rparr>]\<rparr>] ''me'' =
    (Inr [(''bob'', [\<lparr>dti_sid = DataTrackSid ''DTR_9'', dti_pub_handle = Handle 3,
        dti_name = ''imu'', dti_uses_e2ee = False\<rparr>])],
     [\<lparr>ppi_identity = ''me'', ppi_data_tracks = []\<rparr>, \<lparr>ppi_identity = ''bob'', ppi_data_tracks = []\<rparr>])"
    by (simp add: event_from_participant_update_def event_from_participant_info_def
        extract_track_info_def info_try_from_def handle_try_from_u32_def handle_try_from_u16_def
        encryption_type_of_def sid_try_from_def SID_PREFIX_def)
  from participant_update_spec [OF this] show ?thesis
    by blast
qed

end
