(* ===== verification/Local_Manager.thy ===== *)
theory Local_Manager
  imports Pipelines Track_Info
begin

text \<open>
  The manager of locally published data tracks, the tasks of the tracks and the track handles the
  application holds: \<^verbatim>\<open>livekit-datatrack/src/local/manager.rs\<close>, \<^verbatim>\<open>local/mod.rs\<close> and
  \<^verbatim>\<open>local/events.rs\<close>.

  The state holds the manager's fields and what it shares with other tasks: the bounded input queue,
  the log of output events, the tracks created so far (the shared information, the watch channel with
  the publish state, the frame queue and the task), and the replies to publish requests. Reply
  channels and tracks are numbered. One step is one handler of the manager, one turn of a track
  task, or one call of the application; a blocked send is a step that is not taken.
\<close>

section \<open>Events and state\<close>

datatype publish_state = Published | Republishing | Unpublished

datatype input_event =
    PublishRequest string nat
  | is_PublishCancelled: PublishCancelled handle
  | QueryPublished nat
  | UnpublishRequest handle
  | SfuPublishResponse sfu_publish_response
  | SfuUnpublishResponse handle
  | RepublishTracks
  | Shutdown

datatype output_event =
    OutSfuPublishRequest sfu_publish_request
  | OutSfuUnpublishRequest handle
  | OutPacketsAvailable "bytes list"

datatype local_descriptor = Pending nat | Active nat

record local_track =
  lt_info :: data_track_info
  lt_state :: publish_state
  lt_frames :: "data_track_frame list"
  lt_pipeline :: local_pipeline
  lt_seen :: publish_state
  lt_done :: bool
  lt_waiters :: nat

datatype manager_status = Running | Stopped | Stuck

record local_manager =
  lm_encryption_provider :: "encryption_provider option"
  lm_allocator :: handle_allocator
  lm_descriptors :: "handle \<rightharpoonup> local_descriptor"
  lm_status :: manager_status
  lm_inbox :: "input_event list"
  lm_out :: "output_event list"
  lm_tracks :: "local_track list"
  lm_replies :: "(nat \<times> (publish_error + nat)) list"
  lm_closed :: "nat set"
  lm_queries :: "(nat \<times> data_track_info list) list"

text \<open>What the environment decides when an event is handled: the order in which the hash map of
  descriptors is iterated, the random base timestamp and the current instant of a new track.\<close>

record choices =
  ch_order :: "handle list"
  ch_base :: u32
  ch_now :: nat

definition FRAME_BUFFER_COUNT :: nat where "FRAME_BUFFER_COUNT = 16"
definition EVENT_BUFFER_COUNT :: nat where "EVENT_BUFFER_COUNT = 16"

definition local_manager_new :: "encryption_provider option \<Rightarrow> local_manager" where
  "local_manager_new provider =
     \<lparr>lm_encryption_provider = provider, lm_allocator = handle_allocator_default,
      lm_descriptors = Map.empty, lm_status = Running, lm_inbox = [], lm_out = [], lm_tracks = [],
      lm_replies = [], lm_closed = {}, lm_queries = []\<rparr>"

definition send_out :: "output_event \<Rightarrow> local_manager \<Rightarrow> local_manager" where
  "send_out e s = s\<lparr>lm_out := lm_out s @ [e]\<rparr>"

text \<open>Sending on a oneshot channel whose receiver is gone drops the value.\<close>

definition reply :: "nat \<Rightarrow> publish_error + nat \<Rightarrow> local_manager \<Rightarrow> local_manager" where
  "reply c r s = (if c \<in> lm_closed s then s else s\<lparr>lm_replies := lm_replies s @ [(c, r)]\<rparr>)"

text \<open>Sending on a watch channel with no receiver left changes nothing. The receivers are the task of
  the track, until it ends, and the calls of \<open>wait_for_unpublish\<close> in progress.\<close>

definition watch_send :: "publish_state \<Rightarrow> local_track \<Rightarrow> local_track" where
  "watch_send st track =
     (if lt_done track \<and> lt_waiters track = 0 then track else track\<lparr>lt_state := st\<rparr>)"

definition set_track_state :: "nat \<Rightarrow> publish_state \<Rightarrow> local_manager \<Rightarrow> local_manager" where
  "set_track_state t st s = s\<lparr>lm_tracks := (lm_tracks s)[t := watch_send st (lm_tracks s ! t)]\<rparr>"

section \<open>The handlers of the manager\<close>

definition on_publish_request :: "string \<Rightarrow> nat \<Rightarrow> local_manager \<Rightarrow> local_manager" where
  "on_publish_request name c s =
     (case handle_allocator_get (lm_allocator s) of
        (None, a) \<Rightarrow> reply c (Inl LimitReached) (s\<lparr>lm_allocator := a\<rparr>)
      | (Some h, a) \<Rightarrow>
          let s = s\<lparr>lm_allocator := a\<rparr>
          in if lm_descriptors s h \<noteq> None
             then reply c (Inl (PublishInternal DescriptorExists)) s
             else send_out (OutSfuPublishRequest \<lparr>spq_handle = h, spq_name = name,
                              spq_uses_e2ee = (lm_encryption_provider s \<noteq> None)\<rparr>)
                    (s\<lparr>lm_descriptors := (lm_descriptors s)(h \<mapsto> Pending c)\<rparr>))"

definition on_publish_cancelled :: "handle \<Rightarrow> local_manager \<Rightarrow> local_manager" where
  "on_publish_cancelled h s = s\<lparr>lm_descriptors := (lm_descriptors s)(h := None)\<rparr>"

definition on_query_published :: "choices \<Rightarrow> nat \<Rightarrow> local_manager \<Rightarrow> local_manager" where
  "on_query_published r c s =
     s\<lparr>lm_queries := lm_queries s @
        [(c, List.map_filter (\<lambda>h. case lm_descriptors s h of
                Some (Active t) \<Rightarrow> Some (lt_info (lm_tracks s ! t)) | _ \<Rightarrow> None) (ch_order r))]\<rparr>"

definition remove_descriptor :: "handle \<Rightarrow> local_manager \<Rightarrow> local_manager" where
  "remove_descriptor h s =
     (case lm_descriptors s h of
        None \<Rightarrow> s
      | Some d \<Rightarrow>
          let s = s\<lparr>lm_descriptors := (lm_descriptors s)(h := None)\<rparr>
          in case d of
               Pending _ \<Rightarrow> s
             | Active t \<Rightarrow>
                 if lt_state (lm_tracks s ! t) \<noteq> Unpublished then set_track_state t Unpublished s else s)"

definition on_unpublish_request :: "handle \<Rightarrow> local_manager \<Rightarrow> local_manager" where
  "on_unpublish_request h s = send_out (OutSfuUnpublishRequest h) (remove_descriptor h s)"

definition create_local_track ::
    "choices \<Rightarrow> data_track_info \<Rightarrow> local_manager \<Rightarrow> nat \<times> local_manager" where
  "create_local_track r info s =
     (let provider = (if dti_uses_e2ee info then lm_encryption_provider s else None);
          track = \<lparr>lt_info = info, lt_state = Published, lt_frames = [],
                   lt_pipeline = local_pipeline_new (ch_base r) (ch_now r) (dti_pub_handle info) provider,
                   lt_seen = Published, lt_done = False, lt_waiters = 0\<rparr>;
          t = length (lm_tracks s)
      in (t, s\<lparr>lm_tracks := lm_tracks s @ [track],
               lm_descriptors := (lm_descriptors s)(dti_pub_handle info \<mapsto> Active t)\<rparr>))"

definition on_sfu_publish_response :: "choices \<Rightarrow> sfu_publish_response \<Rightarrow> local_manager \<Rightarrow> local_manager" where
  "on_sfu_publish_response r e s =
     (let h = spr_handle e
      in case lm_descriptors s h of
           None \<Rightarrow> send_out (OutSfuUnpublishRequest h) s
         | Some d \<Rightarrow>
             let s = s\<lparr>lm_descriptors := (lm_descriptors s)(h := None)\<rparr>
             in case d of
                  Pending c \<Rightarrow>
                    if c \<in> lm_closed s then s
                    else (case spr_result e of
                            Inl err \<Rightarrow> reply c (Inl err) s
                          | Inr info \<Rightarrow> let (t, s) = create_local_track r info s in reply c (Inr t) s)
                | Active t \<Rightarrow>
                    if lt_state (lm_tracks s ! t) \<noteq> Republishing then s
                    else (case spr_result e of
                            Inl _ \<Rightarrow> s
                          | Inr updated_info \<Rightarrow>
                              let track = lm_tracks s ! t;
                                  track = track\<lparr>lt_info := (lt_info track)\<lparr>dti_sid := dti_sid updated_info\<rparr>\<rparr>;
                                  s = set_track_state t Published (s\<lparr>lm_tracks := (lm_tracks s)[t := track]\<rparr>)
                              in s\<lparr>lm_descriptors := (lm_descriptors s)(h \<mapsto> Active t)\<rparr>))"

definition on_sfu_unpublish_response :: "handle \<Rightarrow> local_manager \<Rightarrow> local_manager" where
  "on_sfu_unpublish_response h s = remove_descriptor h s"

definition republish_descriptor :: "handle \<Rightarrow> local_descriptor \<Rightarrow> local_manager \<Rightarrow> local_manager" where
  "republish_descriptor h d s =
     (case d of
        Pending c \<Rightarrow> reply c (Inl PublishDisconnected) s
      | Active t \<Rightarrow>
          let info = lt_info (lm_tracks s ! t);
              s = send_out (OutSfuPublishRequest \<lparr>spq_handle = dti_pub_handle info,
                    spq_name = dti_name info, spq_uses_e2ee = dti_uses_e2ee info\<rparr>)
                    (set_track_state t Republishing s)
          in s\<lparr>lm_descriptors := (lm_descriptors s)(h \<mapsto> Active t)\<rparr>)"

fun republish_loop :: "(handle \<rightharpoonup> local_descriptor) \<Rightarrow> handle list \<Rightarrow> local_manager \<Rightarrow> local_manager" where
  "republish_loop old [] s = s"
| "republish_loop old (h # hs) s =
     republish_loop old hs (case old h of None \<Rightarrow> s | Some d \<Rightarrow> republish_descriptor h d s)"

definition on_republish_tracks :: "choices \<Rightarrow> local_manager \<Rightarrow> local_manager" where
  "on_republish_tracks r s =
     republish_loop (lm_descriptors s) (ch_order r) (s\<lparr>lm_descriptors := Map.empty\<rparr>)"

text \<open>\<open>shutdown\<close> takes the descriptors one by one. For an active track it signals the end and waits for
  the track's task, which observes the new state, sends an unpublish request to the manager and
  ends. The manager no longer reads its input queue, so that send never completes when the queue is
  full: the result \<open>False\<close>. The loop is one step: of what other tasks could do while the manager waits, only the
  end of the task it waits for is part of it, so that the room in the queue is that at the start, less the
  unpublish requests of the loop itself.\<close>

fun shutdown_loop :: "handle list \<Rightarrow> local_manager \<Rightarrow> bool \<times> local_manager" where
  "shutdown_loop [] s = (True, s)"
| "shutdown_loop (h # hs) s =
     (case lm_descriptors s h of
        None \<Rightarrow> shutdown_loop hs s
      | Some (Pending c) \<Rightarrow> shutdown_loop hs (reply c (Inl PublishDisconnected) s)
      | Some (Active t) \<Rightarrow>
          let s = set_track_state t Unpublished s;
              track = lm_tracks s ! t
          in if lt_done track then shutdown_loop hs s
             else if length (lm_inbox s) < EVENT_BUFFER_COUNT
             then shutdown_loop hs
                    (s\<lparr>lm_tracks := (lm_tracks s)[t := track\<lparr>lt_seen := Unpublished, lt_done := True\<rparr>],
                       lm_inbox := lm_inbox s @ [UnpublishRequest (dti_pub_handle (lt_info track))]\<rparr>)
             else (False, s\<lparr>lm_tracks := (lm_tracks s)[t := track\<lparr>lt_seen := Unpublished\<rparr>]\<rparr>))"

definition shutdown :: "choices \<Rightarrow> local_manager \<Rightarrow> local_manager" where
  "shutdown r s =
     (case shutdown_loop (ch_order r) s of
        (True, s) \<Rightarrow> s\<lparr>lm_status := Stopped, lm_descriptors := Map.empty\<rparr>
      | (False, s) \<Rightarrow> s\<lparr>lm_status := Stuck\<rparr>)"

definition handle_event :: "choices \<Rightarrow> input_event \<Rightarrow> local_manager \<Rightarrow> local_manager" where
  "handle_event r e s =
     (case e of
        PublishRequest name c \<Rightarrow> on_publish_request name c s
      | PublishCancelled h \<Rightarrow> on_publish_cancelled h s
      | QueryPublished c \<Rightarrow> on_query_published r c s
      | UnpublishRequest h \<Rightarrow> on_unpublish_request h s
      | SfuPublishResponse e \<Rightarrow> on_sfu_publish_response r e s
      | SfuUnpublishResponse h \<Rightarrow> on_sfu_unpublish_response h s
      | RepublishTracks \<Rightarrow> on_republish_tracks r s
      | Shutdown \<Rightarrow> shutdown r s)"

section \<open>Track tasks and the application\<close>

datatype push_frame_error_reason = TrackUnpublished | QueueFull

record push_frame_error =
  pfe_frame :: data_track_frame
  pfe_reason :: push_frame_error_reason

definition push_frame_error_new :: "data_track_frame \<Rightarrow> push_frame_error_reason \<Rightarrow> push_frame_error" where
  "push_frame_error_new frame reason = \<lparr>pfe_frame = frame, pfe_reason = reason\<rparr>"

definition try_push :: "nat \<Rightarrow> data_track_frame \<Rightarrow> local_manager \<Rightarrow> (push_frame_error + unit) \<times> local_manager" where
  "try_push t frame s =
     (let track = lm_tracks s ! t
      in case lt_state track of
           Republishing \<Rightarrow> (Inl (push_frame_error_new frame QueueFull), s)
         | Unpublished \<Rightarrow> (Inl (push_frame_error_new frame TrackUnpublished), s)
         | Published \<Rightarrow>
             if lt_done track \<or> FRAME_BUFFER_COUNT \<le> length (lt_frames track) then (Inl (push_frame_error_new frame QueueFull), s)
             else (Inr (), s\<lparr>lm_tracks := (lm_tracks s)[t := track\<lparr>lt_frames := lt_frames track @ [frame]\<rparr>]\<rparr>))"

definition is_published :: "local_track \<Rightarrow> bool" where
  "is_published track \<longleftrightarrow> lt_state track \<noteq> Unpublished"

definition local_unpublish :: "nat \<Rightarrow> local_manager \<Rightarrow> local_manager" where
  "local_unpublish t s = set_track_state t Unpublished s"

text \<open>\<open>wait_for_unpublish\<close> subscribes to the state; its receiver goes when the wait ends or is dropped.\<close>

definition wait_begin :: "nat \<Rightarrow> local_manager \<Rightarrow> local_manager" where
  "wait_begin t s =
     (let track = lm_tracks s ! t
      in if lt_state track = Unpublished then s
         else s\<lparr>lm_tracks := (lm_tracks s)[t := track\<lparr>lt_waiters := lt_waiters track + 1\<rparr>]\<rparr>)"

definition wait_end :: "nat \<Rightarrow> local_manager \<Rightarrow> local_manager" where
  "wait_end t s =
     (let track = lm_tracks s ! t
      in s\<lparr>lm_tracks := (lm_tracks s)[t := track\<lparr>lt_waiters := lt_waiters track - 1\<rparr>]\<rparr>)"

text \<open>The branches of the task's loop: the state changed, or a frame is taken from the queue. \<open>room\<close>
  says whether the output queue accepts the packets.\<close>

definition task_observe :: "nat \<Rightarrow> local_manager \<Rightarrow> local_manager" where
  "task_observe t s =
     (let track = lm_tracks s ! t
      in if lt_seen track = Unpublished then s
         else s\<lparr>lm_tracks := (lm_tracks s)[t := track\<lparr>lt_seen := lt_state track\<rparr>]\<rparr>)"

definition process_and_send :: "nat \<Rightarrow> bool \<Rightarrow> data_track_frame \<Rightarrow> local_pipeline \<Rightarrow> output_event option \<times> local_pipeline" where
  "process_and_send now room frame lp =
     (case process_frame now frame lp of
        (Some (Inr packets), lp') \<Rightarrow>
          (if room then map_option OutPacketsAvailable (those (map packet_serialize packets)) else None, lp')
      | (_, lp') \<Rightarrow> (None, lp'))"

definition task_frame :: "nat \<Rightarrow> nat \<Rightarrow> bool \<Rightarrow> local_manager \<Rightarrow> local_manager" where
  "task_frame t now room s =
     (let track = lm_tracks s ! t
      in case lt_frames track of
           [] \<Rightarrow> s
         | frame # frames \<Rightarrow>
             if lt_seen track = Unpublished then s
             else if lt_seen track = Republishing
             then s\<lparr>lm_tracks := (lm_tracks s)[t := track\<lparr>lt_frames := frames\<rparr>]\<rparr>
             else
               let (out, lp) = process_and_send now room frame (lt_pipeline track);
                   s = s\<lparr>lm_tracks := (lm_tracks s)[t := track\<lparr>lt_frames := frames, lt_pipeline := lp\<rparr>]\<rparr>
               in case out of None \<Rightarrow> s | Some e \<Rightarrow> send_out e s)"

text \<open>After the loop the task sends an unpublish request; the send waits for room in the queue.\<close>

definition task_finish :: "nat \<Rightarrow> local_manager \<Rightarrow> local_manager" where
  "task_finish t s =
     (let track = lm_tracks s ! t
      in if lt_seen track = Unpublished \<and> \<not> lt_done track \<and>
            (lm_status s = Stopped \<or> length (lm_inbox s) < EVENT_BUFFER_COUNT)
         then s\<lparr>lm_tracks := (lm_tracks s)[t := track\<lparr>lt_done := True\<rparr>],
                lm_inbox := lm_inbox s @ [UnpublishRequest (dti_pub_handle (lt_info track))]\<rparr>
         else s)"

text \<open>\<open>forward_publish_result\<close>: when the application has dropped its end of the reply channel, the
  forwarding task tells the manager, if there is room in the queue, and ends.\<close>

definition forwarder_closed :: "handle \<Rightarrow> nat \<Rightarrow> local_manager \<Rightarrow> local_manager" where
  "forwarder_closed h c s =
     s\<lparr>lm_closed := insert c (lm_closed s),
       lm_inbox := (if length (lm_inbox s) < EVENT_BUFFER_COUNT
                    then lm_inbox s @ [PublishCancelled h] else lm_inbox s)\<rparr>"

text \<open>\<open>ManagerInput::send\<close>, also used by the drop guard for \<open>Shutdown\<close>.\<close>

definition manager_input_send :: "input_event \<Rightarrow> local_manager \<Rightarrow> bool \<times> local_manager" where
  "manager_input_send e s =
     (if length (lm_inbox s) < EVENT_BUFFER_COUNT then (True, s\<lparr>lm_inbox := lm_inbox s @ [e]\<rparr>)
      else (False, s))"

text \<open>\<open>ManagerInput::publish_track\<close> as a function of what happens to its request.\<close>

datatype 'a awaited = TimedOut | SenderDropped | Received 'a

definition publish_track_result ::
    "bool \<Rightarrow> (publish_error + nat) awaited \<Rightarrow> publish_error + nat" where
  "publish_track_result sent w =
     (if \<not> sent then Inl PublishDisconnected
      else case w of TimedOut \<Rightarrow> Inl PublishTimeout | SenderDropped \<Rightarrow> Inl PublishDisconnected | Received r \<Rightarrow> r)"

section \<open>Steps\<close>

datatype local_action =
    Deliver choices
  | Enqueue input_event
  | ForwarderClosed handle nat
  | TryPush nat data_track_frame
  | LocalUnpublish nat
  | WaitBegin nat
  | WaitEnd nat
  | TaskObserve nat
  | TaskFrame nat nat bool
  | TaskFinish nat

definition deliver :: "choices \<Rightarrow> local_manager \<Rightarrow> local_manager" where
  "deliver r s =
     (if lm_status s \<noteq> Running then s
      else case lm_inbox s of [] \<Rightarrow> s | e # es \<Rightarrow> handle_event r e (s\<lparr>lm_inbox := es\<rparr>))"

fun local_step :: "local_manager \<Rightarrow> local_action \<Rightarrow> local_manager" where
  "local_step s (Deliver r) = deliver r s"
| "local_step s (Enqueue e) = snd (manager_input_send e s)"
| "local_step s (ForwarderClosed h c) = forwarder_closed h c s"
| "local_step s (TryPush t frame) = snd (try_push t frame s)"
| "local_step s (LocalUnpublish t) = local_unpublish t s"
| "local_step s (WaitBegin t) = wait_begin t s"
| "local_step s (WaitEnd t) = wait_end t s"
| "local_step s (TaskObserve t) = task_observe t s"
| "local_step s (TaskFrame t now room) = task_frame t now room s"
| "local_step s (TaskFinish t) = task_finish t s"

section \<open>The invariant\<close>

abbreviation track_handle :: "local_track \<Rightarrow> handle" where
  "track_handle track \<equiv> dti_pub_handle (lt_info track)"

text \<open>The bookkeeping of handles: descriptors and tracks use handles the allocator has given out, an
  active descriptor refers to the one track with its handle, and a handle with a pending descriptor
  has no track yet.\<close>

definition handles_ok :: "(handle \<rightharpoonup> local_descriptor) \<Rightarrow> handle list \<Rightarrow> u16 \<Rightarrow> bool" where
  "handles_ok D hs a \<longleftrightarrow>
     finite (dom D) \<and> distinct hs \<and>
     (\<forall>h \<in> dom D \<union> set hs. handle_wf h \<and> handle_u16 h \<le> a) \<and>
     (\<forall>h t. D h = Some (Active t) \<longrightarrow> t < length hs \<and> hs ! t = h) \<and>
     (\<forall>h c. D h = Some (Pending c) \<longrightarrow> h \<notin> set hs)"

text \<open>A publish response carries the information of the track it answers for; this is how responses
  are built from protocol messages.\<close>

fun event_ok :: "input_event \<Rightarrow> bool" where
  "event_ok (SfuPublishResponse e) \<longleftrightarrow>
     (case spr_result e of Inl _ \<Rightarrow> True | Inr info \<Rightarrow> dti_pub_handle info = spr_handle e)"
| "event_ok _ \<longleftrightarrow> True"

definition local_inv :: "local_manager \<Rightarrow> bool" where
  "local_inv s \<longleftrightarrow>
     handles_ok (lm_descriptors s) (map track_handle (lm_tracks s)) (ha_value (lm_allocator s)) \<and>
     list_all event_ok (lm_inbox s)"

lemma publish_response_event_ok:
  "publish_response_try_from m = Inr e \<Longrightarrow> event_ok (SfuPublishResponse e)"
  "publish_result_from_request_response q = Some e \<Longrightarrow> event_ok (SfuPublishResponse e)"
  by (auto simp: publish_response_try_from_def publish_result_from_request_response_def
      split: option.splits sum.splits proto_request.splits)

lemma handles_ok_map_le: "handles_ok D hs a \<Longrightarrow> D' \<subseteq>\<^sub>m D \<Longrightarrow> handles_ok D' hs a"
  unfolding handles_ok_def
  by (auto simp: map_le_def dom_def intro: rev_finite_subset)

lemma map_le_delete: "D(h := None) \<subseteq>\<^sub>m D"
  by (simp add: map_le_def)

lemmas handles_ok_delete = handles_ok_map_le [OF _ map_le_delete]

lemma handles_ok_allocate:
  assumes "handles_ok D hs a" and "handle_allocator_get \<lparr>ha_value = a\<rparr> = (Some h, \<lparr>ha_value = a'\<rparr>)"
  shows "h \<notin> dom D" "h \<notin> set hs" "handles_ok (D(h \<mapsto> Pending c)) hs a'"
proof -
  from assms(2) have a: "unat a' = unat a + 1" "h = Handle a'"
    by (auto simp: handle_allocator_get_def split: option.splits dest: checked_add_Some)
  then have lt: "a < a'" "a' \<noteq> 0"
    by (auto simp: word_less_nat_alt unat_eq_0 [symmetric])
  have notin: "g \<noteq> h" if "g \<in> dom D \<union> set hs" for g
  proof -
    have "handle_u16 g \<le> a" using that assms(1) unfolding handles_ok_def by blast
    with lt(1) a(2) show ?thesis by auto
  qed
  then show "h \<notin> dom D" "h \<notin> set hs"
    by blast+
  have "handle_u16 g \<le> a'" if "g \<in> dom D \<union> set hs" for g
    using that assms(1) lt(1) unfolding handles_ok_def by (meson less_imp_le order_trans)
  then show "handles_ok (D(h \<mapsto> Pending c)) hs a'"
    using assms(1) lt(2) a(2) notin unfolding handles_ok_def
    by (auto simp: handle_wf_def)
qed

lemma handles_ok_create:
  assumes "handles_ok D hs a" and "D h = Some (Pending c)"
  shows "handles_ok (D(h \<mapsto> Active (length hs))) (hs @ [h]) a"
  using assms unfolding handles_ok_def
  by (auto simp: nth_append less_Suc_eq domI)

lemma watch_send_simps [simp]:
  "lt_info (watch_send st track) = lt_info track" "lt_seen (watch_send st track) = lt_seen track"
  "lt_done (watch_send st track) = lt_done track" "lt_frames (watch_send st track) = lt_frames track"
  "lt_pipeline (watch_send st track) = lt_pipeline track" "lt_waiters (watch_send st track) = lt_waiters track"
  by (simp_all add: watch_send_def)

lemma watch_send_state:
  "lt_state (watch_send st track) = (if lt_done track \<and> lt_waiters track = 0 then lt_state track else st)"
  by (simp add: watch_send_def)

lemma handles_set_track_state [simp]:
  "map track_handle (lm_tracks (set_track_state t st s)) = map track_handle (lm_tracks s)"
  by (simp add: set_track_state_def map_update_same)
lemma reply_simps [simp]:
  "lm_descriptors (reply c r s) = lm_descriptors s" "lm_tracks (reply c r s) = lm_tracks s"
  "lm_allocator (reply c r s) = lm_allocator s" "lm_inbox (reply c r s) = lm_inbox s"
  "lm_out (reply c r s) = lm_out s" "lm_status (reply c r s) = lm_status s"
  by (simp_all add: reply_def)

lemma send_out_simps [simp]:
  "lm_descriptors (send_out e s) = lm_descriptors s" "lm_tracks (send_out e s) = lm_tracks s"
  "lm_allocator (send_out e s) = lm_allocator s" "lm_inbox (send_out e s) = lm_inbox s"
  "lm_status (send_out e s) = lm_status s" "lm_out (send_out e s) = lm_out s @ [e]"
  by (simp_all add: send_out_def)

lemma set_track_state_simps [simp]:
  "lm_descriptors (set_track_state t st s) = lm_descriptors s"
  "lm_allocator (set_track_state t st s) = lm_allocator s"
  "lm_inbox (set_track_state t st s) = lm_inbox s" "lm_out (set_track_state t st s) = lm_out s"
  "lm_status (set_track_state t st s) = lm_status s"
  by (simp_all add: set_track_state_def)

lemma on_publish_request_inv [inv_intros]:
  assumes "local_inv s"
  shows "local_inv (on_publish_request name c s)"
proof (cases "handle_allocator_get (lm_allocator s)")
  case (Pair ho a)
  show ?thesis
  proof (cases ho)
    case None
    with Pair have "a = lm_allocator s"
      by (auto simp: handle_allocator_get_def split: option.splits)
    with None Pair assms show ?thesis
      by (simp add: on_publish_request_def local_inv_def)
  next
    case (Some h)
    have "handle_allocator_get \<lparr>ha_value = ha_value (lm_allocator s)\<rparr> = (Some h, \<lparr>ha_value = ha_value a\<rparr>)"
      using Pair Some by (cases "lm_allocator s"; cases a) simp
    note ok = handles_ok_allocate [OF _ this, of "lm_descriptors s" "map track_handle (lm_tracks s)"]
    with Pair Some assms show ?thesis
      by (auto simp: on_publish_request_def local_inv_def Let_def)
  qed
qed

lemma on_publish_cancelled_inv [inv_intros]:
  "local_inv s \<Longrightarrow> local_inv (on_publish_cancelled h s)"
  by (simp add: on_publish_cancelled_def local_inv_def handles_ok_delete)

lemma on_query_published_inv [inv_intros]:
  "local_inv s \<Longrightarrow> local_inv (on_query_published r c s)"
  by (simp add: on_query_published_def local_inv_def)

lemma remove_descriptor_inv [inv_intros]:
  "local_inv s \<Longrightarrow> local_inv (remove_descriptor h s)"
  by (auto simp: remove_descriptor_def local_inv_def handles_ok_delete Let_def
      split: option.splits local_descriptor.splits)

lemma on_unpublish_inv [inv_intros]:
  "local_inv s \<Longrightarrow> local_inv (on_unpublish_request h s)"
  "local_inv s \<Longrightarrow> local_inv (on_sfu_unpublish_response h s)"
  using remove_descriptor_inv [of s h]
  by (simp_all add: on_unpublish_request_def on_sfu_unpublish_response_def local_inv_def)

lemma on_sfu_publish_response_inv [inv_intros]:
  assumes inv: "local_inv s" and ok: "event_ok (SfuPublishResponse e)"
  shows "local_inv (on_sfu_publish_response r e s)"
proof (cases "lm_descriptors s (spr_handle e)")
  case None
  with inv show ?thesis
    by (simp add: on_sfu_publish_response_def local_inv_def)
next
  case (Some d)
  let ?hs = "map track_handle (lm_tracks s)"
  have del: "handles_ok ((lm_descriptors s)(spr_handle e := None)) ?hs (ha_value (lm_allocator s))"
    using inv by (simp add: local_inv_def handles_ok_delete)
  show ?thesis
  proof (cases d)
    case (Pending c)
    have "handles_ok ((lm_descriptors s)(spr_handle e \<mapsto> Active (length (lm_tracks s))))
        (?hs @ [spr_handle e]) (ha_value (lm_allocator s))"
      using handles_ok_create [of "lm_descriptors s" ?hs _ "spr_handle e" c] inv Some Pending
      by (simp add: local_inv_def)
    with del inv ok Some Pending show ?thesis
      by (auto simp: on_sfu_publish_response_def local_inv_def create_local_track_def Let_def
          split: sum.splits)
  next
    case (Active t)
    have "(lm_descriptors s)(spr_handle e \<mapsto> Active t) = lm_descriptors s"
      using Some Active by auto
    with del inv Some Active show ?thesis
      by (auto simp: on_sfu_publish_response_def local_inv_def Let_def map_update_same split: sum.splits)
  qed
qed

lemma republish_descriptor_simps:
  "map track_handle (lm_tracks (republish_descriptor h d s)) = map track_handle (lm_tracks s)"
  "lm_allocator (republish_descriptor h d s) = lm_allocator s"
  "lm_inbox (republish_descriptor h d s) = lm_inbox s"
  "lm_status (republish_descriptor h d s) = lm_status s"
  "lm_descriptors (republish_descriptor h d s) =
     (case d of Pending _ \<Rightarrow> lm_descriptors s | Active t \<Rightarrow> (lm_descriptors s)(h \<mapsto> Active t))"
  by (simp_all add: republish_descriptor_def Let_def split: local_descriptor.splits)

lemma republish_loop_simps:
  "map track_handle (lm_tracks (republish_loop old hs s)) = map track_handle (lm_tracks s)"
  "lm_allocator (republish_loop old hs s) = lm_allocator s"
  "lm_inbox (republish_loop old hs s) = lm_inbox s"
  "lm_status (republish_loop old hs s) = lm_status s"
  by (induction hs arbitrary: s) (simp_all add: republish_descriptor_simps split: option.splits)

lemma republish_loop_descriptors:
  "lm_descriptors (republish_loop old hs s) =
     (\<lambda>h. case old h of Some (Active t) \<Rightarrow> if h \<in> set hs then Some (Active t) else lm_descriptors s h
                     | _ \<Rightarrow> lm_descriptors s h)"
  by (induction hs arbitrary: s)
    (auto simp: republish_descriptor_simps fun_eq_iff split: option.splits local_descriptor.splits)

lemma on_republish_tracks_inv [inv_intros]:
  "local_inv s \<Longrightarrow> local_inv (on_republish_tracks r s)"
  by (auto simp: on_republish_tracks_def local_inv_def republish_loop_simps republish_loop_descriptors
      map_le_def intro!: handles_ok_map_le [of "lm_descriptors s"]
      split: option.splits local_descriptor.splits if_splits)
lemma shutdown_loop_simps:
  "map track_handle (lm_tracks (snd (shutdown_loop hs s))) = map track_handle (lm_tracks s)"
  "lm_allocator (snd (shutdown_loop hs s)) = lm_allocator s"
  "lm_descriptors (snd (shutdown_loop hs s)) = lm_descriptors s"
  "list_all event_ok (lm_inbox s) \<Longrightarrow> list_all event_ok (lm_inbox (snd (shutdown_loop hs s)))"
  by (induction hs s rule: shutdown_loop.induct)
    (simp_all add: Let_def map_update_same split: option.splits local_descriptor.splits)

lemma handles_ok_empty: "handles_ok D hs a \<Longrightarrow> handles_ok Map.empty hs a"
  by (erule handles_ok_map_le) simp

lemma shutdown_inv [inv_intros]: "local_inv s \<Longrightarrow> local_inv (shutdown r s)"
  using shutdown_loop_simps [where hs = "ch_order r" and s = s]
  by (auto simp: shutdown_def local_inv_def split: prod.splits bool.splits intro: handles_ok_empty)

lemma deliver_inv [inv_intros]:
  assumes "local_inv s"
  shows "local_inv (deliver r s)"
proof (cases "lm_status s = Running \<and> lm_inbox s \<noteq> []")
  case False
  with assms show ?thesis by (auto simp: deliver_def split: list.splits)
next
  case True
  then obtain e es where es: "lm_inbox s = e # es" by (cases "lm_inbox s") auto
  have "local_inv (s\<lparr>lm_inbox := es\<rparr>)" "event_ok e"
    using assms es by (simp_all add: local_inv_def)
  then have "local_inv (handle_event r e (s\<lparr>lm_inbox := es\<rparr>))"
    by (cases e) (simp_all add: handle_event_def inv_intros)
  with True es show ?thesis
    by (simp add: deliver_def)
qed

fun local_ok :: "local_manager \<Rightarrow> local_action \<Rightarrow> bool" where
  "local_ok s (Deliver r) \<longleftrightarrow> distinct (ch_order r) \<and> set (ch_order r) = dom (lm_descriptors s)"
| "local_ok s (Enqueue e) \<longleftrightarrow> event_ok e \<and> \<not> is_PublishCancelled e"
| "local_ok s (ForwarderClosed h c) \<longleftrightarrow> lm_descriptors s h = Some (Pending c)"
| "local_ok s (TryPush t f) \<longleftrightarrow> t < length (lm_tracks s)"
| "local_ok s (LocalUnpublish t) \<longleftrightarrow> t < length (lm_tracks s)"
| "local_ok s (WaitBegin t) \<longleftrightarrow> t < length (lm_tracks s)"
| "local_ok s (WaitEnd t) \<longleftrightarrow> t < length (lm_tracks s) \<and> 0 < lt_waiters (lm_tracks s ! t)"
| "local_ok s (TaskObserve t) \<longleftrightarrow> t < length (lm_tracks s)"
| "local_ok s (TaskFrame t now room) \<longleftrightarrow> t < length (lm_tracks s)"
| "local_ok s (TaskFinish t) \<longleftrightarrow> t < length (lm_tracks s)"

lemma application_step_inv [inv_intros]:
  "local_inv s \<Longrightarrow> local_inv (snd (try_push t f s))"
  "local_inv s \<Longrightarrow> local_inv (local_unpublish t s)"
  "local_inv s \<Longrightarrow> local_inv (forwarder_closed h c s)"
  "local_inv s \<Longrightarrow> event_ok e \<Longrightarrow> local_inv (snd (manager_input_send e s))"
  by (auto simp: try_push_def local_unpublish_def forwarder_closed_def manager_input_send_def
      local_inv_def Let_def map_update_same split: publish_state.splits)

lemma wait_step_inv [inv_intros]:
  assumes "local_inv s"
  shows "local_inv (wait_begin t s)" "local_inv (wait_end t s)"
  using assms by (auto simp: wait_begin_def wait_end_def local_inv_def Let_def map_update_same)

lemma task_step_inv [inv_intros]:
  "local_inv s \<Longrightarrow> local_inv (task_observe t s)"
  "local_inv s \<Longrightarrow> local_inv (task_frame t now room s)"
  "local_inv s \<Longrightarrow> local_inv (task_finish t s)"
  by (auto simp: task_observe_def task_frame_def task_finish_def local_inv_def Let_def map_update_same
      split: list.splits prod.splits option.splits)

interpretation local_actor: actor "local_manager_new provider" local_step local_ok local_inv for provider
proof
  show "local_inv (local_manager_new provider)"
    by (simp add: local_inv_def local_manager_new_def handles_ok_def)
  show "local_inv (local_step s e)" if "local_inv s" "local_ok s e" for s e
    using that by (cases e) (simp_all add: inv_intros)
qed

section \<open>Live tracks stay reachable\<close>

text \<open>Every track that is not unpublished and whose task has not ended has its descriptor, so that the
  manager can still republish and unpublish it.\<close>

definition track_live :: "local_track \<Rightarrow> bool" where
  "track_live track \<longleftrightarrow> lt_state track \<noteq> Unpublished \<and> \<not> lt_done track"

definition covered :: "(handle \<rightharpoonup> local_descriptor) \<Rightarrow> local_track list \<Rightarrow> bool" where
  "covered D T \<longleftrightarrow>
     (\<forall>t < length T. track_live (T ! t) \<longrightarrow> D (track_handle (T ! t)) = Some (Active t))"

definition cancellations_ok :: "local_manager \<Rightarrow> bool" where
  "cancellations_ok s \<longleftrightarrow>
     (\<forall>h. PublishCancelled h \<in> set (lm_inbox s) \<longrightarrow>
        handle_u16 h \<le> ha_value (lm_allocator s) \<and> (\<forall>t. lm_descriptors s h \<noteq> Some (Active t)) \<and>
        (\<forall>c. lm_descriptors s h = Some (Pending c) \<longrightarrow> c \<in> lm_closed s))"

definition live_inv :: "local_manager \<Rightarrow> bool" where
  "live_inv s \<longleftrightarrow> local_inv s \<and> cancellations_ok s \<and> covered (lm_descriptors s) (lm_tracks s)"

lemma local_inv_active:
  assumes "local_inv s" and "lm_descriptors s h = Some (Active t)"
  shows "t < length (lm_tracks s)" "track_handle (lm_tracks s ! t) = h"
proof -
  have *: "t < length (map track_handle (lm_tracks s)) \<and> map track_handle (lm_tracks s) ! t = h"
    using assms unfolding local_inv_def handles_ok_def by blast
  then show "t < length (lm_tracks s)" by simp
  with * show "track_handle (lm_tracks s ! t) = h" by simp
qed

lemma covered_drop:
  "covered D T \<Longrightarrow> (\<And>t. D h = Some (Active t) \<Longrightarrow> \<not> track_live (T ! t)) \<Longrightarrow> covered (D(h := None)) T"
  unfolding covered_def by auto

lemma covered_update:
  assumes "covered D T" and "track_handle tr = track_handle (T ! t)"
    and "t < length T \<Longrightarrow> track_live tr \<Longrightarrow> D (track_handle tr) = Some (Active t)"
  shows "covered D (T[t := tr])"
  using assms unfolding covered_def by (auto simp: nth_update)

lemma watch_send_Unpublished [simp]: "\<not> track_live (watch_send Unpublished tr)"
  by (simp add: track_live_def watch_send_state)

lemma covered_same:
  assumes "covered D T" and "lt_info tr = lt_info (T ! t)" and "track_live tr \<Longrightarrow> track_live (T ! t)"
  shows "covered D (T[t := tr])"
  using assms by (intro covered_update) (auto simp: covered_def)

lemma covered_remove_descriptor:
  assumes inv: "local_inv s" and cov: "covered (lm_descriptors s) (lm_tracks s)"
  shows "covered (lm_descriptors (remove_descriptor h s)) (lm_tracks (remove_descriptor h s))"
proof (cases "lm_descriptors s h")
  case (Some d)
  show ?thesis
  proof (cases d)
    case (Active t)
    then have t: "t < length (lm_tracks s)"
      using inv Some by (auto simp: local_inv_def handles_ok_def)
    have "covered (lm_descriptors s) ((lm_tracks s)[t := watch_send Unpublished (lm_tracks s ! t)])"
      using cov by (rule covered_same) simp_all
    then show ?thesis
      using Some Active t cov
      by (auto simp: remove_descriptor_def set_track_state_def Let_def track_live_def watch_send_state
          intro!: covered_drop)
  qed (use Some cov in \<open>auto simp: remove_descriptor_def intro: covered_drop\<close>)
qed (simp add: remove_descriptor_def cov)

lemma remove_descriptor_frame:
  "lm_inbox (remove_descriptor h s) = lm_inbox s" "lm_allocator (remove_descriptor h s) = lm_allocator s"
  "lm_closed (remove_descriptor h s) = lm_closed s"
  "lm_descriptors (remove_descriptor h s) = (lm_descriptors s)(h := None)"
  by (auto simp: remove_descriptor_def set_track_state_def Let_def fun_eq_iff
      split: option.splits local_descriptor.splits)

text \<open>What a step of the shutdown does to a track: it never revives it or restarts its task.\<close>

definition winds_down :: "local_track \<Rightarrow> local_track \<Rightarrow> bool" where
  "winds_down tr tr' \<longleftrightarrow> (lt_done tr \<longrightarrow> lt_done tr') \<and> (lt_state tr = Unpublished \<longrightarrow> lt_state tr' = Unpublished) \<and>
     (track_live tr' \<longrightarrow> track_live tr)"

definition wound_down :: "local_track \<Rightarrow> local_track \<Rightarrow> bool" where
  "wound_down tr tr' \<longleftrightarrow> lt_done tr' \<and> (lt_done tr \<or> lt_state tr' = Unpublished)"

lemma winds_down_refl [simp]: "winds_down tr tr"
  by (simp add: winds_down_def)

lemma winds_down_trans: "winds_down a b \<Longrightarrow> winds_down b c \<Longrightarrow> winds_down a c"
  by (auto simp: winds_down_def)

lemma wound_down_later: "wound_down a b \<Longrightarrow> winds_down b c \<Longrightarrow> wound_down a c"
  by (auto simp: winds_down_def wound_down_def)

lemma wound_down_earlier: "winds_down a b \<Longrightarrow> wound_down b c \<Longrightarrow> lt_done b = lt_done a \<Longrightarrow> wound_down a c"
  by (auto simp: winds_down_def wound_down_def)

lemma shutdown_loop_states:
  "t < length (lm_tracks s) \<Longrightarrow>
     winds_down (lm_tracks s ! t) (lm_tracks (snd (shutdown_loop hs s)) ! t) \<and>
     (fst (shutdown_loop hs s) \<longrightarrow> (\<exists>h \<in> set hs. lm_descriptors s h = Some (Active t)) \<longrightarrow>
        wound_down (lm_tracks s ! t) (lm_tracks (snd (shutdown_loop hs s)) ! t))"
proof (induction hs s rule: shutdown_loop.induct)
  case (2 h hs s)
  show ?case
  proof (cases "lm_descriptors s h")
    case None
    with 2 show ?thesis by simp
  next
    case (Some d)
    show ?thesis
    proof (cases d)
      case (Pending c)
      with Some 2 show ?thesis by simp
    next
      case (Active u)
      define s1 where "s1 = set_track_state u Unpublished s"
      define tr where "tr = lm_tracks s1 ! u"
      define s2 where "s2 = s1\<lparr>lm_tracks := (lm_tracks s1)[u := tr\<lparr>lt_seen := Unpublished, lt_done := True\<rparr>],
          lm_inbox := lm_inbox s1 @ [UnpublishRequest (track_handle tr)]\<rparr>"
      note defs = s1_def tr_def s2_def set_track_state_def
      have len: "t < length (lm_tracks s1)" "t < length (lm_tracks s2)"
        using "2.prems" by (simp_all add: defs)
      have down: "winds_down (lm_tracks s ! t) (lm_tracks s1 ! t)" "winds_down (lm_tracks s ! t) (lm_tracks s2 ! t)"
          "winds_down (lm_tracks s ! t) (((lm_tracks s1)[u := tr\<lparr>lt_seen := Unpublished\<rparr>]) ! t)"
          "lt_done tr \<Longrightarrow> u = t \<Longrightarrow> wound_down (lm_tracks s ! t) (lm_tracks s1 ! t)"
          "\<not> lt_done tr \<Longrightarrow> u = t \<Longrightarrow> wound_down (lm_tracks s ! t) (lm_tracks s2 ! t)"
          "lt_done (lm_tracks s1 ! t) = lt_done (lm_tracks s ! t)"
          "u \<noteq> t \<Longrightarrow> lm_tracks s2 ! t = lm_tracks s ! t"
        using "2.prems"
        by (auto simp: defs winds_down_def wound_down_def track_live_def watch_send_state nth_update)
      have step: "shutdown_loop (h # hs) s =
          (if lt_done tr then shutdown_loop hs s1
           else if length (lm_inbox s1) < EVENT_BUFFER_COUNT then shutdown_loop hs s2
           else (False, s1\<lparr>lm_tracks := (lm_tracks s1)[u := tr\<lparr>lt_seen := Unpublished\<rparr>]\<rparr>))"
        using Some Active by (simp add: Let_def s1_def s2_def tr_def)
      note IH = "2.IH"(3,4) [OF Some Active s1_def tr_def, folded s2_def]
      have D: "lm_descriptors s1 = lm_descriptors s" "lm_descriptors s2 = lm_descriptors s"
        by (simp_all add: s1_def s2_def)
      have d: "lm_descriptors s h = Some (Active t) \<longleftrightarrow> u = t" using Some Active by auto
      consider "lt_done tr" | "\<not> lt_done tr" "length (lm_inbox s1) < EVENT_BUFFER_COUNT"
        | "\<not> lt_done tr" "\<not> length (lm_inbox s1) < EVENT_BUFFER_COUNT" by blast
      then show ?thesis
      proof cases
        case 1
        with IH(1) len(1) down d show ?thesis
          unfolding step by (auto simp: D intro: winds_down_trans wound_down_later wound_down_earlier)
      next
        case 2
        with IH(2) len(2) down d show ?thesis
          unfolding step by (cases "u = t") (auto simp: D intro: winds_down_trans wound_down_later)
      next
        case 3
        with down(3) show ?thesis unfolding step by simp
      qed
    qed
  qed
qed simp

lemma cancellations_ok_mono:
  assumes "cancellations_ok s"
    and "\<And>h. PublishCancelled h \<in> set (lm_inbox s') \<Longrightarrow> PublishCancelled h \<in> set (lm_inbox s)"
    and "ha_value (lm_allocator s) \<le> ha_value (lm_allocator s')" "lm_closed s \<subseteq> lm_closed s'"
    and "lm_descriptors s' \<subseteq>\<^sub>m lm_descriptors s"
  shows "cancellations_ok s'"
  unfolding cancellations_ok_def
proof (intro allI impI)
  fix h assume "PublishCancelled h \<in> set (lm_inbox s')"
  with assms(1,2) have "handle_u16 h \<le> ha_value (lm_allocator s)"
    "\<forall>t. lm_descriptors s h \<noteq> Some (Active t)" "\<forall>c. lm_descriptors s h = Some (Pending c) \<longrightarrow> c \<in> lm_closed s"
    by (auto simp: cancellations_ok_def)
  moreover have "lm_descriptors s' h = None \<or> lm_descriptors s' h = lm_descriptors s h"
    using assms(5) by (cases "lm_descriptors s' h") (auto simp: map_le_def dom_def)
  ultimately show "handle_u16 h \<le> ha_value (lm_allocator s') \<and> (\<forall>t. lm_descriptors s' h \<noteq> Some (Active t)) \<and>
      (\<forall>c. lm_descriptors s' h = Some (Pending c) \<longrightarrow> c \<in> lm_closed s')"
    using assms(3,4) by (elim disjE) auto
qed

lemma closed_simps [simp]:
  "lm_closed (reply c r s) = lm_closed s" "lm_closed (send_out e s) = lm_closed s"
  "lm_closed (set_track_state t st s) = lm_closed s"
  by (simp_all add: reply_def send_out_def set_track_state_def)

lemma live_publish_request:
  assumes "live_inv s"
  shows "live_inv (on_publish_request name c s)"
proof (cases "handle_allocator_get (lm_allocator s)")
  case (Pair ho a)
  show ?thesis
  proof (cases ho)
    case None
    with Pair have "a = lm_allocator s"
      by (auto simp: handle_allocator_get_def split: option.splits)
    with None Pair assms on_publish_request_inv [of s name c] show ?thesis
      by (simp add: on_publish_request_def live_inv_def cancellations_ok_def)
  next
    case (Some h)
    have get: "handle_allocator_get \<lparr>ha_value = ha_value (lm_allocator s)\<rparr> = (Some h, \<lparr>ha_value = ha_value a\<rparr>)"
      using Pair Some by (cases "lm_allocator s"; cases a) simp
    then have h: "h = Handle (ha_value a)" "ha_value (lm_allocator s) < ha_value a"
      by (auto simp: handle_allocator_get_def word_less_nat_alt split: option.splits dest: checked_add_Some)
    have fresh: "h \<notin> dom (lm_descriptors s)" "h \<notin> track_handle ` set (lm_tracks s)"
      using handles_ok_allocate(1,2) [OF _ get, of "lm_descriptors s" "map track_handle (lm_tracks s)"] assms
      by (auto simp: live_inv_def local_inv_def)
    have "handle_u16 g \<le> ha_value a \<and> g \<noteq> h" if "PublishCancelled g \<in> set (lm_inbox s)" for g
      using that assms h by (auto simp: live_inv_def cancellations_ok_def)
    moreover have "track_handle (lm_tracks s ! t) \<noteq> h" if "t < length (lm_tracks s)" for t
      using fresh(2) that by (metis image_eqI nth_mem)
    ultimately show ?thesis
      using assms fresh(1) on_publish_request_inv [of s name c] Pair Some
      by (auto simp: on_publish_request_def live_inv_def cancellations_ok_def covered_def Let_def dom_def)
  qed
qed

lemma live_publish_response:
  assumes live: "live_inv s" and ok: "event_ok (SfuPublishResponse e)"
    and expected: "\<And>t. lm_descriptors s (spr_handle e) = Some (Active t) \<Longrightarrow>
      lt_state (lm_tracks s ! t) = Republishing \<and> \<not> isl (spr_result e)"
  shows "live_inv (on_sfu_publish_response r e s)"
proof (cases "lm_descriptors s (spr_handle e)")
  case None
  with live on_sfu_publish_response_inv [of s e r] ok show ?thesis
    by (auto simp: on_sfu_publish_response_def live_inv_def cancellations_ok_def)
next
  case (Some d)
  have inv: "local_inv (on_sfu_publish_response r e s)"
    using live ok by (intro on_sfu_publish_response_inv) (simp_all add: live_inv_def)
  show ?thesis
  proof (cases d)
    case (Pending c)
    have nt: "track_handle (lm_tracks s ! t) \<noteq> spr_handle e" if "t < length (lm_tracks s)" for t
    proof -
      have "spr_handle e \<notin> track_handle ` set (lm_tracks s)"
        using live Some Pending by (auto simp: live_inv_def local_inv_def handles_ok_def)
      then show ?thesis using that by (metis image_eqI nth_mem)
    qed
    then have "covered (lm_descriptors (on_sfu_publish_response r e s)) (lm_tracks (on_sfu_publish_response r e s))"
      using live ok Some Pending
      by (auto simp: on_sfu_publish_response_def live_inv_def covered_def create_local_track_def Let_def
          nth_append less_Suc_eq split: sum.splits)
    moreover have "cancellations_ok (on_sfu_publish_response r e s)"
      using live ok Some Pending
      by (auto simp: on_sfu_publish_response_def live_inv_def cancellations_ok_def create_local_track_def Let_def
          split: sum.splits)
    ultimately show ?thesis
      using inv by (simp add: live_inv_def)
  next
    case (Active t)
    then obtain info where exp: "lt_state (lm_tracks s ! t) = Republishing" "spr_result e = Inr info"
      using expected [of t] Some by (cases "spr_result e") auto
    have same: "(lm_descriptors s)(spr_handle e \<mapsto> Active t) = lm_descriptors s"
      using Some Active by auto
    have t: "t < length (lm_tracks s)" "track_handle (lm_tracks s ! t) = spr_handle e"
      using live Some Active local_inv_active [of s] by (auto simp: live_inv_def)
    have "covered (lm_descriptors (on_sfu_publish_response r e s)) (lm_tracks (on_sfu_publish_response r e s))"
      using live Some Active exp same t
      by (auto simp: on_sfu_publish_response_def live_inv_def Let_def set_track_state_def intro!: covered_update)
    moreover have "cancellations_ok (on_sfu_publish_response r e s)"
      using live Some Active exp same
      by (auto simp: on_sfu_publish_response_def live_inv_def cancellations_ok_def Let_def)
    ultimately show ?thesis
      using inv by (simp add: live_inv_def)
  qed
qed

lemma live_remove_descriptor:
  assumes "live_inv s"
  shows "live_inv (remove_descriptor h s)"
  using assms covered_remove_descriptor [of s h] remove_descriptor_inv [of s h]
    cancellations_ok_mono [of s "remove_descriptor h s"]
  by (auto simp: live_inv_def remove_descriptor_frame map_le_delete)

lemma republish_loop_closed: "lm_closed (republish_loop old hs s) = lm_closed s"
  by (induction hs arbitrary: s)
    (simp_all add: republish_descriptor_def Let_def split: option.splits local_descriptor.splits)

lemma length_republish_loop: "length (lm_tracks (republish_loop old hs s)) = length (lm_tracks s)"
  using republish_loop_simps(1) [of old hs s] by (metis length_map)

lemma republish_descriptor_task:
  "map (\<lambda>tr. (lt_seen tr, lt_done tr, lt_waiters tr)) (lm_tracks (republish_descriptor h d s)) =
   map (\<lambda>tr. (lt_seen tr, lt_done tr, lt_waiters tr)) (lm_tracks s)"
  by (simp add: republish_descriptor_def set_track_state_def Let_def map_update_same split: local_descriptor.splits)

lemma republish_loop_task:
  "map (\<lambda>tr. (lt_seen tr, lt_done tr, lt_waiters tr)) (lm_tracks (republish_loop old hs s)) =
   map (\<lambda>tr. (lt_seen tr, lt_done tr, lt_waiters tr)) (lm_tracks s)"
  by (induction hs arbitrary: s) (simp_all add: republish_descriptor_task split: option.splits)

lemma republish_loop_task_nth:
  assumes "t < length (lm_tracks s)"
  shows "lt_seen (lm_tracks (republish_loop old hs s) ! t) = lt_seen (lm_tracks s ! t)"
    "lt_done (lm_tracks (republish_loop old hs s) ! t) = lt_done (lm_tracks s ! t)"
  using arg_cong [OF republish_loop_task, of "\<lambda>l. l ! t" old hs s] assms
  by (simp_all add: length_republish_loop)

text \<open>The publish states after a republication: \<open>Republishing\<close> for the active tracks.\<close>

lemma republish_loop_states:
  "t < length (lm_tracks s) \<Longrightarrow>
     lt_state (lm_tracks (republish_loop old hs s) ! t) =
       (if (\<exists>h \<in> set hs. old h = Some (Active t)) \<and> (lt_done (lm_tracks s ! t) \<longrightarrow> 0 < lt_waiters (lm_tracks s ! t))
        then Republishing else lt_state (lm_tracks s ! t))"
proof (induction hs arbitrary: s)
  case (Cons h hs)
  have "length (lm_tracks (republish_descriptor h d s)) = length (lm_tracks s)" for d
    using republish_descriptor_simps(1) [of h d s] by (metis length_map)
  moreover have "lt_state (lm_tracks (republish_descriptor h d s) ! t) =
      (if d = Active t \<and> (lt_done (lm_tracks s ! t) \<longrightarrow> 0 < lt_waiters (lm_tracks s ! t))
       then Republishing else lt_state (lm_tracks s ! t))" for d
    using Cons.prems
    by (auto simp: republish_descriptor_def Let_def set_track_state_def nth_update watch_send_state
        split: local_descriptor.splits)
  moreover have "lt_done (lm_tracks (republish_descriptor h d s) ! t) = lt_done (lm_tracks s ! t)"
    "lt_waiters (lm_tracks (republish_descriptor h d s) ! t) = lt_waiters (lm_tracks s ! t)" for d
    using arg_cong [OF republish_descriptor_task, of "\<lambda>l. l ! t" h d s] Cons.prems calculation(1) [of d]
    by simp_all
  ultimately show ?case
    using Cons by (auto split: option.splits)
qed simp

lemma live_republish:
  assumes live: "live_inv s" and order: "set (ch_order r) = dom (lm_descriptors s)"
  shows "live_inv (on_republish_tracks r s)"
proof -
  let ?s = "on_republish_tracks r s"
  have D: "lm_descriptors ?s = (\<lambda>h. case lm_descriptors s h of Some (Active t) \<Rightarrow> Some (Active t) | _ \<Rightarrow> None)"
    using order by (auto simp: on_republish_tracks_def republish_loop_descriptors fun_eq_iff dom_def
        split: option.splits local_descriptor.splits)
  have "cancellations_ok ?s"
  proof (rule cancellations_ok_mono)
    show "cancellations_ok s" using live by (simp add: live_inv_def)
    show "lm_descriptors ?s \<subseteq>\<^sub>m lm_descriptors s"
      unfolding D by (auto simp: map_le_def split: option.splits local_descriptor.splits)
  qed (simp_all add: on_republish_tracks_def republish_loop_simps republish_loop_closed)
  moreover have "covered (lm_descriptors ?s) (lm_tracks ?s)"
    unfolding covered_def
  proof (intro allI impI)
    fix t assume t: "t < length (lm_tracks ?s)" and st: "track_live (lm_tracks ?s ! t)"
    have t': "t < length (lm_tracks s)"
      using t by (simp add: on_republish_tracks_def length_republish_loop)
    have same: "track_handle (lm_tracks ?s ! t) = track_handle (lm_tracks s ! t)"
      using arg_cong [OF republish_loop_simps(1), of "\<lambda>l. l ! t" "lm_descriptors s" "ch_order r"
          "s\<lparr>lm_descriptors := Map.empty\<rparr>"] t t'
      by (simp add: on_republish_tracks_def)
    have "lm_descriptors s (track_handle (lm_tracks s ! t)) = Some (Active t)"
    proof (cases "\<exists>h \<in> set (ch_order r). lm_descriptors s h = Some (Active t)")
      case True
      then show ?thesis
        using live local_inv_active [of s] by (auto simp: live_inv_def)
    next
      case False
      then have "track_live (lm_tracks s ! t)"
        using st t' republish_loop_states [of t "s\<lparr>lm_descriptors := Map.empty\<rparr>" "lm_descriptors s" "ch_order r"]
          republish_loop_task_nth(2) [of t "s\<lparr>lm_descriptors := Map.empty\<rparr>" "lm_descriptors s" "ch_order r"]
        by (simp add: on_republish_tracks_def track_live_def)
      then show ?thesis
        using live t' by (auto simp: live_inv_def covered_def)
    qed
    then show "lm_descriptors ?s (track_handle (lm_tracks ?s ! t)) = Some (Active t)"
      by (simp add: same D)
  qed
  ultimately show ?thesis
    using live on_republish_tracks_inv [of s r] by (simp add: live_inv_def)
qed

lemma shutdown_loop_inbox:
  "PublishCancelled h \<in> set (lm_inbox (snd (shutdown_loop hs s))) \<longleftrightarrow> PublishCancelled h \<in> set (lm_inbox s)"
  "lm_closed (snd (shutdown_loop hs s)) = lm_closed s"
  by (induction hs s rule: shutdown_loop.induct)
    (simp_all add: Let_def split: option.splits local_descriptor.splits)

lemma live_shutdown:
  assumes live: "live_inv s" and order: "set (ch_order r) = dom (lm_descriptors s)"
  shows "live_inv (shutdown r s)"
proof -
  define b s' where "b = fst (shutdown_loop (ch_order r) s)" and "s' = snd (shutdown_loop (ch_order r) s)"
  note simps = shutdown_loop_simps(1-3) [where hs = "ch_order r" and s = s, folded s'_def]
    shutdown_loop_inbox [where hs = "ch_order r" and s = s, folded s'_def]
  have eq: "shutdown r s = (if b then s'\<lparr>lm_status := Stopped, lm_descriptors := Map.empty\<rparr> else s'\<lparr>lm_status := Stuck\<rparr>)"
    by (simp add: shutdown_def b_def s'_def split: prod.splits)
  have len: "length (lm_tracks s') = length (lm_tracks s)"
    using simps(1) by (metis length_map)
  have "covered (lm_descriptors (shutdown r s)) (lm_tracks (shutdown r s))"
    unfolding covered_def
  proof (intro allI impI)
    fix t assume t: "t < length (lm_tracks (shutdown r s))" and st: "track_live (lm_tracks (shutdown r s) ! t)"
    have t': "t < length (lm_tracks s)" using t len by (simp add: eq split: if_splits)
    note states = shutdown_loop_states [OF t', of "ch_order r", folded b_def s'_def]
    have "track_live (lm_tracks s ! t)"
      using states st by (auto simp: eq winds_down_def split: if_splits)
    then have act: "lm_descriptors s (track_handle (lm_tracks s ! t)) = Some (Active t)"
      using live t' by (auto simp: live_inv_def covered_def)
    then have "track_handle (lm_tracks s ! t) \<in> set (ch_order r)"
      unfolding order by blast
    with act states st have "\<not> b"
      by (auto simp: eq wound_down_def track_live_def split: if_splits)
    moreover have "track_handle (lm_tracks s' ! t) = track_handle (lm_tracks s ! t)"
      using arg_cong [OF simps(1), of "\<lambda>l. l ! t"] t' len by simp
    ultimately show "lm_descriptors (shutdown r s) (track_handle (lm_tracks (shutdown r s) ! t)) = Some (Active t)"
      using act by (simp add: eq simps)
  qed
  moreover have "cancellations_ok (shutdown r s)"
    by (rule cancellations_ok_mono [of s]) (use live in \<open>auto simp: live_inv_def eq simps split: if_splits\<close>)
  ultimately show ?thesis
    using live shutdown_inv [of s r] by (simp add: live_inv_def)
qed

text \<open>What the manager expects of the signalling server: a publish response for a track that is
  already active answers a republication and is positive.\<close>

definition response_expected :: "local_manager \<Rightarrow> bool" where
  "response_expected s \<longleftrightarrow>
     (case lm_inbox s of
        SfuPublishResponse e # _ \<Rightarrow>
          (case lm_descriptors s (spr_handle e) of
             Some (Active t) \<Rightarrow> lt_state (lm_tracks s ! t) = Republishing \<and> \<not> isl (spr_result e)
           | _ \<Rightarrow> True)
      | _ \<Rightarrow> True)"

definition expected_ok :: "local_manager \<Rightarrow> local_action \<Rightarrow> bool" where
  "expected_ok s a \<longleftrightarrow> local_ok s a \<and> (case a of Deliver _ \<Rightarrow> response_expected s | _ \<Rightarrow> True)"

lemma live_handle_event:
  assumes s: "live_inv (s\<lparr>lm_inbox := e # es\<rparr>)" and exp: "response_expected (s\<lparr>lm_inbox := e # es\<rparr>)"
    and order: "set (ch_order r) = dom (lm_descriptors s)"
  shows "live_inv (handle_event r e (s\<lparr>lm_inbox := es\<rparr>))"
proof -
  let ?s = "s\<lparr>lm_inbox := es\<rparr>"
  have live: "live_inv ?s" and ok: "event_ok e"
    using s cancellations_ok_mono [of "s\<lparr>lm_inbox := e # es\<rparr>" ?s]
    by (auto simp: live_inv_def local_inv_def)
  show ?thesis
  proof (cases e)
    case (PublishCancelled h)
    have "\<forall>t. lm_descriptors s h \<noteq> Some (Active t)"
      using s PublishCancelled by (auto simp: live_inv_def cancellations_ok_def)
    then have "covered ((lm_descriptors s)(h := None)) (lm_tracks s)"
      using live by (auto simp: live_inv_def intro: covered_drop)
    with live PublishCancelled cancellations_ok_mono [of ?s "on_publish_cancelled h ?s"] show ?thesis
      using on_publish_cancelled_inv [of ?s h]
      by (simp add: handle_event_def live_inv_def on_publish_cancelled_def map_le_delete)
  next
    case (SfuPublishResponse x)
    have "lt_state (lm_tracks s ! t) = Republishing \<and> \<not> isl (spr_result x)"
      if "lm_descriptors s (spr_handle x) = Some (Active t)" for t
      using exp that SfuPublishResponse by (simp add: response_expected_def)
    with SfuPublishResponse ok live live_publish_response [of ?s x r] show ?thesis
      by (simp add: handle_event_def)
  next
    case (UnpublishRequest h)
    with live_remove_descriptor [OF live, of h] show ?thesis
      by (auto simp: handle_event_def on_unpublish_request_def live_inv_def local_inv_def cancellations_ok_def)
  next
    case (QueryPublished c)
    with live show ?thesis
      by (auto simp: handle_event_def on_query_published_def live_inv_def local_inv_def cancellations_ok_def)
  qed (use live order live_publish_request live_remove_descriptor [OF live] live_republish [of ?s r]
      live_shutdown [of ?s r] in \<open>auto simp: handle_event_def on_sfu_unpublish_response_def\<close>)
qed

lemma live_application_step:
  assumes "live_inv s"
  shows "live_inv (snd (try_push t f s))" "live_inv (local_unpublish t s)"
    "live_inv (wait_begin t s)" "live_inv (wait_end t s)"
    "live_inv (task_observe t s)" "live_inv (task_frame t now room s)" "live_inv (task_finish t s)"
  using assms application_step_inv(1,2) [of s] wait_step_inv [of s] task_step_inv [of s]
  by (auto simp: live_inv_def try_push_def local_unpublish_def wait_begin_def wait_end_def track_live_def
      watch_send_state task_observe_def task_frame_def
      task_finish_def set_track_state_def cancellations_ok_def Let_def
      split: publish_state.splits list.splits prod.splits option.splits intro!: covered_same)

lemma live_environment_step:
  assumes "live_inv s"
  shows "lm_descriptors s h = Some (Pending c) \<Longrightarrow> live_inv (forwarder_closed h c s)"
    "event_ok e \<Longrightarrow> \<not> is_PublishCancelled e \<Longrightarrow> live_inv (snd (manager_input_send e s))"
proof -
  assume h: "lm_descriptors s h = Some (Pending c)"
  then have "handle_u16 h \<le> ha_value (lm_allocator s)"
    using assms by (auto simp: live_inv_def local_inv_def handles_ok_def dom_def)
  with h assms application_step_inv(3) [of s h c] show "live_inv (forwarder_closed h c s)"
    by (auto simp: live_inv_def forwarder_closed_def cancellations_ok_def)
next
  assume "event_ok e" "\<not> is_PublishCancelled e"
  with assms application_step_inv(4) [of s e] show "live_inv (snd (manager_input_send e s))"
    by (auto simp: live_inv_def manager_input_send_def cancellations_ok_def)
qed

interpretation live_actor: actor "local_manager_new provider" local_step expected_ok live_inv for provider
proof
  show "live_inv (local_manager_new provider)"
    using local_actor.inv_init
    by (simp add: live_inv_def local_manager_new_def covered_def cancellations_ok_def)
  show "live_inv (local_step s a)" if "live_inv s" "expected_ok s a" for s a
  proof (cases a)
    case (Deliver r)
    show ?thesis
    proof (cases "lm_status s = Running \<and> lm_inbox s \<noteq> []")
      case True
      then obtain e es where es: "lm_inbox s = e # es" by (cases "lm_inbox s") auto
      then have s: "s\<lparr>lm_inbox := e # es\<rparr> = s" by simp
      show ?thesis
        using live_handle_event [where s = s and e = e and es = es and r = r, unfolded s] that Deliver True es
        by (simp add: deliver_def expected_ok_def)
    qed (use that Deliver in \<open>auto simp: deliver_def split: list.splits\<close>)
  qed (use that in \<open>simp_all add: expected_ok_def live_application_step live_environment_step\<close>)
qed

section \<open>Properties of the local manager\<close>

text \<open>C9. A published track is never lost: along every run in which the signalling server answers
  publications of active tracks only when asked, and positively, each track that is not unpublished and
  whose task is running has an active descriptor under its own handle.\<close>

theorem live_tracks_covered:
  assumes "actor_ok local_step expected_ok (local_manager_new provider) as"
    and "s = actor_run local_step (local_manager_new provider) as"
    and "t < length (lm_tracks s)" and "lt_state (lm_tracks s ! t) \<noteq> Unpublished" and "\<not> lt_done (lm_tracks s ! t)"
  shows "lm_descriptors s (track_handle (lm_tracks s ! t)) = Some (Active t)"
  using live_actor.inv_reachable [OF assms(1)] assms(2-5)
  by (auto simp: live_inv_def covered_def track_live_def)

definition sample_info :: data_track_info where
  "sample_info = \<lparr>dti_sid = DataTrackSid ''DTR_1'', dti_pub_handle = Handle 1, dti_name = ''temp'',
     dti_uses_e2ee = False\<rparr>"

definition sample_choices :: "handle list \<Rightarrow> choices" where
  "sample_choices hs = \<lparr>ch_order = hs, ch_base = 7, ch_now = 0\<rparr>"

definition sample_publish :: "local_action list" where
  "sample_publish =
     [Enqueue (PublishRequest ''temp'' 0), Deliver (sample_choices []),
      Enqueue (SfuPublishResponse \<lparr>spr_handle = Handle 1, spr_result = Inr sample_info\<rparr>),
      Deliver (sample_choices [Handle 1])]"

definition sample_track :: local_track where
  "sample_track =
     \<lparr>lt_info = sample_info, lt_state = Published, lt_frames = [],
      lt_pipeline = local_pipeline_new 7 0 (Handle 1) None, lt_seen = Published, lt_done = False, lt_waiters = 0\<rparr>"

lemma allocate_first: "handle_allocator_get handle_allocator_default = (Some (Handle 1), \<lparr>ha_value = 1\<rparr>)"
  by (simp add: handle_allocator_get_def handle_allocator_default_def checked_add_def)

lemma sample_publish_run:
  "actor_run local_step (local_manager_new None) sample_publish =
     \<lparr>lm_encryption_provider = None, lm_allocator = \<lparr>ha_value = 1\<rparr>,
      lm_descriptors = [Handle 1 \<mapsto> Active 0], lm_status = Running, lm_inbox = [],
      lm_out = [OutSfuPublishRequest \<lparr>spq_handle = Handle 1, spq_name = ''temp'', spq_uses_e2ee = False\<rparr>],
      lm_tracks = [sample_track], lm_replies = [(0, Inr 0)], lm_closed = {}, lm_queries = []\<rparr>"
  "actor_ok local_step expected_ok (local_manager_new None) sample_publish"
  by (simp_all add: sample_publish_def local_manager_new_def manager_input_send_def EVENT_BUFFER_COUNT_def
      deliver_def handle_event_def on_publish_request_def allocate_first send_out_def
      on_sfu_publish_response_def create_local_track_def reply_def sample_choices_def sample_info_def
      sample_track_def expected_ok_def response_expected_def Let_def)

theorem live_tracks_covered_witness:
  "lm_descriptors (actor_run local_step (local_manager_new None) sample_publish) (Handle 1) = Some (Active 0)"
  using live_tracks_covered [OF sample_publish_run(2) refl, of 0]
  by (simp add: sample_publish_run(1) sample_track_def sample_info_def)

text \<open>Publish requests never collide: in every reachable state in which the allocator still has
  a handle, a publish request takes the branch that records a pending descriptor under a handle used
  by no descriptor and no track, and asks the server to publish.\<close>

theorem publish_request_accepted:
  assumes "actor_ok local_step local_ok (local_manager_new provider) as"
    and "s = actor_run local_step (local_manager_new provider) as"
    and "ha_value (lm_allocator s) < 0xFFFF"
  shows "\<exists>h. h \<notin> dom (lm_descriptors s) \<and> h \<notin> track_handle ` set (lm_tracks s) \<and>
    lm_descriptors (on_publish_request name c s) = (lm_descriptors s)(h \<mapsto> Pending c) \<and>
    lm_out (on_publish_request name c s) = lm_out s @
      [OutSfuPublishRequest \<lparr>spq_handle = h, spq_name = name, spq_uses_e2ee = (lm_encryption_provider s \<noteq> None)\<rparr>] \<and>
    lm_replies (on_publish_request name c s) = lm_replies s"
proof -
  have inv: "local_inv s"
    using local_actor.inv_reachable [OF assms(1)] assms(2) by simp
  have "unat (ha_value (lm_allocator s)) < 65535"
    using assms(3) by (simp add: word_less_nat_alt)
  then obtain h a where get: "handle_allocator_get (lm_allocator s) = (Some h, a)"
    by (auto simp: handle_allocator_get_def checked_add_def)
  then have "handle_allocator_get \<lparr>ha_value = ha_value (lm_allocator s)\<rparr> = (Some h, \<lparr>ha_value = ha_value a\<rparr>)"
    by (cases "lm_allocator s"; cases a) simp
  note fresh = handles_ok_allocate(1,2) [OF _ this, of "lm_descriptors s" "map track_handle (lm_tracks s)"]
  have "h \<notin> dom (lm_descriptors s)" "h \<notin> track_handle ` set (lm_tracks s)"
    using fresh inv by (auto simp: local_inv_def)
  then show ?thesis
    using get by (intro exI [of _ h]) (auto simp: on_publish_request_def send_out_def Let_def)
qed

theorem publish_request_accepted_witness:
  "\<exists>h. h \<notin> dom [Handle 1 \<mapsto> Active 0] \<and>
     lm_descriptors (on_publish_request ''b'' 1 (actor_run local_step (local_manager_new None) sample_publish)) =
       [Handle 1 \<mapsto> Active 0, h \<mapsto> Pending 1]"
proof -
  have "actor_ok local_step local_ok (local_manager_new None) sample_publish"
    by (simp add: sample_publish_def local_manager_new_def manager_input_send_def EVENT_BUFFER_COUNT_def
      deliver_def handle_event_def on_publish_request_def allocate_first send_out_def
      sample_choices_def sample_info_def Let_def)
  from publish_request_accepted [OF this refl, of "''b''" 1] show ?thesis
    by (auto simp: sample_publish_run(1))
qed

subsection \<open>A failed republication\<close>

definition orphaned :: "nat \<Rightarrow> local_manager \<Rightarrow> bool" where
  "orphaned t s \<longleftrightarrow> t < length (lm_tracks s) \<and> lt_state (lm_tracks s ! t) = Republishing \<and>
     (\<forall>h. lm_descriptors s h \<noteq> Some (Active t))"

lemma orphaned_frame:
  assumes "orphaned t s" and "t < length (lm_tracks s')" and "lt_state (lm_tracks s' ! t) = lt_state (lm_tracks s ! t)"
    and "\<And>h. lm_descriptors s' h = Some (Active t) \<Longrightarrow> lm_descriptors s h = Some (Active t)"
  shows "orphaned t s'"
  using assms unfolding orphaned_def by auto

lemma orphaned_set_state: "orphaned t s \<Longrightarrow> u \<noteq> t \<Longrightarrow> orphaned t (set_track_state u st s)"
  by (auto simp: orphaned_def set_track_state_def)

lemma orphaned_drop: "orphaned t s \<Longrightarrow> orphaned t (s\<lparr>lm_descriptors := (lm_descriptors s)(h := None)\<rparr>)"
  by (auto simp: orphaned_def)

lemma orphaned_update:
  "orphaned t s \<Longrightarrow> lt_state tr = lt_state (lm_tracks s ! u) \<Longrightarrow> orphaned t (s\<lparr>lm_tracks := (lm_tracks s)[u := tr]\<rparr>)"
  by (auto simp: orphaned_def nth_update)

lemma orphaned_reply [simp]: "orphaned t (reply c r s) \<longleftrightarrow> orphaned t s"
  by (simp add: orphaned_def)

lemma orphaned_send_out [simp]: "orphaned t (send_out e s) \<longleftrightarrow> orphaned t s"
  by (simp add: orphaned_def)

lemma orphaned_inbox [simp]: "orphaned t (s\<lparr>lm_inbox := es\<rparr>) \<longleftrightarrow> orphaned t s"
  by (simp add: orphaned_def)

lemma orphaned_remove_descriptor: "orphaned t s \<Longrightarrow> orphaned t (remove_descriptor h s)"
  by (auto simp: remove_descriptor_def Let_def orphaned_drop
      split: option.splits local_descriptor.splits intro!: orphaned_set_state) (auto simp: orphaned_def)

lemma orphaned_publish_request: "orphaned t s \<Longrightarrow> orphaned t (on_publish_request name c s)"
  by (auto simp: on_publish_request_def Let_def orphaned_def split: prod.splits option.splits)

lemma orphaned_publish_response: "orphaned t s \<Longrightarrow> orphaned t (on_sfu_publish_response r e s)"
  by (auto simp: on_sfu_publish_response_def Let_def create_local_track_def orphaned_def nth_append
      set_track_state_def nth_update split: option.splits local_descriptor.splits sum.splits)

lemma orphaned_republish: "orphaned t s \<Longrightarrow> orphaned t (on_republish_tracks r s)"
  using republish_loop_states [of t "s\<lparr>lm_descriptors := Map.empty\<rparr>" "lm_descriptors s" "ch_order r"]
  by (auto simp: orphaned_def on_republish_tracks_def length_republish_loop republish_loop_descriptors
      split: option.splits local_descriptor.splits if_splits)

lemma orphaned_shutdown_loop: "orphaned t s \<Longrightarrow> orphaned t (snd (shutdown_loop hs s))"
proof (induction hs s rule: shutdown_loop.induct)
  case (2 h hs s)
  have ne: "lm_descriptors s h \<noteq> Some (Active t)"
    using "2.prems" by (simp add: orphaned_def)
  have "orphaned t (set_track_state u Unpublished s)" if "lm_descriptors s h = Some (Active u)" for u
    using "2.prems" ne that by (intro orphaned_set_state) auto
  then show ?case
    using 2 by (auto simp: Let_def orphaned_update split: option.splits local_descriptor.splits)
qed simp

lemma orphaned_shutdown: "orphaned t s \<Longrightarrow> orphaned t (shutdown r s)"
  using orphaned_shutdown_loop [of t s "ch_order r"]
  by (auto simp: shutdown_def orphaned_def split: prod.splits bool.splits)

lemma orphaned_handle_event: "orphaned t s \<Longrightarrow> orphaned t (handle_event r e s)"
  by (cases e)
    (simp_all add: handle_event_def orphaned_publish_request on_publish_cancelled_def orphaned_drop
      on_unpublish_request_def orphaned_remove_descriptor orphaned_publish_response
      on_sfu_unpublish_response_def orphaned_republish orphaned_shutdown on_query_published_def,
     simp add: orphaned_def)

lemma orphaned_application_step:
  assumes "orphaned t s"
  shows "orphaned t (snd (try_push u f s))" "orphaned t (task_observe u s)"
    "orphaned t (task_frame u now room s)" "orphaned t (task_finish u s)"
    "orphaned t (wait_begin u s)" "orphaned t (wait_end u s)"
    "orphaned t (forwarder_closed h c s)" "orphaned t (snd (manager_input_send e s))"
proof -
  show "orphaned t (snd (try_push u f s))"
    using assms by (simp add: try_push_def Let_def orphaned_update split: publish_state.splits)
  show "orphaned t (wait_begin u s)" "orphaned t (wait_end u s)"
    using assms by (simp_all add: wait_begin_def wait_end_def Let_def orphaned_update)
  show "orphaned t (task_observe u s)"
    using assms by (simp add: task_observe_def Let_def orphaned_update)
  show "orphaned t (task_frame u now room s)"
    using assms
    by (simp add: task_frame_def Let_def orphaned_update split: list.splits prod.splits option.splits)
  show "orphaned t (task_finish u s)"
    using assms orphaned_update [of t s _ u] by (simp add: task_finish_def Let_def)
  show "orphaned t (forwarder_closed h c s)"
    using assms by (simp add: forwarder_closed_def orphaned_def)
  show "orphaned t (snd (manager_input_send e s))"
    using assms by (simp add: manager_input_send_def)
qed

lemma orphaned_step: "orphaned t s \<Longrightarrow> a \<noteq> LocalUnpublish t \<Longrightarrow> orphaned t (local_step s a)"
  by (cases a)
    (auto simp: deliver_def orphaned_handle_event local_unpublish_def orphaned_set_state
      orphaned_application_step split: list.splits)

lemma orphaned_run:
  "orphaned t s \<Longrightarrow> LocalUnpublish t \<notin> set as \<Longrightarrow> orphaned t (actor_run local_step s as)"
proof (induction as arbitrary: s)
  case (Cons a as)
  then have "orphaned t (local_step s a)"
    by (intro orphaned_step) auto
  with Cons show ?case by simp
qed simp

text \<open>C13. When the server rejects the republication of a track after a reconnect, the track is lost but
  not reported as such: its descriptor is gone, and whatever happens later, unless the application
  itself unpublishes or drops it, the track keeps the state \<open>Republishing\<close>, claims to be published,
  and refuses every frame as if a queue were full.\<close>

theorem failed_republish_orphans:
  assumes "local_inv s" and "lm_descriptors s (spr_handle e) = Some (Active t)"
    and "lt_state (lm_tracks s ! t) = Republishing" and "spr_result e = Inl err"
    and "LocalUnpublish t \<notin> set as"
    and "s' = actor_run local_step (on_sfu_publish_response r e s) as"
  shows "(\<forall>h. lm_descriptors s' h \<noteq> Some (Active t)) \<and> is_published (lm_tracks s' ! t) \<and>
    fst (try_push t frame s') = Inl (push_frame_error_new frame QueueFull)"
proof -
  have "lm_descriptors s h \<noteq> Some (Active t)" if "h \<noteq> spr_handle e" for h
    using local_inv_active(2) [OF assms(1), of h t] local_inv_active(2) [OF assms(1,2)] that by auto
  then have "orphaned t (on_sfu_publish_response r e s)"
    using assms(2-4) local_inv_active(1) [OF assms(1,2)]
    by (auto simp: orphaned_def on_sfu_publish_response_def Let_def)
  then have "orphaned t s'"
    unfolding assms(6) using assms(5) by (rule orphaned_run)
  then show ?thesis
    by (simp add: orphaned_def is_published_def try_push_def)
qed

definition sample_republishing :: local_manager where
  "sample_republishing =
     \<lparr>lm_encryption_provider = None, lm_allocator = \<lparr>ha_value = 1\<rparr>,
      lm_descriptors = [Handle 1 \<mapsto> Active 0], lm_status = Running, lm_inbox = [], lm_out = [],
      lm_tracks = [sample_track\<lparr>lt_state := Republishing\<rparr>], lm_replies = [], lm_closed = {}, lm_queries = []\<rparr>"

theorem failed_republish_orphans_witness:
  "is_published (lm_tracks (on_sfu_publish_response (sample_choices []) \<lparr>spr_handle = Handle 1, spr_result = Inl NotAllowed\<rparr>
      sample_republishing) ! 0) \<and>
   fst (try_push 0 (frame_new [1]) (on_sfu_publish_response (sample_choices [])
      \<lparr>spr_handle = Handle 1, spr_result = Inl NotAllowed\<rparr> sample_republishing)) =
     Inl (push_frame_error_new (frame_new [1]) QueueFull)"
proof -
  have "local_inv sample_republishing"
    by (simp add: local_inv_def handles_ok_def sample_republishing_def sample_track_def sample_info_def handle_wf_def)
  from failed_republish_orphans [OF this, of "\<lparr>spr_handle = Handle 1, spr_result = Inl NotAllowed\<rparr>" 0
      NotAllowed "[]" _ "sample_choices []" "frame_new [1]"]
  show ?thesis
    by (simp add: sample_republishing_def)
qed

subsection \<open>Republication and shutdown\<close>

text \<open>C14. A reconnect before an unpublished track's task has noticed revives the track: the manager
  overwrites the state \<open>Unpublished\<close> with \<open>Republishing\<close>, the task goes on, and the server's answer
  makes the track published again although the application has unpublished or dropped it.\<close>

theorem republish_revives_unpublished:
  assumes "local_inv s" and "lm_descriptors s h = Some (Active t)" and "h \<in> set (ch_order r)"
    and "lt_seen (lm_tracks s ! t) = Published" and "\<not> lt_done (lm_tracks s ! t)"
    and "spr_handle e = h" and "spr_result e = Inr info"
    and "s1 = on_republish_tracks r (local_unpublish t s)"
    and "s2 = on_sfu_publish_response r' e (task_observe t s1)"
  shows "is_published (lm_tracks s2 ! t) \<and> lt_seen (lm_tracks s2 ! t) = Republishing \<and>
    lm_descriptors s2 h = Some (Active t)"
proof -
  let ?s = "local_unpublish t s"
  have t: "t < length (lm_tracks s)" "track_handle (lm_tracks s ! t) = h"
    using local_inv_active [OF assms(1,2)] by auto
  then have len: "t < length (lm_tracks s1)"
    by (simp add: assms(8) on_republish_tracks_def length_republish_loop local_unpublish_def set_track_state_def)
  have st: "lt_state (lm_tracks s1 ! t) = Republishing"
    using assms(2,3,5) t republish_loop_states [of t "?s\<lparr>lm_descriptors := Map.empty\<rparr>" "lm_descriptors ?s" "ch_order r"]
    by (auto simp: assms(8) on_republish_tracks_def local_unpublish_def set_track_state_def)
  have seen: "lt_seen (lm_tracks s1 ! t) = Published"
      and running: "\<not> lt_done (lm_tracks s1 ! t)"
    using republish_loop_task_nth [of t "?s\<lparr>lm_descriptors := Map.empty\<rparr>" "lm_descriptors ?s" "ch_order r"] len t assms(4,5)
    by (simp_all add: assms(8) on_republish_tracks_def local_unpublish_def set_track_state_def)
  have D: "lm_descriptors s1 h = Some (Active t)"
    using assms(2,3) by (simp add: assms(8) on_republish_tracks_def republish_loop_descriptors local_unpublish_def)
  show ?thesis
    using st seen running D len assms(6,7)
    by (simp add: assms(9) task_observe_def on_sfu_publish_response_def set_track_state_def watch_send_state Let_def is_published_def)
qed

theorem republish_revives_unpublished_witness:
  "is_published (lm_tracks (on_sfu_publish_response (sample_choices []) \<lparr>spr_handle = Handle 1, spr_result = Inr sample_info\<rparr>
     (task_observe 0 (on_republish_tracks (sample_choices [Handle 1]) (local_unpublish 0 sample_republishing)))) ! 0)"
proof -
  have "local_inv sample_republishing"
    by (simp add: local_inv_def handles_ok_def sample_republishing_def sample_track_def sample_info_def handle_wf_def)
  from republish_revives_unpublished [OF this, of "Handle 1" 0 "sample_choices [Handle 1]"
      "\<lparr>spr_handle = Handle 1, spr_result = Inr sample_info\<rparr>" sample_info _ _ "sample_choices []"]
  show ?thesis
    by (simp add: sample_republishing_def sample_track_def sample_choices_def)
qed

definition unfinished :: "local_manager \<Rightarrow> handle \<Rightarrow> bool" where
  "unfinished s h \<longleftrightarrow> (\<exists>t. lm_descriptors s h = Some (Active t) \<and> \<not> lt_done (lm_tracks s ! t))"

lemma shutdown_loop_blocks:
  assumes "\<And>h t. lm_descriptors s h = Some (Active t) \<Longrightarrow> t < length (lm_tracks s) \<and> track_handle (lm_tracks s ! t) = h"
    and "distinct hs"
  shows "fst (shutdown_loop hs s) \<longleftrightarrow>
    filter (unfinished s) hs = [] \<or> length (lm_inbox s) + length (filter (unfinished s) hs) \<le> EVENT_BUFFER_COUNT"
  using assms
proof (induction hs s rule: shutdown_loop.induct)
  case (2 h hs s)
  show ?case
  proof (cases "lm_descriptors s h")
    case None
    then show ?thesis
      using "2.IH"(1) [OF None "2.prems"(1)] "2.prems"(2) by (simp add: unfinished_def)
  next
    case (Some d)
    show ?thesis
    proof (cases d)
      case (Pending c)
      have "unfinished (reply c (Inl PublishDisconnected) s) = unfinished s"
        by (simp add: unfinished_def fun_eq_iff)
      then show ?thesis
        using "2.IH"(2) [OF Some Pending] "2.prems" Some Pending by (simp add: unfinished_def)
    next
      case (Active t)
      define s1 where "s1 = set_track_state t Unpublished s"
      define tr where "tr = lm_tracks s1 ! t"
      define s2 where "s2 = s1\<lparr>lm_tracks := (lm_tracks s1)[t := tr\<lparr>lt_seen := Unpublished, lt_done := True\<rparr>],
          lm_inbox := lm_inbox s1 @ [UnpublishRequest (track_handle tr)]\<rparr>"
      note defs = s1_def tr_def s2_def set_track_state_def
      have th: "t < length (lm_tracks s)" "track_handle (lm_tracks s ! t) = h"
        using "2.prems"(1) Some Active by auto
      have prem: "u < length (lm_tracks s1) \<and> track_handle (lm_tracks s1 ! u) = g"
          if "lm_descriptors s1 g = Some (Active u)" for g u
        using that "2.prems"(1) [of g u] by (auto simp: defs nth_update)
      have prem': "u < length (lm_tracks s2) \<and> track_handle (lm_tracks s2 ! u) = g"
          if "lm_descriptors s2 g = Some (Active u)" for g u
        using that "2.prems"(1) [of g u] by (auto simp: defs nth_update)
      have other: "unfinished s1 g = unfinished s g" "unfinished s2 g = unfinished s g" if "g \<noteq> h" for g
        using that th "2.prems"(1) [of g]
        by (auto simp: unfinished_def defs nth_update split: if_splits)
      have dist: "distinct hs" "h \<notin> set hs" using "2.prems"(2) by simp_all
      then have filt: "filter (unfinished s1) hs = filter (unfinished s) hs"
          "filter (unfinished s2) hs = filter (unfinished s) hs"
        by (intro filter_cong refl other; blast)+
      have unf: "unfinished s h \<longleftrightarrow> \<not> lt_done tr"
        using Some Active th by (simp add: unfinished_def defs)
      have inbox: "lm_inbox s1 = lm_inbox s" "length (lm_inbox s2) = Suc (length (lm_inbox s))"
        by (simp_all add: s1_def s2_def)
      have step: "shutdown_loop (h # hs) s =
          (if lt_done tr then shutdown_loop hs s1
           else if length (lm_inbox s1) < EVENT_BUFFER_COUNT then shutdown_loop hs s2
           else (False, s1\<lparr>lm_tracks := (lm_tracks s1)[t := tr\<lparr>lt_seen := Unpublished\<rparr>]\<rparr>))"
        using Some Active by (simp add: Let_def s1_def s2_def tr_def)
      consider "lt_done tr" | "\<not> lt_done tr" "length (lm_inbox s1) < EVENT_BUFFER_COUNT"
        | "\<not> lt_done tr" "\<not> length (lm_inbox s1) < EVENT_BUFFER_COUNT" by blast
      then show ?thesis
      proof cases
        case 1
        from "2.IH"(3) [OF Some Active s1_def tr_def 1 prem dist(1)] filt unf 1 inbox
        show ?thesis unfolding step by simp
      next
        case 2
        from "2.IH"(4) [OF Some Active s1_def tr_def 2 prem' [unfolded s2_def] dist(1)]
        have "fst (shutdown_loop hs s2) \<longleftrightarrow> filter (unfinished s) hs = [] \<or>
            length (lm_inbox s2) + length (filter (unfinished s) hs) \<le> EVENT_BUFFER_COUNT"
          unfolding s2_def [symmetric] filt by simp
        with 2 unf inbox show ?thesis unfolding step by auto
      next
        case 3
        with unf inbox show ?thesis unfolding step by simp
      qed
    qed
  qed
qed simp

text \<open>C12. Shutting down ends exactly when the unpublish requests of the unfinished track tasks fit into
  the manager's own input queue of 16 events, which nobody reads any more; then every active track is
  unpublished and its task has ended. With more unfinished tracks the manager waits
  for a track task that waits for the manager.\<close>

theorem shutdown_ends_iff:
  assumes "local_inv s" and "distinct (ch_order r)" and "set (ch_order r) = dom (lm_descriptors s)"
  shows "(lm_status (shutdown r s) = Stopped \<longleftrightarrow>
      filter (unfinished s) (ch_order r) = [] \<or>
      length (lm_inbox s) + length (filter (unfinished s) (ch_order r)) \<le> 16) \<and>
    (lm_status (shutdown r s) = Stopped \<longrightarrow>
      (\<forall>h t. lm_descriptors s h = Some (Active t) \<longrightarrow> lt_done (lm_tracks (shutdown r s) ! t) \<and>
        (lt_done (lm_tracks s ! t) \<or> lt_state (lm_tracks (shutdown r s) ! t) = Unpublished)))"
proof -
  have act: "t < length (lm_tracks s) \<and> track_handle (lm_tracks s ! t) = h"
    if "lm_descriptors s h = Some (Active t)" for h t
    using local_inv_active [OF assms(1) that] by simp
  have "wound_down (lm_tracks s ! t) (lm_tracks (shutdown r s) ! t)"
    if "lm_descriptors s h = Some (Active t)" "fst (shutdown_loop (ch_order r) s)" for h t
  proof -
    have "h \<in> set (ch_order r)" using that(1) assms(3) by blast
    then show ?thesis
      using shutdown_loop_states [of t s "ch_order r"] act [OF that(1)] that
      by (auto simp: shutdown_def split: prod.splits)
  qed
  moreover have "lm_status (shutdown r s) = Stopped \<longleftrightarrow> fst (shutdown_loop (ch_order r) s)"
    by (auto simp: shutdown_def split: prod.splits bool.splits)
  ultimately show ?thesis
    using shutdown_loop_blocks [OF act assms(2)]
    unfolding wound_down_def EVENT_BUFFER_COUNT_def by blast
qed

text \<open>Seventeen published tracks and an empty queue: the shutdown does not end.\<close>

definition many_tracks :: "nat \<Rightarrow> local_manager" where
  "many_tracks n =
     (local_manager_new None)\<lparr>lm_allocator := \<lparr>ha_value = 17\<rparr>,
       lm_descriptors := map_of (map (\<lambda>i. (Handle (word_of_nat (Suc i)), Active i)) [0..<n]),
       lm_tracks := map (\<lambda>i. sample_track\<lparr>lt_info := sample_info\<lparr>dti_pub_handle := Handle (word_of_nat (Suc i))\<rparr>\<rparr>) [0..<n]\<rparr>"

lemma many_tracks_17: "[0..<17] = [0, 1, 2, 3, 4, 5, 6, 7, 8, 9, 10, 11, 12, 13, 14, 15, 16 :: nat]"
  by (simp add: upt_rec)

lemma many_tracks_inv: "local_inv (many_tracks 17)"
  by (simp add: local_inv_def handles_ok_def many_tracks_def many_tracks_17 local_manager_new_def
      handle_wf_def sample_track_def sample_info_def less_Suc_eq)

theorem shutdown_ends_iff_witness:
  "lm_status (shutdown (sample_choices (map (\<lambda>i. Handle (word_of_nat (Suc i))) [0..<17])) (many_tracks 17)) \<noteq> Stopped"
  using shutdown_ends_iff [OF many_tracks_inv, of "sample_choices (map (\<lambda>i. Handle (word_of_nat (Suc i))) [0..<17])"]
  by (simp add: many_tracks_def many_tracks_17 local_manager_new_def sample_choices_def unfinished_def
      sample_track_def)
definition republish_request :: "local_manager \<Rightarrow> handle \<Rightarrow> output_event option" where
  "republish_request s h =
     (case lm_descriptors s h of
        Some (Active t) \<Rightarrow>
          Some (OutSfuPublishRequest \<lparr>spq_handle = h, spq_name = dti_name (lt_info (lm_tracks s ! t)),
                  spq_uses_e2ee = dti_uses_e2ee (lt_info (lm_tracks s ! t))\<rparr>)
      | _ \<Rightarrow> None)"

definition republish_reply :: "local_manager \<Rightarrow> handle \<Rightarrow> (nat \<times> (publish_error + nat)) option" where
  "republish_reply s h =
     (case lm_descriptors s h of
        Some (Pending c) \<Rightarrow> if c \<in> lm_closed s then None else Some (c, Inl PublishDisconnected)
      | _ \<Rightarrow> None)"

lemma republish_loop_logs:
  assumes "map lt_info (lm_tracks x) = map lt_info (lm_tracks s)" and "lm_closed x = lm_closed s"
    and "\<And>h t. lm_descriptors s h = Some (Active t) \<Longrightarrow> t < length (lm_tracks s) \<and> track_handle (lm_tracks s ! t) = h"
  shows "lm_out (republish_loop (lm_descriptors s) hs x) = lm_out x @ List.map_filter (republish_request s) hs \<and>
    lm_replies (republish_loop (lm_descriptors s) hs x) = lm_replies x @ List.map_filter (republish_reply s) hs"
  using assms(1,2)
proof (induction hs arbitrary: x)
  case Nil
  then show ?case by (simp add: map_filter_simps)
next
  case (Cons h hs)
  show ?case
  proof (cases "lm_descriptors s h")
    case None
    with Cons.IH [OF Cons.prems] show ?thesis
      by (simp add: map_filter_simps republish_request_def republish_reply_def)
  next
    case (Some d)
    have len: "length (lm_tracks x) = length (lm_tracks s)"
      using Cons.prems(1) by (metis length_map)
    have "map lt_info (lm_tracks (republish_descriptor h d x)) = map lt_info (lm_tracks s)"
      "lm_closed (republish_descriptor h d x) = lm_closed s"
      using Cons.prems
      by (simp_all add: republish_descriptor_def set_track_state_def Let_def map_update_same split: local_descriptor.splits)
    note IH = Cons.IH [OF this]
    show ?thesis
    proof (cases d)
      case (Pending c)
      with Some IH Cons.prems(2) show ?thesis
        by (simp add: map_filter_simps republish_request_def republish_reply_def republish_descriptor_def reply_def)
    next
      case (Active t)
      have "lt_info (lm_tracks x ! t) = lt_info (lm_tracks s ! t)"
        using arg_cong [OF Cons.prems(1), of "\<lambda>l. l ! t"] assms(3) Some Active len by simp
      moreover have "lm_replies (set_track_state u st y) = lm_replies y" for u st y
        by (simp add: set_track_state_def)
      ultimately show ?thesis
        using Some Active IH assms(3) [of h t]
        by (simp add: map_filter_simps republish_request_def republish_reply_def republish_descriptor_def
            send_out_def Let_def)
    qed
  qed
qed

text \<open>After a full reconnect every active track is requested again under its own handle, name and
  encryption setting, in the iteration order of the map, and marked as republishing while its task runs; pending
  publications are answered with \<open>Disconnected\<close> and forgotten; no descriptor of an active track is lost.\<close>

theorem republish_tracks_spec:
  assumes "local_inv s" and "set (ch_order r) = dom (lm_descriptors s)"
    and "s' = on_republish_tracks r s"
  shows "lm_out s' = lm_out s @ List.map_filter (republish_request s) (ch_order r) \<and>
    lm_replies s' = lm_replies s @ List.map_filter (republish_reply s) (ch_order r) \<and>
    (\<forall>h. lm_descriptors s' h = (case lm_descriptors s h of Some (Active t) \<Rightarrow> Some (Active t) | _ \<Rightarrow> None)) \<and>
    (\<forall>h t. lm_descriptors s h = Some (Active t) \<longrightarrow>
       lt_done (lm_tracks s ! t) \<or> lt_state (lm_tracks s' ! t) = Republishing)"
proof -
  have act: "t < length (lm_tracks s) \<and> track_handle (lm_tracks s ! t) = h"
    if "lm_descriptors s h = Some (Active t)" for h t
    using local_inv_active [OF assms(1) that] by simp
  have D: "lm_descriptors s' h = (case lm_descriptors s h of Some (Active t) \<Rightarrow> Some (Active t) | _ \<Rightarrow> None)" for h
    using assms(2) by (auto simp: assms(3) on_republish_tracks_def republish_loop_descriptors dom_def
        split: option.splits local_descriptor.splits)
  have "lt_done (lm_tracks s ! t) \<or> lt_state (lm_tracks s' ! t) = Republishing"
    if "lm_descriptors s h = Some (Active t)" for h t
  proof -
    have "h \<in> set (ch_order r)" using that assms(2) by blast
    then show ?thesis
      using republish_loop_states [of t "s\<lparr>lm_descriptors := Map.empty\<rparr>" "lm_descriptors s" "ch_order r"]
        act [OF that] that by (auto simp: assms(3) on_republish_tracks_def)
  qed
  with D republish_loop_logs [OF _ _ act, of "s\<lparr>lm_descriptors := Map.empty\<rparr>" "ch_order r"] show ?thesis
    by (simp add: assms(3) on_republish_tracks_def)
qed

theorem republish_tracks_spec_witness:
  "lm_out (on_republish_tracks (sample_choices [Handle 1]) sample_republishing) =
     [OutSfuPublishRequest \<lparr>spq_handle = Handle 1, spq_name = ''temp'', spq_uses_e2ee = False\<rparr>]"
proof -
  have "local_inv sample_republishing"
    by (simp add: local_inv_def handles_ok_def sample_republishing_def sample_track_def sample_info_def handle_wf_def)
  from republish_tracks_spec [OF this _ refl, of "sample_choices [Handle 1]"] show ?thesis
    by (simp add: sample_republishing_def sample_choices_def map_filter_simps republish_request_def
        sample_track_def sample_info_def)
qed

text \<open>An accepted publication whose requester has gone is forgotten without telling the server, when
  the response is handled before the cancellation.\<close>

lemma cancelled_publication_not_withdrawn:
  assumes "lm_descriptors s (spr_handle e) = Some (Pending c)" and "c \<in> lm_closed s"
  shows "lm_out (on_publish_cancelled (spr_handle e) (on_sfu_publish_response r e s)) = lm_out s"
    "lm_descriptors (on_sfu_publish_response r e s) (spr_handle e) = None"
  using assms by (simp_all add: on_sfu_publish_response_def on_publish_cancelled_def)

end
