(* ===== verification/Remote_Manager.thy ===== *)
theory Remote_Manager
  imports Pipelines Track_Info
begin

text \<open>
  The manager of data tracks published by remote participants and the tasks of its subscriptions:
  \<^verbatim>\<open>livekit-datatrack/src/remote/manager.rs\<close>, \<^verbatim>\<open>remote/mod.rs\<close> and \<^verbatim>\<open>remote/events.rs\<close>.

  Remote tracks and subscription tasks are numbered; the manager's descriptors and the application
  share them. One step is one handler of the manager or one turn of a task. The order in which a hash
  map is iterated is a function from its set of keys to a list of them.
\<close>

section \<open>Options\<close>

record subscribe_options =
  so_buffer_size :: nat

definition subscribe_options_new :: subscribe_options where
  "subscribe_options_new = \<lparr>so_buffer_size = 16\<rparr>"

definition with_buffer_size :: "nat \<Rightarrow> subscribe_options \<Rightarrow> subscribe_options" where
  "with_buffer_size frames o' = o'\<lparr>so_buffer_size := (if frames = 0 then 1 else frames)\<rparr>"

record pipeline_options =
  po_max_partial_frames :: nat

definition pipeline_options_new :: pipeline_options where
  "pipeline_options_new = \<lparr>po_max_partial_frames = 1\<rparr>"

definition with_max_partial_frames :: "nat \<Rightarrow> pipeline_options \<Rightarrow> pipeline_options" where
  "with_max_partial_frames frames o' = o'\<lparr>po_max_partial_frames := (if frames = 0 then 1 else frames)\<rparr>"

section \<open>State and events\<close>

datatype subscribe_error =
    SubscribeUnpublished | SubscribeTimeout | SubscribeDisconnected | SubscribeInternal internal_error

record remote_track =
  rt_info :: data_track_info
  rt_publisher_identity :: string
  rt_published :: bool
  rt_max_partial_frames :: nat

record remote_task =
  rk_track :: nat
  rk_pipeline :: remote_pipeline
  rk_packets :: "packet list"
  rk_frames :: "data_track_frame list"
  rk_alive :: bool

datatype subscription_state = SubNone | SubPending "nat list" nat | SubActive handle nat

record remote_descriptor =
  rd_track :: nat
  rd_subscription :: subscription_state

datatype remote_output =
    OutUpdateSubscription sfu_update_subscription
  | OutTrackPublished nat
  | OutTrackUnpublished data_track_sid

record remote_manager =
  rm_decryption_provider :: "decryption_provider option"
  rm_descriptors :: "data_track_sid \<rightharpoonup> remote_descriptor"
  rm_sub_handles :: "handle \<rightharpoonup> data_track_sid"
  rm_out :: "remote_output list"
  rm_replies :: "(nat \<times> (subscribe_error + nat)) list"
  rm_tracks :: "remote_track list"
  rm_tasks :: "remote_task list"

type_synonym sid_order = "data_track_sid set \<Rightarrow> data_track_sid list"

definition PACKET_BUFFER_COUNT :: nat where "PACKET_BUFFER_COUNT = 16"

definition remote_manager_new :: "decryption_provider option \<Rightarrow> remote_manager" where
  "remote_manager_new provider =
     \<lparr>rm_decryption_provider = provider, rm_descriptors = Map.empty, rm_sub_handles = Map.empty,
      rm_out = [], rm_replies = [], rm_tracks = [], rm_tasks = []\<rparr>"

definition rm_send :: "remote_output \<Rightarrow> remote_manager \<Rightarrow> remote_manager" where
  "rm_send e s = s\<lparr>rm_out := rm_out s @ [e]\<rparr>"

definition rm_reply :: "nat \<Rightarrow> subscribe_error + nat \<Rightarrow> remote_manager \<Rightarrow> remote_manager" where
  "rm_reply c r s = s\<lparr>rm_replies := rm_replies s @ [(c, r)]\<rparr>"

abbreviation update_subscription :: "data_track_sid \<Rightarrow> bool \<Rightarrow> remote_output" where
  "update_subscription sid sub \<equiv> OutUpdateSubscription \<lparr>sus_sid = sid, sus_subscribe = sub\<rparr>"

section \<open>The handlers\<close>

definition on_subscribe_request ::
    "data_track_sid \<Rightarrow> subscribe_options \<Rightarrow> nat \<Rightarrow> remote_manager \<Rightarrow> remote_manager" where
  "on_subscribe_request sid options c s =
     (case rm_descriptors s sid of
        None \<Rightarrow> rm_reply c (Inl (SubscribeInternal UnknownTrack)) s
      | Some d \<Rightarrow>
          (case rd_subscription d of
             SubNone \<Rightarrow>
               let s = rm_send (update_subscription sid True) s
               in s\<lparr>rm_descriptors := (rm_descriptors s)(sid \<mapsto>
                     d\<lparr>rd_subscription := SubPending [c] (so_buffer_size options)\<rparr>)\<rparr>
           | SubPending cs n \<Rightarrow>
               s\<lparr>rm_descriptors := (rm_descriptors s)(sid \<mapsto> d\<lparr>rd_subscription := SubPending (cs @ [c]) n\<rparr>)\<rparr>
           | SubActive h k \<Rightarrow> rm_reply c (Inr k) s))"

definition on_unsubscribe_request :: "data_track_sid \<Rightarrow> remote_manager \<Rightarrow> remote_manager" where
  "on_unsubscribe_request sid s =
     (case rm_descriptors s sid of
        None \<Rightarrow> s
      | Some d \<Rightarrow>
          (case rd_subscription d of
             SubActive h k \<Rightarrow>
               rm_send (update_subscription sid False)
                 (s\<lparr>rm_descriptors := (rm_descriptors s)(sid \<mapsto> d\<lparr>rd_subscription := SubNone\<rparr>),
                    rm_sub_handles := (rm_sub_handles s)(h := None)\<rparr>)
           | _ \<Rightarrow> s))"

definition handle_track_published :: "string \<Rightarrow> data_track_info \<Rightarrow> remote_manager \<Rightarrow> remote_manager" where
  "handle_track_published who info s =
     (let sid = dti_sid info
      in if rm_descriptors s sid \<noteq> None then s
         else
           let track = \<lparr>rt_info = info, rt_publisher_identity = who, rt_published = True,
                        rt_max_partial_frames = po_max_partial_frames pipeline_options_new\<rparr>;
               t = length (rm_tracks s)
           in rm_send (OutTrackPublished t)
                (s\<lparr>rm_tracks := rm_tracks s @ [track],
                   rm_descriptors := (rm_descriptors s)(sid \<mapsto> \<lparr>rd_track = t, rd_subscription = SubNone\<rparr>)\<rparr>))"

text \<open>The track whose publisher and publisher handle match, in iteration order.\<close>

definition find_reassigned ::
    "sid_order \<Rightarrow> string \<Rightarrow> data_track_info \<Rightarrow> remote_manager \<Rightarrow> (data_track_sid \<times> remote_descriptor) option" where
  "find_reassigned ord who info s =
     (case find (\<lambda>sid. case rm_descriptors s sid of
                         None \<Rightarrow> False
                       | Some d \<Rightarrow> rt_publisher_identity (rm_tracks s ! rd_track d) = who \<and>
                           dti_pub_handle (rt_info (rm_tracks s ! rd_track d)) = dti_pub_handle info)
             (ord (dom (rm_descriptors s))) of
        None \<Rightarrow> None
      | Some sid \<Rightarrow> map_option (Pair sid) (rm_descriptors s sid))"

definition handle_sid_reassigned ::
    "sid_order \<Rightarrow> string \<Rightarrow> data_track_info \<Rightarrow> remote_manager \<Rightarrow> bool \<times> remote_manager" where
  "handle_sid_reassigned ord who info s =
     (case find_reassigned ord who info s of
        None \<Rightarrow> (False, s)
      | Some (old_sid, d) \<Rightarrow>
          let t = rd_track d; track = rm_tracks s ! t
          in if dti_name (rt_info track) \<noteq> dti_name info \<or> dti_uses_e2ee (rt_info track) \<noteq> dti_uses_e2ee info
             then (False, s)
             else
               let new_sid = dti_sid info;
                   s = s\<lparr>rm_descriptors := (rm_descriptors s)(old_sid := None),
                         rm_tracks := (rm_tracks s)[t := track\<lparr>rt_info := (rt_info track)\<lparr>dti_sid := new_sid\<rparr>\<rparr>]\<rparr>;
                   s = (case rd_subscription d of
                          SubNone \<Rightarrow> s
                        | _ \<Rightarrow> rm_send (update_subscription new_sid True) s);
                   s = (case rd_subscription d of
                          SubActive h k \<Rightarrow> s\<lparr>rm_sub_handles := (rm_sub_handles s)(h \<mapsto> new_sid)\<rparr>
                        | _ \<Rightarrow> s)
               in (True, s\<lparr>rm_descriptors := (rm_descriptors s)(new_sid \<mapsto> d)\<rparr>))"

definition handle_track_unpublished :: "data_track_sid \<Rightarrow> remote_manager \<Rightarrow> remote_manager" where
  "handle_track_unpublished sid s =
     (case rm_descriptors s sid of
        None \<Rightarrow> s
      | Some d \<Rightarrow>
          let s = s\<lparr>rm_descriptors := (rm_descriptors s)(sid := None)\<rparr>;
              s = (case rd_subscription d of
                     SubActive h k \<Rightarrow> s\<lparr>rm_sub_handles := (rm_sub_handles s)(h := None)\<rparr>
                   | _ \<Rightarrow> s);
              t = rd_track d
          in rm_send (OutTrackUnpublished sid)
               (s\<lparr>rm_tracks := (rm_tracks s)[t := (rm_tracks s ! t)\<lparr>rt_published := False\<rparr>]\<rparr>))"

fun publish_infos :: "sid_order \<Rightarrow> string \<Rightarrow> data_track_info list \<Rightarrow> remote_manager \<Rightarrow> remote_manager" where
  "publish_infos ord who [] s = s"
| "publish_infos ord who (info # infos) s =
     publish_infos ord who infos
       (if rm_descriptors s (dti_sid info) \<noteq> None then s
        else case handle_sid_reassigned ord who info s of
               (True, s') \<Rightarrow> s'
             | (False, s') \<Rightarrow> handle_track_published who info s')"

fun publish_updates ::
    "sid_order \<Rightarrow> (string \<times> data_track_info list) list \<Rightarrow> remote_manager \<Rightarrow> remote_manager" where
  "publish_updates ord [] s = s"
| "publish_updates ord ((who, infos) # us) s = publish_updates ord us (publish_infos ord who infos s)"

definition stale_sids ::
    "sid_order \<Rightarrow> string \<Rightarrow> data_track_info list \<Rightarrow> remote_manager \<Rightarrow> data_track_sid list" where
  "stale_sids ord who infos s =
     filter (\<lambda>sid. (case rm_descriptors s sid of
                      None \<Rightarrow> False
                    | Some d \<Rightarrow> rt_publisher_identity (rm_tracks s ! rd_track d) = who) \<and>
                   sid \<notin> dti_sid ` set infos)
       (ord (dom (rm_descriptors s)))"

fun unpublish_stale ::
    "sid_order \<Rightarrow> (string \<times> data_track_info list) list \<Rightarrow> remote_manager \<Rightarrow> remote_manager" where
  "unpublish_stale ord [] s = s"
| "unpublish_stale ord ((who, infos) # us) s =
     unpublish_stale ord us (fold handle_track_unpublished (stale_sids ord who infos s) s)"

text \<open>The second loop iterates over a map of its own, with the participants in the order \<open>whos\<close>.\<close>

definition on_sfu_publication_updates ::
    "sid_order \<Rightarrow> string list \<Rightarrow> (string \<times> data_track_info list) list \<Rightarrow> remote_manager \<Rightarrow> remote_manager" where
  "on_sfu_publication_updates ord whos updates s =
     (if updates = [] then s
      else unpublish_stale ord (List.map_filter (\<lambda>who. map_option (Pair who) (map_of updates who)) whos)
             (publish_updates ord updates s))"

definition on_set_pipeline_options ::
    "data_track_sid \<Rightarrow> pipeline_options \<Rightarrow> remote_manager \<Rightarrow> remote_manager" where
  "on_set_pipeline_options sid options s =
     (case rm_descriptors s sid of
        None \<Rightarrow> s
      | Some d \<Rightarrow>
          let t = rd_track d
          in s\<lparr>rm_tracks := (rm_tracks s)[t := (rm_tracks s ! t)\<lparr>rt_max_partial_frames := po_max_partial_frames options\<rparr>]\<rparr>)"

definition register_subscriber_handle :: "handle \<Rightarrow> data_track_sid \<Rightarrow> remote_manager \<Rightarrow> remote_manager" where
  "register_subscriber_handle assigned sid s =
     (case rm_descriptors s sid of
        None \<Rightarrow> s
      | Some d \<Rightarrow>
          (case rd_subscription d of
             SubNone \<Rightarrow> s
           | SubActive h k \<Rightarrow>
               s\<lparr>rm_sub_handles := ((rm_sub_handles s)(h := None))(assigned \<mapsto> sid),
                 rm_descriptors := (rm_descriptors s)(sid \<mapsto> d\<lparr>rd_subscription := SubActive assigned k\<rparr>)\<rparr>
           | SubPending cs buffer_size \<Rightarrow>
               let track = rm_tracks s ! rd_track d;
                   provider = (if dti_uses_e2ee (rt_info track) then rm_decryption_provider s else None);
                   task = \<lparr>rk_track = rd_track d,
                           rk_pipeline = remote_pipeline_new (rt_publisher_identity track) provider,
                           rk_packets = [], rk_frames = [], rk_alive = True\<rparr>;
                   k = length (rm_tasks s)
               in fold (\<lambda>c. rm_reply c (Inr k)) cs
                    (s\<lparr>rm_tasks := rm_tasks s @ [task],
                       rm_descriptors := (rm_descriptors s)(sid \<mapsto> d\<lparr>rd_subscription := SubActive assigned k\<rparr>),
                       rm_sub_handles := (rm_sub_handles s)(assigned \<mapsto> sid)\<rparr>)))"

definition on_sfu_subscriber_handles ::
    "(handle \<times> data_track_sid) list \<Rightarrow> remote_manager \<Rightarrow> remote_manager" where
  "on_sfu_subscriber_handles mapping s = fold (\<lambda>(h, sid). register_subscriber_handle h sid) mapping s"

definition on_packet_received :: "bytes \<Rightarrow> remote_manager \<Rightarrow> remote_manager" where
  "on_packet_received raw s =
     (case packet_deserialize raw of
        Inl _ \<Rightarrow> s
      | Inr packet \<Rightarrow>
          (case rm_sub_handles s (hdr_track_handle (pkt_header packet)) of
             None \<Rightarrow> s
           | Some sid \<Rightarrow>
               (case rm_descriptors s sid of
                  None \<Rightarrow> s
                | Some d \<Rightarrow>
                    (case rd_subscription d of
                       SubActive h k \<Rightarrow>
                         let task = rm_tasks s ! k
                         in if rk_alive task \<and> length (rk_packets task) < PACKET_BUFFER_COUNT
                            then s\<lparr>rm_tasks := (rm_tasks s)[k := task\<lparr>rk_packets := rk_packets task @ [packet]\<rparr>]\<rparr>
                            else s
                     | _ \<Rightarrow> s))))"

definition on_resend_subscription_updates :: "sid_order \<Rightarrow> remote_manager \<Rightarrow> remote_manager" where
  "on_resend_subscription_updates ord s =
     fold rm_send
       (List.map_filter (\<lambda>sid. case rm_descriptors s sid of
            None \<Rightarrow> None
          | Some d \<Rightarrow> if rd_subscription d = SubNone then None else Some (update_subscription sid True))
          (ord (dom (rm_descriptors s)))) s"

definition shutdown_descriptor :: "remote_descriptor \<Rightarrow> remote_manager \<Rightarrow> remote_manager" where
  "shutdown_descriptor d s =
     (let t = rd_track d;
          s = s\<lparr>rm_tracks := (rm_tracks s)[t := (rm_tracks s ! t)\<lparr>rt_published := False\<rparr>]\<rparr>
      in case rd_subscription d of
           SubNone \<Rightarrow> s
         | SubPending cs _ \<Rightarrow> fold (\<lambda>c. rm_reply c (Inl SubscribeDisconnected)) cs s
         | SubActive h k \<Rightarrow> s\<lparr>rm_tasks := (rm_tasks s)[k := (rm_tasks s ! k)\<lparr>rk_alive := False\<rparr>]\<rparr>)"

definition remote_shutdown :: "sid_order \<Rightarrow> remote_manager \<Rightarrow> remote_manager" where
  "remote_shutdown ord s =
     (let s' = fold (\<lambda>sid s'. case rm_descriptors s sid of None \<Rightarrow> s' | Some d \<Rightarrow> shutdown_descriptor d s')
                (ord (dom (rm_descriptors s))) s
      in s'\<lparr>rm_descriptors := Map.empty, rm_sub_handles := Map.empty\<rparr>)"

section \<open>Subscription tasks\<close>

text \<open>The branches of the task's loop, state updates first: the track was unpublished; the last
  receiver of frames is gone, upon which the task requests to unsubscribe; a packet is processed.\<close>

definition task_published_changed :: "nat \<Rightarrow> remote_manager \<Rightarrow> remote_manager" where
  "task_published_changed k s =
     (let task = rm_tasks s ! k
      in if rt_published (rm_tracks s ! rk_track task) then s
         else s\<lparr>rm_tasks := (rm_tasks s)[k := task\<lparr>rk_alive := False\<rparr>]\<rparr>)"

definition task_receivers_gone :: "nat \<Rightarrow> remote_manager \<Rightarrow> data_track_sid option \<times> remote_manager" where
  "task_receivers_gone k s =
     (let task = rm_tasks s ! k
      in if rk_alive task
         then (Some (dti_sid (rt_info (rm_tracks s ! rk_track task))),
               s\<lparr>rm_tasks := (rm_tasks s)[k := task\<lparr>rk_alive := False\<rparr>]\<rparr>)
         else (None, s))"

definition task_receive :: "nat \<Rightarrow> remote_manager \<Rightarrow> remote_manager" where
  "task_receive k s =
     (let task = rm_tasks s ! k
      in case rk_packets task of
           [] \<Rightarrow> s
         | packet # packets \<Rightarrow>
             if \<not> rk_alive task then s
             else
               let (frame, p) = process_packet (rt_max_partial_frames (rm_tracks s ! rk_track task)) packet (rk_pipeline task)
               in s\<lparr>rm_tasks := (rm_tasks s)[k := task\<lparr>rk_packets := packets, rk_pipeline := p,
                    rk_frames := rk_frames task @ (case frame of None \<Rightarrow> [] | Some f \<Rightarrow> [f])\<rparr>]\<rparr>)"

datatype remote_event =
    SubscribeRequest data_track_sid subscribe_options nat
  | UnsubscribeRequest data_track_sid
  | SfuPublicationUpdates sid_order "string list" "(string \<times> data_track_info list) list"
  | SfuSubscriberHandles "(handle \<times> data_track_sid) list"
  | SetPipelineOptions data_track_sid pipeline_options
  | PacketReceived bytes
  | ResendSubscriptionUpdates sid_order
  | RemoteShutdown sid_order
  | TaskPublishedChanged nat
  | TaskReceiversGone nat
  | TaskReceive nat

fun remote_step :: "remote_manager \<Rightarrow> remote_event \<Rightarrow> remote_manager" where
  "remote_step s (SubscribeRequest sid options c) = on_subscribe_request sid options c s"
| "remote_step s (UnsubscribeRequest sid) = on_unsubscribe_request sid s"
| "remote_step s (SfuPublicationUpdates ord whos us) = on_sfu_publication_updates ord whos us s"
| "remote_step s (SfuSubscriberHandles m) = on_sfu_subscriber_handles m s"
| "remote_step s (SetPipelineOptions sid options) = on_set_pipeline_options sid options s"
| "remote_step s (PacketReceived raw) = on_packet_received raw s"
| "remote_step s (ResendSubscriptionUpdates ord) = on_resend_subscription_updates ord s"
| "remote_step s (RemoteShutdown ord) = remote_shutdown ord s"
| "remote_step s (TaskPublishedChanged k) = task_published_changed k s"
| "remote_step s (TaskReceiversGone k) = snd (task_receivers_gone k s)"
| "remote_step s (TaskReceive k) = task_receive k s"

section \<open>The invariant\<close>

abbreviation track_cell :: "remote_track \<Rightarrow> data_track_sid \<times> bool" where
  "track_cell track \<equiv> (dti_sid (rt_info track), rt_published track)"

text \<open>Each descriptor refers to a published track that carries its identifier, each active
  subscription to a task of that track, and the routing index only maps a handle to the identifier
  of a track that is subscribed under this handle.\<close>

definition routing_ok ::
    "(data_track_sid \<rightharpoonup> remote_descriptor) \<Rightarrow> (handle \<rightharpoonup> data_track_sid) \<Rightarrow>
     (data_track_sid \<times> bool) list \<Rightarrow> nat list \<Rightarrow> bool" where
  "routing_ok D H ts ks \<longleftrightarrow>
     finite (dom D) \<and>
     (\<forall>sid d. D sid = Some d \<longrightarrow> rd_track d < length ts \<and> ts ! rd_track d = (sid, True)) \<and>
     (\<forall>sid d h k. D sid = Some d \<longrightarrow> rd_subscription d = SubActive h k \<longrightarrow> k < length ks \<and> ks ! k = rd_track d) \<and>
     (\<forall>h sid. H h = Some sid \<longrightarrow> (\<exists>d k. D sid = Some d \<and> rd_subscription d = SubActive h k))"

definition remote_inv :: "remote_manager \<Rightarrow> bool" where
  "remote_inv s \<longleftrightarrow> routing_ok (rm_descriptors s) (rm_sub_handles s)
     (map track_cell (rm_tracks s)) (map rk_track (rm_tasks s))"

lemma routing_okD:
  assumes "routing_ok D H ts ks"
  shows "finite (dom D)" "D sid = Some d \<Longrightarrow> rd_track d < length ts \<and> ts ! rd_track d = (sid, True)"
    "D sid = Some d \<Longrightarrow> rd_subscription d = SubActive h k \<Longrightarrow> k < length ks \<and> ks ! k = rd_track d"
    "H h = Some sid \<Longrightarrow> \<exists>d k. D sid = Some d \<and> rd_subscription d = SubActive h k"
  using assms unfolding routing_ok_def by blast+

text \<open>Changing one descriptor: the identifier keeps its track, and the index entries that pointed to
  it stay only if they still agree with the subscription.\<close>

lemma routing_ok_upd:
  assumes ok: "routing_ok D H ts ks" and d: "D sid = Some d"
    and tr: "rd_track d' = rd_track d"
    and act: "\<And>h k. rd_subscription d' = SubActive h k \<Longrightarrow> k < length (ks @ ks') \<and> (ks @ ks') ! k = rd_track d"
    and old: "\<And>h g. H' h = Some g \<Longrightarrow> g \<noteq> sid \<Longrightarrow> H h = Some g"
    and new: "\<And>h. H' h = Some sid \<Longrightarrow> \<exists>k. rd_subscription d' = SubActive h k"
  shows "routing_ok (D(sid \<mapsto> d')) H' ts (ks @ ks')"
  unfolding routing_ok_def
proof (intro conjI allI impI)
  show "finite (dom (D(sid \<mapsto> d')))"
    using routing_okD(1) [OF ok] by simp
  fix g e
  assume g: "(D(sid \<mapsto> d')) g = Some e"
  show "rd_track e < length ts" "ts ! rd_track e = (g, True)"
    using g routing_okD(2) [OF ok d] routing_okD(2) [OF ok, of g e] tr by (auto split: if_splits)
  fix h k
  assume k: "rd_subscription e = SubActive h k"
  show "k < length (ks @ ks')" "(ks @ ks') ! k = rd_track e"
    using g k act tr routing_okD(3) [OF ok, of g e h k] by (auto simp: nth_append split: if_splits)
next
  fix h g
  assume g: "H' h = Some g"
  show "\<exists>e k. (D(sid \<mapsto> d')) g = Some e \<and> rd_subscription e = SubActive h k"
  proof (cases "g = sid")
    case True
    with new g show ?thesis by auto
  next
    case False
    with old [OF g] routing_okD(4) [OF ok, of h g] show ?thesis by auto
  qed
qed

lemma routing_ok_remove:
  assumes ok: "routing_ok D H ts ks" and d: "D sid = Some d"
    and H': "\<And>h g. H' h = Some g \<Longrightarrow> H h = Some g \<and> g \<noteq> sid"
  shows "routing_ok (D(sid := None)) H' (ts[rd_track d := (sid, False)]) ks"
  unfolding routing_ok_def
proof (intro conjI allI impI)
  show "finite (dom (D(sid := None)))"
    using routing_okD(1) [OF ok] by simp
  fix g e
  assume "(D(sid := None)) g = Some e"
  then have g: "D g = Some e" "g \<noteq> sid" by (auto split: if_splits)
  then have "rd_track e \<noteq> rd_track d"
    using routing_okD(2) [OF ok d] routing_okD(2) [OF ok g(1)] by auto
  then show "rd_track e < length (ts[rd_track d := (sid, False)])" "ts[rd_track d := (sid, False)] ! rd_track e = (g, True)"
    using routing_okD(2) [OF ok g(1)] by auto
  fix h k
  assume "rd_subscription e = SubActive h k"
  then show "k < length ks" "ks ! k = rd_track e"
    using routing_okD(3) [OF ok g(1)] by auto
next
  fix h g
  assume "H' h = Some g"
  then show "\<exists>e k. (D(sid := None)) g = Some e \<and> rd_subscription e = SubActive h k"
    using H' routing_okD(4) [OF ok, of h g] by auto
qed

lemma routing_ok_publish:
  assumes ok: "routing_ok D H ts ks" and new: "D sid = None"
  shows "routing_ok (D(sid \<mapsto> \<lparr>rd_track = length ts, rd_subscription = SubNone\<rparr>)) H (ts @ [(sid, True)]) ks"
  unfolding routing_ok_def
proof (intro conjI allI impI)
  let ?d = "\<lparr>rd_track = length ts, rd_subscription = SubNone\<rparr>"
  show "finite (dom (D(sid \<mapsto> ?d)))"
    using routing_okD(1) [OF ok] by simp
  fix g e
  assume g: "(D(sid \<mapsto> ?d)) g = Some e"
  then show "rd_track e < length (ts @ [(sid, True)])" "(ts @ [(sid, True)]) ! rd_track e = (g, True)"
    using routing_okD(2) [OF ok, of g e] by (auto simp: nth_append split: if_splits)
  fix h k
  assume "rd_subscription e = SubActive h k"
  with g show "k < length ks" "ks ! k = rd_track e"
    using routing_okD(3) [OF ok, of g e h k] by (auto split: if_splits)
next
  fix h g
  assume "H h = Some g"
  then show "\<exists>e k. (D(sid \<mapsto> \<lparr>rd_track = length ts, rd_subscription = SubNone\<rparr>)) g = Some e \<and> rd_subscription e = SubActive h k"
    using new routing_okD(4) [OF ok, of h g] by auto
qed

lemma routing_ok_reassign:
  assumes ok: "routing_ok D H ts ks" and d: "D old = Some d" and new: "D new = None"
    and H': "\<And>h g. H' h = Some g \<Longrightarrow> if g = new then \<exists>k. rd_subscription d = SubActive h k else g \<noteq> old \<and> H h = Some g"
  shows "routing_ok ((D(old := None))(new \<mapsto> d)) H' (ts[rd_track d := (new, True)]) ks"
  unfolding routing_ok_def
proof (intro conjI allI impI)
  have ne: "old \<noteq> new" using d new by auto
  show "finite (dom ((D(old := None))(new \<mapsto> d)))"
    using routing_okD(1) [OF ok] by simp
  fix g e
  assume g: "((D(old := None))(new \<mapsto> d)) g = Some e"
  have other: "rd_track e \<noteq> rd_track d" if "g \<noteq> new"
    using routing_okD(2) [OF ok d] routing_okD(2) [OF ok, of g e] g that by (auto split: if_splits)
  show "rd_track e < length (ts[rd_track d := (new, True)])" "ts[rd_track d := (new, True)] ! rd_track e = (g, True)"
    using g other routing_okD(2) [OF ok d] routing_okD(2) [OF ok, of g e] by (auto split: if_splits)
  fix h k
  assume k: "rd_subscription e = SubActive h k"
  show "k < length ks" "ks ! k = rd_track e"
    using g k routing_okD(3) [OF ok d, of h k] routing_okD(3) [OF ok, of g e h k] by (auto split: if_splits)
next
  fix h g
  assume g: "H' h = Some g"
  show "\<exists>e k. ((D(old := None))(new \<mapsto> d)) g = Some e \<and> rd_subscription e = SubActive h k"
    using H' [OF g] routing_okD(4) [OF ok, of h g] by (auto split: if_splits)
qed
lemma rm_send_simps [simp]:
  "rm_descriptors (rm_send e s) = rm_descriptors s" "rm_sub_handles (rm_send e s) = rm_sub_handles s"
  "rm_tracks (rm_send e s) = rm_tracks s" "rm_tasks (rm_send e s) = rm_tasks s"
  "rm_replies (rm_send e s) = rm_replies s" "rm_out (rm_send e s) = rm_out s @ [e]"
  by (simp_all add: rm_send_def)

lemma rm_reply_simps [simp]:
  "rm_descriptors (rm_reply c r s) = rm_descriptors s" "rm_sub_handles (rm_reply c r s) = rm_sub_handles s"
  "rm_tracks (rm_reply c r s) = rm_tracks s" "rm_tasks (rm_reply c r s) = rm_tasks s"
  "rm_out (rm_reply c r s) = rm_out s"
  by (simp_all add: rm_reply_def)

lemma fold_frame:
  assumes "\<And>x s. f (g x s) = f s"
  shows "f (fold g xs s) = f s"
  by (induction xs arbitrary: s) (simp_all add: assms)

lemmas fold_reply_simps [simp] =
  fold_frame [of rm_descriptors "\<lambda>c. rm_reply c r" for r, OF rm_reply_simps(1)]
  fold_frame [of rm_sub_handles "\<lambda>c. rm_reply c r" for r, OF rm_reply_simps(2)]
  fold_frame [of rm_tracks "\<lambda>c. rm_reply c r" for r, OF rm_reply_simps(3)]
  fold_frame [of rm_tasks "\<lambda>c. rm_reply c r" for r, OF rm_reply_simps(4)]
  fold_frame [of rm_descriptors rm_send, OF rm_send_simps(1)]
  fold_frame [of rm_sub_handles rm_send, OF rm_send_simps(2)]
  fold_frame [of rm_tracks rm_send, OF rm_send_simps(3)]
  fold_frame [of rm_tasks rm_send, OF rm_send_simps(4)]

lemma remote_inv_subscribe [inv_intros]:
  assumes inv: "remote_inv s"
  shows "remote_inv (on_subscribe_request sid opts c s)"
proof -
  let ?D = "rm_descriptors s"
  have ok: "routing_ok ?D (rm_sub_handles s) (map track_cell (rm_tracks s)) (map rk_track (rm_tasks s))"
    using inv by (simp add: remote_inv_def)
  have *: "routing_ok (?D(sid \<mapsto> d\<lparr>rd_subscription := SubPending cs n\<rparr>)) (rm_sub_handles s)
      (map track_cell (rm_tracks s)) (map rk_track (rm_tasks s) @ [])"
    if "?D sid = Some d" "\<And>h k. rd_subscription d \<noteq> SubActive h k" for d cs n
  proof (rule routing_ok_upd [OF ok that(1)])
    fix h assume "rm_sub_handles s h = Some sid"
    from routing_okD(4) [OF ok this] that
    show "\<exists>k. rd_subscription (d\<lparr>rd_subscription := SubPending cs n\<rparr>) = SubActive h k" by auto
  qed simp_all
  then show ?thesis
    using inv by (auto simp: on_subscribe_request_def remote_inv_def Let_def
        split: option.splits subscription_state.splits)
qed

lemma index_unique:
  assumes "routing_ok D H ts ks" and "H g = Some sid" and "D sid = Some d" and "rd_subscription d = SubActive h k"
  shows "g = h"
  using routing_okD(4) [OF assms(1,2)] assms(3,4) by auto

lemma remote_inv_unsubscribe [inv_intros]:
  assumes inv: "remote_inv s"
  shows "remote_inv (on_unsubscribe_request sid s)"
proof -
  let ?D = "rm_descriptors s" and ?H = "rm_sub_handles s"
  have ok: "routing_ok ?D ?H (map track_cell (rm_tracks s)) (map rk_track (rm_tasks s))"
    using inv by (simp add: remote_inv_def)
  have "routing_ok (?D(sid \<mapsto> d\<lparr>rd_subscription := SubNone\<rparr>)) (?H(h := None))
      (map track_cell (rm_tracks s)) (map rk_track (rm_tasks s) @ [])"
    if "?D sid = Some d" "rd_subscription d = SubActive h k" for d h k
    using index_unique [OF ok _ that] that
    by (intro routing_ok_upd [OF ok that(1)]) (auto split: if_splits)
  with inv show ?thesis
    by (auto simp: on_unsubscribe_request_def remote_inv_def split: option.splits subscription_state.splits)
qed

lemma remote_inv_published [inv_intros]:
  "remote_inv s \<Longrightarrow> remote_inv (handle_track_published who info s)"
  using routing_ok_publish [of "rm_descriptors s" _ "map track_cell (rm_tracks s)"]
  by (auto simp: handle_track_published_def remote_inv_def Let_def)

lemma remote_inv_unpublished [inv_intros]:
  assumes inv: "remote_inv s"
  shows "remote_inv (handle_track_unpublished sid s)"
proof (cases "rm_descriptors s sid")
  case (Some d)
  let ?D = "rm_descriptors s" and ?H = "rm_sub_handles s"
  let ?H' = "case rd_subscription d of SubActive h k \<Rightarrow> ?H(h := None) | _ \<Rightarrow> ?H"
  have ok: "routing_ok ?D ?H (map track_cell (rm_tracks s)) (map rk_track (rm_tasks s))"
    using inv by (simp add: remote_inv_def)
  have cell: "rd_track d < length (rm_tracks s)" "dti_sid (rt_info (rm_tracks s ! rd_track d)) = sid"
    using routing_okD(2) [OF ok Some] by auto
  have "routing_ok (?D(sid := None)) ?H' ((map track_cell (rm_tracks s))[rd_track d := (sid, False)])
      (map rk_track (rm_tasks s))"
  proof (rule routing_ok_remove [OF ok Some])
    fix h g assume "?H' h = Some g"
    then show "?H h = Some g \<and> g \<noteq> sid"
      using routing_okD(4) [OF ok, of h g] index_unique [OF ok, of h g] Some
      by (auto split: subscription_state.splits if_splits)
  qed
  with Some cell show ?thesis
    by (auto simp: handle_track_unpublished_def remote_inv_def Let_def map_update
        split: subscription_state.splits)
qed (use inv in \<open>simp add: handle_track_unpublished_def\<close>)

lemma find_reassignedD:
  assumes "find_reassigned ord who info s = Some (old, d)"
  shows "rm_descriptors s old = Some d" "rt_publisher_identity (rm_tracks s ! rd_track d) = who"
    "dti_pub_handle (rt_info (rm_tracks s ! rd_track d)) = dti_pub_handle info"
  using assms
  by (auto simp: find_reassigned_def find_Some_iff split: option.splits)

lemma remote_inv_reassigned [inv_intros]:
  assumes inv: "remote_inv s" and new: "rm_descriptors s (dti_sid info) = None"
  shows "remote_inv (snd (handle_sid_reassigned ord who info s))"
proof (cases "find_reassigned ord who info s")
  case (Some x)
  obtain old d where x: "x = (old, d)" by fastforce
  let ?D = "rm_descriptors s" and ?H = "rm_sub_handles s"
  let ?H' = "case rd_subscription d of SubActive h k \<Rightarrow> ?H(h \<mapsto> dti_sid info) | _ \<Rightarrow> ?H"
  have ok: "routing_ok ?D ?H (map track_cell (rm_tracks s)) (map rk_track (rm_tasks s))"
    using inv by (simp add: remote_inv_def)
  have d: "?D old = Some d"
    using find_reassignedD(1) Some x by blast
  have cell: "rd_track d < length (rm_tracks s)" "rt_published (rm_tracks s ! rd_track d)"
    using routing_okD(2) [OF ok d] by auto
  have "routing_ok ((?D(old := None))(dti_sid info \<mapsto> d)) ?H'
      ((map track_cell (rm_tracks s))[rd_track d := (dti_sid info, True)]) (map rk_track (rm_tasks s))"
  proof (rule routing_ok_reassign [OF ok d new])
    fix h g assume "?H' h = Some g"
    then show "if g = dti_sid info then \<exists>k. rd_subscription d = SubActive h k else g \<noteq> old \<and> ?H h = Some g"
      using routing_okD(4) [OF ok, of h g] index_unique [OF ok, of h g] d new
      by (auto split: subscription_state.splits if_splits)
  qed
  with Some x cell inv show ?thesis
    by (auto simp: handle_sid_reassigned_def remote_inv_def Let_def map_update split: subscription_state.splits)
qed (use inv in \<open>simp add: handle_sid_reassigned_def\<close>)

lemma remote_inv_publish_infos [inv_intros]:
  "remote_inv s \<Longrightarrow> remote_inv (publish_infos ord who infos s)"
proof (induction infos arbitrary: s)
  case (Cons info infos)
  show ?case
  proof (cases "rm_descriptors s (dti_sid info) = None")
    case True
    obtain b s' where s': "handle_sid_reassigned ord who info s = (b, s')" by fastforce
    have "remote_inv s'"
      using remote_inv_reassigned [OF Cons.prems True, of ord who] s' by simp
    then show ?thesis
      using Cons.IH True s' remote_inv_published by (auto split: bool.splits)
  qed (use Cons in simp)
qed simp

lemma remote_inv_publication_updates [inv_intros]:
  assumes "remote_inv s"
  shows "remote_inv (on_sfu_publication_updates ord whos us s)"
proof -
  have 1: "remote_inv (publish_updates ord us s)" for us
    using assms by (induction us arbitrary: s) (auto simp: remote_inv_publish_infos)
  have 2: "remote_inv (fold handle_track_unpublished sids x)" if "remote_inv x" for x sids
    using that by (induction sids arbitrary: x) (auto intro: inv_intros)
  have "remote_inv (unpublish_stale ord us x)" if "remote_inv x" for x us
    using that by (induction us arbitrary: x) (auto simp: 2)
  with 1 assms show ?thesis
    by (simp add: on_sfu_publication_updates_def)
qed
lemma remote_inv_register [inv_intros]:
  assumes inv: "remote_inv s"
  shows "remote_inv (register_subscriber_handle a sid s)"
proof (cases "rm_descriptors s sid")
  case (Some d)
  let ?D = "rm_descriptors s" and ?H = "rm_sub_handles s" and ?ks = "map rk_track (rm_tasks s)"
  have ok: "routing_ok ?D ?H (map track_cell (rm_tracks s)) ?ks"
    using inv by (simp add: remote_inv_def)
  show ?thesis
  proof (cases "rd_subscription d")
    case SubNone
    with Some inv show ?thesis by (simp add: register_subscriber_handle_def)
  next
    case (SubPending cs n)
    have "routing_ok (?D(sid \<mapsto> d\<lparr>rd_subscription := SubActive a (length (rm_tasks s))\<rparr>)) (?H(a \<mapsto> sid))
        (map track_cell (rm_tracks s)) (?ks @ [rd_track d])"
      using routing_okD(4) [OF ok, of _ sid] Some SubPending
      by (intro routing_ok_upd [OF ok Some]) (auto simp: nth_append split: if_splits)
    with Some SubPending show ?thesis
      by (simp add: register_subscriber_handle_def remote_inv_def Let_def)
  next
    case (SubActive h k)
    have "routing_ok (?D(sid \<mapsto> d\<lparr>rd_subscription := SubActive a k\<rparr>)) ((?H(h := None))(a \<mapsto> sid))
        (map track_cell (rm_tracks s)) (?ks @ [])"
      using index_unique [OF ok _ Some SubActive] routing_okD(3) [OF ok Some SubActive]
      by (intro routing_ok_upd [OF ok Some]) (auto split: if_splits)
    with Some SubActive show ?thesis
      by (simp add: register_subscriber_handle_def remote_inv_def)
  qed
qed (use inv in \<open>simp add: register_subscriber_handle_def\<close>)

lemma remote_inv_subscriber_handles [inv_intros]:
  "remote_inv s \<Longrightarrow> remote_inv (on_sfu_subscriber_handles m s)"
  unfolding on_sfu_subscriber_handles_def
  by (induction m arbitrary: s) (auto simp: remote_inv_register)

lemma remote_inv_frame:
  assumes "remote_inv s" and "rm_descriptors s' = rm_descriptors s" "rm_sub_handles s' = rm_sub_handles s"
    and "map track_cell (rm_tracks s') = map track_cell (rm_tracks s)"
    and "map rk_track (rm_tasks s') = map rk_track (rm_tasks s)"
  shows "remote_inv s'"
  using assms by (simp add: remote_inv_def)

lemma remote_inv_others [inv_intros]:
  assumes inv: "remote_inv s"
  shows "remote_inv (on_set_pipeline_options sid opts s)" "remote_inv (on_packet_received raw s)"
    "remote_inv (on_resend_subscription_updates ord s)" "remote_inv (remote_shutdown ord s)"
    "remote_inv (task_published_changed k s)" "remote_inv (snd (task_receivers_gone k s))"
    "remote_inv (task_receive k s)"
proof -
  show "remote_inv (on_set_pipeline_options sid opts s)"
    by (rule remote_inv_frame [OF inv])
      (simp_all add: on_set_pipeline_options_def Let_def map_update_same split: option.splits)
  show "remote_inv (on_packet_received raw s)"
    by (rule remote_inv_frame [OF inv])
      (simp_all add: on_packet_received_def Let_def map_update_same split: option.splits sum.splits subscription_state.splits)
  show "remote_inv (on_resend_subscription_updates ord s)"
    by (rule remote_inv_frame [OF inv]) (simp_all add: on_resend_subscription_updates_def)
  show "remote_inv (remote_shutdown ord s)"
    by (simp add: remote_shutdown_def remote_inv_def Let_def routing_ok_def)
  show "remote_inv (task_published_changed k s)"
    by (rule remote_inv_frame [OF inv]) (simp_all add: task_published_changed_def Let_def map_update_same)
  show "remote_inv (snd (task_receivers_gone k s))"
    by (rule remote_inv_frame [OF inv]) (simp_all add: task_receivers_gone_def Let_def map_update_same)
  show "remote_inv (task_receive k s)"
    by (rule remote_inv_frame [OF inv])
      (simp_all add: task_receive_def Let_def map_update_same split: list.splits prod.splits)
qed

interpretation remote_actor: actor "remote_manager_new provider" remote_step "\<lambda>_ _. True" remote_inv for provider
proof
  show "remote_inv (remote_manager_new provider)"
    by (simp add: remote_inv_def routing_ok_def remote_manager_new_def)
  show "remote_inv (remote_step s e)" if "remote_inv s" for s e
    using that by (cases e) (simp_all add: inv_intros)
qed

section \<open>Properties of the remote manager\<close>

text \<open>C10. Packets are never delivered to the wrong subscription: in every reachable state, a received
  packet either changes nothing or is appended to the queue of one live task, whose track is
  subscribed under exactly the handle in the packet's header.\<close>

theorem packet_routed:
  assumes "s = actor_run remote_step (remote_manager_new provider) es"
    and "packet_deserialize raw = Inr packet"
  shows "on_packet_received raw s = s \<or>
    (\<exists>sid d k. rm_descriptors s sid = Some d \<and>
       rd_subscription d = SubActive (hdr_track_handle (pkt_header packet)) k \<and>
       k < length (rm_tasks s) \<and> rk_track (rm_tasks s ! k) = rd_track d \<and> rk_alive (rm_tasks s ! k) \<and>
       dti_sid (rt_info (rm_tracks s ! rd_track d)) = sid \<and>
       on_packet_received raw s = s\<lparr>rm_tasks := (rm_tasks s)[k := (rm_tasks s ! k)\<lparr>rk_packets :=
         rk_packets (rm_tasks s ! k) @ [packet]\<rparr>]\<rparr>)"
proof (cases "rm_sub_handles s (hdr_track_handle (pkt_header packet))")
  case (Some sid)
  have inv: "remote_inv s"
    unfolding assms(1) by (rule remote_actor.inv_reachable) simp
  then have ok: "routing_ok (rm_descriptors s) (rm_sub_handles s) (map track_cell (rm_tracks s)) (map rk_track (rm_tasks s))"
    by (simp add: remote_inv_def)
  from routing_okD(4) [OF ok Some] obtain d k where d: "rm_descriptors s sid = Some d"
    and k: "rd_subscription d = SubActive (hdr_track_handle (pkt_header packet)) k"
    by blast
  have "k < length (rm_tasks s)" "rk_track (rm_tasks s ! k) = rd_track d"
    "dti_sid (rt_info (rm_tracks s ! rd_track d)) = sid"
    using routing_okD(2) [OF ok d] routing_okD(3) [OF ok d k] by auto
  with d k Some assms(2) show ?thesis
    by (auto simp: on_packet_received_def Let_def)
qed (use assms(2) in \<open>simp add: on_packet_received_def\<close>)

definition remote_info :: "string \<Rightarrow> u16 \<Rightarrow> data_track_info" where
  "remote_info sid h = \<lparr>dti_sid = DataTrackSid sid, dti_pub_handle = Handle h, dti_name = sid, dti_uses_e2ee = False\<rparr>"

definition sample_order :: sid_order where
  "sample_order S = filter (\<lambda>x. x \<in> S) [DataTrackSid ''DTR_a'', DataTrackSid ''DTR_b'']"

definition sample_remote_events :: "remote_event list" where
  "sample_remote_events =
     [SfuPublicationUpdates sample_order [''bob''] [(''bob'', [remote_info ''DTR_a'' 1, remote_info ''DTR_b'' 2])],
      SubscribeRequest (DataTrackSid ''DTR_a'') subscribe_options_new 0,
      SubscribeRequest (DataTrackSid ''DTR_b'') subscribe_options_new 1,
      SfuSubscriberHandles [(Handle 7, DataTrackSid ''DTR_a''), (Handle 8, DataTrackSid ''DTR_b'')]]"

definition sample_remote :: remote_manager where
  "sample_remote =
     \<lparr>rm_decryption_provider = None,
      rm_descriptors = [DataTrackSid ''DTR_a'' \<mapsto> \<lparr>rd_track = 0, rd_subscription = SubActive (Handle 7) 0\<rparr>,
                        DataTrackSid ''DTR_b'' \<mapsto> \<lparr>rd_track = 1, rd_subscription = SubActive (Handle 8) 1\<rparr>],
      rm_sub_handles = [Handle 7 \<mapsto> DataTrackSid ''DTR_a'', Handle 8 \<mapsto> DataTrackSid ''DTR_b''],
      rm_out = [OutTrackPublished 0, OutTrackPublished 1,
                update_subscription (DataTrackSid ''DTR_a'') True, update_subscription (DataTrackSid ''DTR_b'') True],
      rm_replies = [(0, Inr 0), (1, Inr 1)],
      rm_tracks = map (\<lambda>i. \<lparr>rt_info = i, rt_publisher_identity = ''bob'', rt_published = True, rt_max_partial_frames = 1\<rparr>)
                    [remote_info ''DTR_a'' 1, remote_info ''DTR_b'' 2],
      rm_tasks = map (\<lambda>t. \<lparr>rk_track = t, rk_pipeline = remote_pipeline_new ''bob'' None, rk_packets = [],
                         rk_frames = [], rk_alive = True\<rparr>) [0, 1]\<rparr>"

lemma sample_remote_run: "actor_run remote_step (remote_manager_new None) sample_remote_events = sample_remote"
  by (simp add: sample_remote_events_def sample_remote_def remote_manager_new_def on_sfu_publication_updates_def
      handle_sid_reassigned_def find_reassigned_def handle_track_published_def sample_order_def stale_sids_def
      map_filter_simps remote_info_def on_subscribe_request_def subscribe_options_new_def rm_send_def rm_reply_def
      on_sfu_subscriber_handles_def register_subscriber_handle_def pipeline_options_new_def Let_def fun_upd_twist)
definition packet_seven :: packet where
  "packet_seven =
     \<lparr>pkt_header = \<lparr>hdr_marker = Single, hdr_track_handle = Handle 7, hdr_sequence = 0, hdr_frame_number = 0,
        hdr_timestamp = 0, hdr_extensions = extensions_default\<rparr>, pkt_payload = [1]\<rparr>"

lemma packet_seven_decodes:
  "packet_deserialize (header_bytes (pkt_header packet_seven) @ pkt_payload packet_seven) = Inr packet_seven"
  by (rule packet_deserialize_bytes)
    (simp add: packet_wf_def header_wf_def packet_seven_def handle_wf_def extensions_wf_def extensions_default_def)

theorem packet_routed_witness:
  "\<exists>sid d k. rm_descriptors sample_remote sid = Some d \<and> rd_subscription d = SubActive (Handle 7) k \<and>
     on_packet_received (header_bytes (pkt_header packet_seven) @ pkt_payload packet_seven) sample_remote =
       sample_remote\<lparr>rm_tasks := (rm_tasks sample_remote)[k := (rm_tasks sample_remote ! k)\<lparr>rk_packets :=
         rk_packets (rm_tasks sample_remote ! k) @ [packet_seven]\<rparr>]\<rparr>"
proof -
  have h: "hdr_track_handle (pkt_header packet_seven) = Handle 7"
    by (simp add: packet_seven_def)
  have "on_packet_received (header_bytes (pkt_header packet_seven) @ pkt_payload packet_seven) sample_remote \<noteq> sample_remote"
    by (simp add: on_packet_received_def packet_seven_decodes h) (simp add: sample_remote_def PACKET_BUFFER_COUNT_def)
  with packet_routed [OF sample_remote_run [symmetric] packet_seven_decodes] show ?thesis
    unfolding h by blast
qed

subsection \<open>Completeness of the routing index\<close>

definition index_complete :: "remote_manager \<Rightarrow> bool" where
  "index_complete s \<longleftrightarrow>
     (\<forall>sid d h k. rm_descriptors s sid = Some d \<longrightarrow> rd_subscription d = SubActive h k \<longrightarrow> rm_sub_handles s h = Some sid)"

text \<open>The server assigns a handle that is free or already belongs to the same track.\<close>

fun handles_free :: "(handle \<times> data_track_sid) list \<Rightarrow> remote_manager \<Rightarrow> bool" where
  "handles_free [] s \<longleftrightarrow> True"
| "handles_free ((h, sid) # m) s \<longleftrightarrow>
     rm_sub_handles s h \<in> {None, Some sid} \<and> handles_free m (register_subscriber_handle h sid s)"

lemma index_complete_inj:
  assumes "index_complete s" and "rm_descriptors s sid = Some d" "rd_subscription d = SubActive h k"
    and "rm_descriptors s g = Some e" "rd_subscription e = SubActive h k'"
  shows "g = sid"
  using assms unfolding index_complete_def by (metis option.inject)

lemma index_complete_subscribe:
  "index_complete s \<Longrightarrow> index_complete (on_subscribe_request sid opts c s)"
  by (auto simp: index_complete_def on_subscribe_request_def Let_def split: option.splits subscription_state.splits)

lemma index_complete_unsubscribe:
  assumes "index_complete s"
  shows "index_complete (on_unsubscribe_request sid s)"
proof -
  note inj = index_complete_inj [OF assms]
  show ?thesis
    using assms
    by (auto dest: inj simp: index_complete_def on_unsubscribe_request_def split: option.splits subscription_state.splits)
qed

lemma index_complete_published:
  "index_complete s \<Longrightarrow> index_complete (handle_track_published who info s)"
  by (auto simp: index_complete_def handle_track_published_def Let_def)

lemma index_complete_unpublished:
  assumes "index_complete s"
  shows "index_complete (handle_track_unpublished sid s)"
proof -
  note inj = index_complete_inj [OF assms]
  show ?thesis
    using assms
    by (auto dest: inj simp: index_complete_def handle_track_unpublished_def Let_def split: option.splits subscription_state.splits)
qed

lemma index_complete_reassigned:
  assumes "index_complete s"
  shows "index_complete (snd (handle_sid_reassigned ord who info s))"
proof (cases "find_reassigned ord who info s")
  case (Some x)
  obtain old d where x: "x = (old, d)" by fastforce
  have d: "rm_descriptors s old = Some d"
    using find_reassignedD(1) Some x by blast
  show ?thesis
    using assms Some x d
    by (auto dest: index_complete_inj [OF assms d] simp: index_complete_def handle_sid_reassigned_def Let_def split: subscription_state.splits)
qed (use assms in \<open>simp add: handle_sid_reassigned_def\<close>)

lemma index_complete_register:
  assumes "index_complete s" and "rm_sub_handles s a \<in> {None, Some sid}"
  shows "index_complete (register_subscriber_handle a sid s)"
proof -
  note inj = index_complete_inj [OF assms(1)]
  have free: "h' \<noteq> a" if "rm_descriptors s g = Some e" "rd_subscription e = SubActive h' k'" "g \<noteq> sid" for g e h' k'
    using assms that unfolding index_complete_def by fastforce
  show ?thesis
    using assms(1)
    by (auto dest: inj free simp: index_complete_def register_subscriber_handle_def Let_def split: option.splits subscription_state.splits)
qed

lemma index_complete_handles:
  "index_complete s \<Longrightarrow> handles_free m s \<Longrightarrow> index_complete (on_sfu_subscriber_handles m s)"
  unfolding on_sfu_subscriber_handles_def
  by (induction m arbitrary: s) (auto simp: index_complete_register)

lemma index_complete_publish_infos:
  "index_complete s \<Longrightarrow> index_complete (publish_infos ord who infos s)"
proof (induction infos arbitrary: s)
  case (Cons info infos)
  obtain b s' where s': "handle_sid_reassigned ord who info s = (b, s')" by fastforce
  have "index_complete s'"
    using index_complete_reassigned [OF Cons.prems, of ord who info] s' by simp
  with Cons s' show ?case
    by (auto simp: index_complete_published split: bool.splits)
qed simp

lemma index_complete_publication_updates:
  assumes "index_complete s"
  shows "index_complete (on_sfu_publication_updates ord whos us s)"
proof -
  have 1: "index_complete (publish_updates ord us s)" for us
    using assms by (induction us arbitrary: s) (auto simp: index_complete_publish_infos)
  have 2: "index_complete (fold handle_track_unpublished sids x)" if "index_complete x" for x sids
    using that by (induction sids arbitrary: x) (auto simp: index_complete_unpublished)
  have "index_complete (unpublish_stale ord us x)" if "index_complete x" for x us
    using that by (induction us arbitrary: x) (auto simp: 2)
  with 1 assms show ?thesis
    by (simp add: on_sfu_publication_updates_def)
qed

lemma index_complete_frame:
  "index_complete s \<Longrightarrow> rm_descriptors s' = rm_descriptors s \<Longrightarrow> rm_sub_handles s' = rm_sub_handles s \<Longrightarrow> index_complete s'"
  by (simp add: index_complete_def)

lemma index_complete_others:
  assumes "index_complete s"
  shows "index_complete (on_set_pipeline_options sid opts s)" "index_complete (on_packet_received raw s)"
    "index_complete (on_resend_subscription_updates ord s)" "index_complete (remote_shutdown ord s)"
    "index_complete (task_published_changed k s)" "index_complete (snd (task_receivers_gone k s))"
    "index_complete (task_receive k s)"
  by (rule index_complete_frame [OF assms];
      simp add: on_set_pipeline_options_def on_packet_received_def on_resend_subscription_updates_def
        task_published_changed_def task_receivers_gone_def task_receive_def Let_def
      split: option.splits sum.splits subscription_state.splits list.splits prod.splits
    | simp add: remote_shutdown_def index_complete_def Let_def)+

definition free_ok :: "remote_manager \<Rightarrow> remote_event \<Rightarrow> bool" where
  "free_ok s e \<longleftrightarrow> (case e of SfuSubscriberHandles m \<Rightarrow> handles_free m s | _ \<Rightarrow> True)"

interpretation complete_actor:
  actor "remote_manager_new provider" remote_step free_ok index_complete for provider
proof
  show "index_complete (remote_manager_new provider)"
    by (simp add: index_complete_def remote_manager_new_def)
  show "index_complete (remote_step s e)" if "index_complete s" "free_ok s e" for s e
    using that
    by (cases e) (simp_all add: free_ok_def index_complete_subscribe index_complete_unsubscribe
        index_complete_publication_updates index_complete_handles index_complete_others)
qed
text \<open>C11. Every active subscription is routable as long as the server assigns handles that are free or
  already belong to the track: then, in every reachable state, the index maps the handle of each active
  subscription to its track.\<close>

theorem subscriptions_routable:
  assumes "actor_ok remote_step free_ok (remote_manager_new provider) es"
    and "s = actor_run remote_step (remote_manager_new provider) es"
    and "rm_descriptors s sid = Some d" and "rd_subscription d = SubActive h k"
  shows "rm_sub_handles s h = Some sid"
  using complete_actor.inv_reachable [OF assms(1)] assms(2-4) by (auto simp: index_complete_def)

lemma sample_remote_free: "actor_ok remote_step free_ok (remote_manager_new None) sample_remote_events"
  by (simp add: sample_remote_events_def remote_manager_new_def on_sfu_publication_updates_def
      handle_sid_reassigned_def find_reassigned_def handle_track_published_def sample_order_def stale_sids_def
      map_filter_simps remote_info_def on_subscribe_request_def subscribe_options_new_def rm_send_def rm_reply_def
      on_sfu_subscriber_handles_def register_subscriber_handle_def pipeline_options_new_def Let_def free_ok_def)

theorem subscriptions_routable_witness:
  "rm_sub_handles sample_remote (Handle 7) = Some (DataTrackSid ''DTR_a'')"
  using subscriptions_routable [OF sample_remote_free sample_remote_run [symmetric], of "DataTrackSid ''DTR_a''"]
  by (simp add: sample_remote_def)

text \<open>C15. Without that assumption the index loses entries: when the server exchanges the handles of two
  active subscriptions, as it may after a reconnect, registering the second assignment removes the
  entry that the first one made, and all packets under that handle are dropped although the
  subscription is active.\<close>

theorem exchanged_handles_lose_packets:
  assumes "rm_descriptors s a = Some da" "rd_subscription da = SubActive ha ka"
    and "rm_descriptors s b = Some db" "rd_subscription db = SubActive hb kb"
    and "a \<noteq> b" "ha \<noteq> hb"
    and "s' = on_sfu_subscriber_handles [(hb, a), (ha, b)] s"
    and "packet_deserialize raw = Inr packet" "hdr_track_handle (pkt_header packet) = hb"
  shows "rm_descriptors s' a = Some (da\<lparr>rd_subscription := SubActive hb ka\<rparr>) \<and> on_packet_received raw s' = s'"
  using assms by (simp add: on_sfu_subscriber_handles_def register_subscriber_handle_def on_packet_received_def)

theorem exchanged_handles_lose_packets_witness:
  "on_packet_received (header_bytes (pkt_header packet_seven) @ pkt_payload packet_seven)
     (on_sfu_subscriber_handles [(Handle 7, DataTrackSid ''DTR_b''), (Handle 8, DataTrackSid ''DTR_a'')] sample_remote) =
   on_sfu_subscriber_handles [(Handle 7, DataTrackSid ''DTR_b''), (Handle 8, DataTrackSid ''DTR_a'')] sample_remote"
  using exchanged_handles_lose_packets [of sample_remote "DataTrackSid ''DTR_b''"
      "\<lparr>rd_track = 1, rd_subscription = SubActive (Handle 8) 1\<rparr>" "Handle 8" 1 "DataTrackSid ''DTR_a''"
      "\<lparr>rd_track = 0, rd_subscription = SubActive (Handle 7) 0\<rparr>" "Handle 7" 0 _ _ packet_seven, OF _ _ _ _ _ _ refl packet_seven_decodes]
  by (simp add: sample_remote_def packet_seven_def)

subsection \<open>Publication updates\<close>

definition published_by :: "remote_manager \<Rightarrow> string \<Rightarrow> data_track_sid \<Rightarrow> bool" where
  "published_by s who sid \<longleftrightarrow>
     (\<exists>d. rm_descriptors s sid = Some d \<and> rt_publisher_identity (rm_tracks s ! rd_track d) = who)"

lemma unpublished_frame:
  "rm_descriptors (handle_track_unpublished sid s) = (rm_descriptors s)(sid := None)"
  "map rt_publisher_identity (rm_tracks (handle_track_unpublished sid s)) = map rt_publisher_identity (rm_tracks s)"
  by (auto simp: handle_track_unpublished_def Let_def map_update_same fun_eq_iff
      split: option.splits subscription_state.splits)

lemma fold_unpublished_frame:
  "rm_descriptors (fold handle_track_unpublished sids s) = rm_descriptors s |` (- set sids)"
  "map rt_publisher_identity (rm_tracks (fold handle_track_unpublished sids s)) = map rt_publisher_identity (rm_tracks s)"
  by (induction sids arbitrary: s) (auto simp: unpublished_frame fun_eq_iff restrict_map_def)

lemma publisher_nth:
  assumes "map rt_publisher_identity (rm_tracks x) = map rt_publisher_identity (rm_tracks y)" "t < length (rm_tracks y)"
  shows "rt_publisher_identity (rm_tracks x ! t) = rt_publisher_identity (rm_tracks y ! t)"
proof -
  have "length (rm_tracks x) = length (rm_tracks y)"
    using assms(1) by (metis length_map)
  with arg_cong [OF assms(1), of "\<lambda>l. l ! t"] assms(2) show ?thesis by simp
qed

lemma remote_inv_track: "remote_inv s \<Longrightarrow> rm_descriptors s sid = Some d \<Longrightarrow> rd_track d < length (rm_tracks s)"
  using routing_okD(2) [of "rm_descriptors s" _ "map track_cell (rm_tracks s)"] by (auto simp: remote_inv_def)

lemma fold_unpublished_by:
  assumes "remote_inv s"
  shows "published_by (fold handle_track_unpublished sids s) who sid \<longleftrightarrow> published_by s who sid \<and> sid \<notin> set sids"
  using publisher_nth [OF fold_unpublished_frame(2)] remote_inv_track [OF assms]
  by (auto simp: published_by_def fold_unpublished_frame restrict_map_def)

lemma fold_unpublished_inv: "remote_inv s \<Longrightarrow> remote_inv (fold handle_track_unpublished sids s)"
  by (induction sids arbitrary: s) (auto intro: inv_intros)

lemma unpublish_stale_by:
  assumes "remote_inv s" and "\<And>S. finite S \<Longrightarrow> set (ord S) = S"
    and "published_by (unpublish_stale ord us s) who sid"
  shows "published_by s who sid \<and> (\<forall>infos. (who, infos) \<in> set us \<longrightarrow> sid \<in> dti_sid ` set infos)"
  using assms(1,3)
proof (induction us arbitrary: s)
  case (Cons u us)
  obtain w infos where u: "u = (w, infos)" by fastforce
  let ?s = "fold handle_track_unpublished (stale_sids ord w infos s) s"
  have inv: "remote_inv ?s" by (rule fold_unpublished_inv [OF Cons.prems(1)])
  have 1: "published_by ?s who sid \<and> (\<forall>infos. (who, infos) \<in> set us \<longrightarrow> sid \<in> dti_sid ` set infos)"
    using Cons.IH [OF inv] Cons.prems(2) u by simp
  then have 2: "published_by s who sid" "sid \<notin> set (stale_sids ord w infos s)"
    using fold_unpublished_by [OF Cons.prems(1)] by auto
  have "finite (dom (rm_descriptors s))"
    using Cons.prems(1) routing_okD(1) by (auto simp: remote_inv_def)
  then have "sid \<in> dti_sid ` set infos" if "w = who"
    using 2 assms(2) that by (auto simp: stale_sids_def published_by_def dom_def)
  with 1 2 u show ?case by auto
qed simp
definition unaffected :: "string \<Rightarrow> remote_manager \<Rightarrow> remote_manager \<Rightarrow> bool" where
  "unaffected w s s' \<longleftrightarrow>
     (\<forall>sid. published_by s w sid = published_by s' w sid \<and>
            (published_by s w sid \<longrightarrow> rm_descriptors s' sid = rm_descriptors s sid))"

lemma unaffected_refl [simp]: "unaffected w s s"
  by (simp add: unaffected_def)

lemma unaffected_trans: "unaffected w s s' \<Longrightarrow> unaffected w s' s'' \<Longrightarrow> unaffected w s s''"
  by (auto simp: unaffected_def)

lemma unaffected_published:
  assumes "remote_inv s" and "w \<noteq> who"
  shows "unaffected w s (handle_track_published who info s)"
  using remote_inv_track [OF assms(1)] assms(2)
  by (auto simp: unaffected_def published_by_def handle_track_published_def Let_def nth_append)

lemma unaffected_reassigned:
  assumes inv: "remote_inv s" and w: "w \<noteq> who" and new: "rm_descriptors s (dti_sid info) = None"
  shows "unaffected w s (snd (handle_sid_reassigned ord who info s))"
proof (cases "find_reassigned ord who info s")
  case (Some x)
  obtain old d where x: "x = (old, d)" by fastforce
  let ?s = "snd (handle_sid_reassigned ord who info s)"
  have d: "rm_descriptors s old = Some d" "rt_publisher_identity (rm_tracks s ! rd_track d) = who"
    using find_reassignedD Some x by blast+
  have cases: "?s = s \<or> rm_descriptors ?s = ((rm_descriptors s)(old := None))(dti_sid info \<mapsto> d)"
    using Some x by (auto simp: handle_sid_reassigned_def Let_def split: subscription_state.splits)
  have "map rt_publisher_identity (rm_tracks ?s) = map rt_publisher_identity (rm_tracks s)"
    using Some x by (auto simp: handle_sid_reassigned_def Let_def map_update_same split: subscription_state.splits)
  note pub = publisher_nth [OF this] remote_inv_track [OF inv]
  from cases show ?thesis
  proof
    assume D: "rm_descriptors ?s = ((rm_descriptors s)(old := None))(dti_sid info \<mapsto> d)"
    show ?thesis
      unfolding unaffected_def published_by_def D
      using d new pub w by (auto split: if_splits)
  qed simp
qed (simp add: handle_sid_reassigned_def)

lemma unaffected_publish_infos:
  assumes "remote_inv s" and "w \<noteq> who"
  shows "unaffected w s (publish_infos ord who infos s)"
  using assms(1)
proof (induction infos arbitrary: s)
  case (Cons info infos)
  show ?case
  proof (cases "rm_descriptors s (dti_sid info) = None")
    case True
    obtain b s' where s': "handle_sid_reassigned ord who info s = (b, s')" by fastforce
    have inv: "remote_inv s'" and un: "unaffected w s s'"
      using remote_inv_reassigned [OF Cons.prems True, of ord who]
        unaffected_reassigned [OF Cons.prems assms(2) True, of ord] s' by simp_all
    show ?thesis
      using True s' unaffected_trans [OF un] Cons.IH [OF inv]
        Cons.IH [OF remote_inv_published [OF inv, of who info]] unaffected_published [OF inv assms(2), of info]
      by (auto intro: unaffected_trans split: bool.splits)
  qed (use Cons in simp)
qed simp

lemma unaffected_publish_updates:
  "remote_inv s \<Longrightarrow> w \<notin> fst ` set us \<Longrightarrow> unaffected w s (publish_updates ord us s)"
proof (induction us arbitrary: s)
  case (Cons u us)
  obtain who infos where u: "u = (who, infos)" by fastforce
  have "unaffected w s (publish_infos ord who infos s)" "remote_inv (publish_infos ord who infos s)"
    using Cons.prems u by (auto intro: unaffected_publish_infos remote_inv_publish_infos)
  with Cons u show ?case
    by (auto intro: unaffected_trans)
qed simp

lemma unaffected_unpublish_stale:
  "remote_inv s \<Longrightarrow> w \<notin> fst ` set us \<Longrightarrow> unaffected w s (unpublish_stale ord us s)"
proof (induction us arbitrary: s)
  case (Cons u us)
  obtain who infos where u: "u = (who, infos)" by fastforce
  let ?s = "fold handle_track_unpublished (stale_sids ord who infos s) s"
  have "sid \<notin> set (stale_sids ord who infos s)" if "published_by s w sid" for sid
    using that Cons.prems(2) u by (auto simp: published_by_def stale_sids_def)
  then have "unaffected w s ?s"
    using fold_unpublished_by [OF Cons.prems(1)] by (auto simp: unaffected_def fold_unpublished_frame)
  with Cons fold_unpublished_inv [OF Cons.prems(1)] u show ?case
    by (auto intro: unaffected_trans)
qed simp

text \<open>A publication update concerns exactly the participants it names: afterwards, every known track
  of such a participant is listed in the update, and the tracks and subscriptions of all other
  participants are as before.\<close>

theorem publication_update_scoped:
  assumes "s = actor_run remote_step (remote_manager_new provider) es"
    and "\<And>S. finite S \<Longrightarrow> set (ord S) = S"
    and "us \<noteq> []" "distinct (map fst us)" "set whos = fst ` set us"
    and "s' = on_sfu_publication_updates ord whos us s"
  shows "((who, infos) \<in> set us \<and> published_by s' who sid \<longrightarrow> sid \<in> dti_sid ` set infos) \<and>
    (who \<notin> fst ` set us \<longrightarrow> unaffected who s s')"
proof -
  have inv: "remote_inv s"
    unfolding assms(1) by (rule remote_actor.inv_reachable) simp
  let ?s = "publish_updates ord us s"
  let ?us = "List.map_filter (\<lambda>who. map_option (Pair who) (map_of us who)) whos"
  have s': "s' = unpublish_stale ord ?us ?s"
    using assms(3,6) by (simp add: on_sfu_publication_updates_def)
  have inv': "remote_inv ?s"
  proof -
    have "remote_inv (publish_updates ord vs x)" if "remote_inv x" for vs x
      using that by (induction vs arbitrary: x) (auto simp: remote_inv_publish_infos)
    then show ?thesis using inv .
  qed
  have mem: "(who, infos) \<in> set ?us" if "(who, infos) \<in> set us"
  proof -
    have "who \<in> set whos" "map_of us who = Some infos"
      using that assms(4,5) by (force, simp)
    then show ?thesis by (force simp: map_filter_def)
  qed
  have keys: "fst ` set ?us \<subseteq> fst ` set us"
  proof
    fix w assume "w \<in> fst ` set ?us"
    then obtain i where "map_of us w = Some i"
      by (auto simp: map_filter_def)
    then show "w \<in> fst ` set us"
      by (force dest: map_of_SomeD)
  qed
  show ?thesis
  proof (intro conjI impI)
    assume "(who, infos) \<in> set us \<and> published_by s' who sid"
    then show "sid \<in> dti_sid ` set infos"
      using unpublish_stale_by [OF inv' assms(2), of ?us who sid] mem s' by blast
  next
    assume "who \<notin> fst ` set us"
    then show "unaffected who s s'"
      using unaffected_publish_updates [OF inv, of who us ord] unaffected_unpublish_stale [OF inv', of who ?us ord] keys s'
      by (auto intro: unaffected_trans)
  qed
qed
theorem publication_update_scoped_witness:
  "unaffected ''bob'' sample_remote
     (on_sfu_publication_updates sorted_list_of_set [''eve''] [(''eve'', [])] sample_remote)"
  using publication_update_scoped [OF sample_remote_run [symmetric], of sorted_list_of_set "[(''eve'', [])]" "[''eve'']"
      _ "''bob''"]
  by simp

text \<open>A subscription made while the last receiver has just gone gets a dead stream: the task has
  ended, but the manager still answers the request with the old channel, and the unsubscribe request
  of the task, handled next, ends the subscription without a word to the new subscriber.\<close>

theorem subscribe_gets_dead_stream:
  assumes "rm_descriptors s sid = Some d" "rd_subscription d = SubActive h k"
    and "k < length (rm_tasks s)" "rk_alive (rm_tasks s ! k)"
    and "dti_sid (rt_info (rm_tracks s ! rk_track (rm_tasks s ! k))) = sid"
    and "task_receivers_gone k s = (Some sid', s1)"
    and "s2 = on_subscribe_request sid opts c s1"
    and "s3 = on_unsubscribe_request sid' s2"
  shows "rm_replies s3 = rm_replies s @ [(c, Inr k)] \<and> \<not> rk_alive (rm_tasks s3 ! k) \<and>
    rm_descriptors s3 sid = Some (d\<lparr>rd_subscription := SubNone\<rparr>)"
  using assms
  by (auto simp: task_receivers_gone_def on_subscribe_request_def on_unsubscribe_request_def rm_reply_def Let_def)

theorem subscribe_gets_dead_stream_witness:
  "rm_replies (on_unsubscribe_request (DataTrackSid ''DTR_a'')
     (on_subscribe_request (DataTrackSid ''DTR_a'') subscribe_options_new 9
       (snd (task_receivers_gone 0 sample_remote)))) = [(0, Inr 0), (1, Inr 1), (9, Inr 0)]"
  using subscribe_gets_dead_stream [of sample_remote "DataTrackSid ''DTR_a''"
      "\<lparr>rd_track = 0, rd_subscription = SubActive (Handle 7) 0\<rparr>" "Handle 7" 0 "DataTrackSid ''DTR_a''"
      "snd (task_receivers_gone 0 sample_remote)" _ subscribe_options_new 9, OF _ _ _ _ _ _ refl refl]
  by (simp add: sample_remote_def task_receivers_gone_def remote_info_def)

end
