(* ===== verification/Utf8_Chunks.thy ===== *)
theory Utf8_Chunks
  imports Prelude
begin

text \<open>
  Splitting byte strings into the chunks of a data stream:
  \<^verbatim>\<open>livekit-data-stream/src/utf8_chunk.rs\<close> and \<open>slice::chunks\<close>.

  A Rust \<open>str\<close> is a byte string that satisfies \<open>utf8_valid\<close>, the well-formedness table that
  \<open>String::from_utf8\<close> checks.
\<close>

section \<open>UTF-8\<close>

text \<open>The test for a continuation byte, as the source writes it.\<close>

definition is_cont :: "u8 \<Rightarrow> bool" where
  "is_cont b \<longleftrightarrow> b AND 0xc0 = 0x80"

definition second_of_three :: "u8 \<Rightarrow> u8 \<Rightarrow> bool" where
  "second_of_three b c \<longleftrightarrow> is_cont c \<and> (b = 0xE0 \<longrightarrow> 0xA0 \<le> c) \<and> (b = 0xED \<longrightarrow> c < 0xA0)"

definition second_of_four :: "u8 \<Rightarrow> u8 \<Rightarrow> bool" where
  "second_of_four b c \<longleftrightarrow> is_cont c \<and> (b = 0xF0 \<longrightarrow> 0x90 \<le> c) \<and> (b = 0xF4 \<longrightarrow> c < 0x90)"

text \<open>The length of the character at the front, if it is well-formed.\<close>

fun utf8_char_len :: "bytes \<Rightarrow> nat option" where
  "utf8_char_len [] = None"
| "utf8_char_len (b # bs) =
     (if b < 0x80 then Some 1
      else if 0xC2 \<le> b \<and> b \<le> 0xDF then
        (case bs of c # _ \<Rightarrow> if is_cont c then Some 2 else None | _ \<Rightarrow> None)
      else if 0xE0 \<le> b \<and> b \<le> 0xEF then
        (case bs of c # d # _ \<Rightarrow> if second_of_three b c \<and> is_cont d then Some 3 else None | _ \<Rightarrow> None)
      else if 0xF0 \<le> b \<and> b \<le> 0xF4 then
        (case bs of c # d # e # _ \<Rightarrow>
           if second_of_four b c \<and> is_cont d \<and> is_cont e then Some 4 else None | _ \<Rightarrow> None)
      else None)"

lemma utf8_char_len_le: "utf8_char_len bs = Some n \<Longrightarrow> 0 < n \<and> n \<le> 4 \<and> n \<le> length bs"
  by (cases bs) (auto split: if_splits list.splits)

function utf8_valid :: "bytes \<Rightarrow> bool" where
  "utf8_valid bs =
     (bs = [] \<or> (case utf8_char_len bs of None \<Rightarrow> False | Some n \<Rightarrow> utf8_valid (drop n bs)))"
  by pat_completeness auto
termination
  by (relation "measure length") (auto dest: utf8_char_len_le)

declare utf8_valid.simps [simp del]

section \<open>Chunk iterators\<close>

text \<open>\<open>Utf8AwareChunks::next\<close>: from the chunk size downwards, the first position whose byte starts a
  character; position 0 ends the search whatever its byte.\<close>

fun utf8_boundary :: "bytes \<Rightarrow> nat \<Rightarrow> nat" where
  "utf8_boundary bs 0 = 0"
| "utf8_boundary bs (Suc k) = (if bs ! Suc k AND 0xc0 \<noteq> 0x80 then Suc k else utf8_boundary bs k)"

definition utf8_chunks_next :: "nat \<Rightarrow> bytes \<Rightarrow> (bytes \<times> bytes) option" where
  "utf8_chunks_next chunk_size bs =
     (if bs = [] then None
      else if length bs \<le> chunk_size then Some (bs, [])
      else let k = utf8_boundary bs chunk_size in Some (take k bs, drop k bs))"

text \<open>Running the iterator to its end. On a byte string that is not UTF-8 it may yield empty chunks for
  ever; the value \<open>None\<close> stands for that.\<close>

partial_function (option) utf8_chunks_collect :: "nat \<Rightarrow> bytes \<Rightarrow> bytes list option" where
  "utf8_chunks_collect chunk_size bs =
     (case utf8_chunks_next chunk_size bs of
        None \<Rightarrow> Some []
      | Some (chunk, rest) \<Rightarrow> do { chunks \<leftarrow> utf8_chunks_collect chunk_size rest; Some (chunk # chunks) })"

text \<open>The constructor panics on a chunk size below four.\<close>

definition utf8_aware_chunks :: "nat \<Rightarrow> bytes \<Rightarrow> bytes list option" where
  "utf8_aware_chunks chunk_size bs =
     (if chunk_size < 4 then None else utf8_chunks_collect chunk_size bs)"

text \<open>\<open>slice::chunks\<close> of the standard library.\<close>

function slice_chunks :: "nat \<Rightarrow> bytes \<Rightarrow> bytes list" where
  "slice_chunks n bs = (if bs = [] \<or> n = 0 then [] else take n bs # slice_chunks n (drop n bs))"
  by pat_completeness auto
termination
  by (relation "measure (\<lambda>(n, bs). length bs)") auto

declare slice_chunks.simps [simp del]

section \<open>Character boundaries\<close>

lemma is_cont_range: "is_cont b \<longleftrightarrow> 0x80 \<le> b \<and> b < 0xC0"
proof -
  have *: "list_all (\<lambda>n. is_cont (word_of_nat n) \<longleftrightarrow> 0x80 \<le> (word_of_nat n :: u8) \<and> (word_of_nat n :: u8) < 0xC0) [0..<256]"
    by code_simp
  have "unat b \<in> set [0..<256]" using unsigned_less [of b] by simp
  from bspec [OF * [unfolded list_all_iff] this] show ?thesis by simp
qed

lemma utf8_char_len_conts:
  assumes "utf8_char_len bs = Some n"
  shows "\<not> is_cont (bs ! 0)" and "0 < i \<Longrightarrow> i < n \<Longrightarrow> is_cont (bs ! i)"
proof -
  have lead: "\<not> is_cont b" if "b < 0x80 \<or> 0xC2 \<le> b" for b :: u8
    using that by (auto simp: is_cont_range word_le_nat_alt word_less_nat_alt)
  have big: "0xC2 \<le> b" if "0xE0 \<le> b \<or> 0xF0 \<le> b" for b :: u8
    using that by (auto simp: word_le_nat_alt)
  show "\<not> is_cont (bs ! 0)"
    using assms lead big by (cases bs) (auto split: if_splits)
  assume "0 < i" "i < n"
  then show "is_cont (bs ! i)"
    using assms
    by (cases bs) (auto simp: second_of_three_def second_of_four_def less_Suc_eq numeral_eq_Suc
        split: if_splits list.splits)
qed

lemma utf8_char_len_take:
  assumes "utf8_char_len bs = Some n" and "n \<le> m"
  shows "utf8_char_len (take m bs) = Some n"
  using assms
  by (cases bs) (auto simp: take_Cons split: if_splits list.splits nat.splits)

lemma utf8_char_len_append: "utf8_char_len bs = Some n \<Longrightarrow> utf8_char_len (bs @ cs) = Some n"
  by (cases bs) (auto split: if_splits list.splits)

lemma utf8_valid_Nil [simp]: "utf8_valid []"
  by (simp add: utf8_valid.simps)

lemma utf8_valid_step: "utf8_char_len bs = Some n \<Longrightarrow> utf8_valid bs = utf8_valid (drop n bs)"
  by (subst utf8_valid.simps) auto

lemma utf8_valid_cases:
  assumes "utf8_valid bs" and "bs \<noteq> []"
  obtains n where "utf8_char_len bs = Some n" "utf8_valid (drop n bs)"
  using assms by (subst (asm) utf8_valid.simps) (auto split: option.splits)

lemma utf8_valid_append: "utf8_valid as \<Longrightarrow> utf8_valid bs \<Longrightarrow> utf8_valid (as @ bs)"
proof (induction as rule: utf8_valid.induct)
  case (1 as)
  show ?case
  proof (cases "as = []")
    case False
    with 1 obtain n where n: "utf8_char_len as = Some n" "utf8_valid (drop n as)"
      by (auto elim: utf8_valid_cases)
    with 1 False have "utf8_valid (drop n as @ bs)" by simp
    moreover have "drop n (as @ bs) = drop n as @ bs"
      using utf8_char_len_le [OF n(1)] by simp
    ultimately show ?thesis
      using utf8_valid_step [OF utf8_char_len_append [OF n(1)], of bs] by simp
  qed (use 1 in simp)
qed

text \<open>A UTF-8 string can be cut in front of every byte that starts a character, and one of any four
  consecutive bytes does.\<close>

lemma utf8_valid_split:
  "utf8_valid bs \<Longrightarrow> i < length bs \<Longrightarrow> \<not> is_cont (bs ! i) \<Longrightarrow> utf8_valid (take i bs) \<and> utf8_valid (drop i bs)"
proof (induction bs arbitrary: i rule: utf8_valid.induct)
  case (1 bs)
  then obtain n where n: "utf8_char_len bs = Some n" "utf8_valid (drop n bs)"
    by (auto elim: utf8_valid_cases [of bs])
  note len = utf8_char_len_le [OF n(1)]
  show ?case
  proof (cases "i = 0")
    case False
    with "1.prems"(3) utf8_char_len_conts(2) [OF n(1), of i] have "n \<le> i" by force
    then have "utf8_valid (take (i - n) (drop n bs)) \<and> utf8_valid (drop (i - n) (drop n bs))"
      using 1 n len by (intro "1.IH" [OF n(1)]) auto
    moreover have "drop n (take i bs) = take (i - n) (drop n bs)" by (simp add: drop_take)
    ultimately show ?thesis
      using utf8_valid_step [OF utf8_char_len_take [OF n(1) \<open>n \<le> i\<close>]] \<open>n \<le> i\<close> by simp
  qed (use 1 in simp)
qed

lemma utf8_boundary_near:
  "utf8_valid bs \<Longrightarrow> i < length bs \<Longrightarrow> \<exists>j \<le> i. i \<le> j + 3 \<and> \<not> is_cont (bs ! j)"
proof (induction bs arbitrary: i rule: utf8_valid.induct)
  case (1 bs)
  then obtain n where n: "utf8_char_len bs = Some n" "utf8_valid (drop n bs)"
    by (auto elim: utf8_valid_cases [of bs])
  note len = utf8_char_len_le [OF n(1)]
  show ?case
  proof (cases "i < n")
    case True
    then show ?thesis
      using utf8_char_len_conts(1) [OF n(1)] len by (intro exI [of _ 0]) auto
  next
    case False
    then obtain j where "j \<le> i - n" "i - n \<le> j + 3" "\<not> is_cont (drop n bs ! j)"
      using 1 n len by (metis (no_types, lifting) "1.IH" length_drop diff_less_mono leI list.size(3) not_less_zero)
    then show ?thesis
      using False len by (intro exI [of _ "n + j"]) auto
  qed
qed

lemma utf8_boundary_spec:
  assumes "j \<le> k" and "\<not> is_cont (bs ! j)" and "0 < j"
  shows "j \<le> utf8_boundary bs k \<and> utf8_boundary bs k \<le> k \<and> \<not> is_cont (bs ! utf8_boundary bs k)"
  using assms
proof (induction k)
  case (Suc k)
  then show ?case by (cases "j = Suc k") (auto simp: is_cont_def)
qed simp
section \<open>Chunks of text and of bytes\<close>

lemma utf8_chunks_next_valid:
  assumes "4 \<le> n" and "utf8_valid bs" and "bs \<noteq> []"
  obtains chunk rest where "utf8_chunks_next n bs = Some (chunk, rest)" "chunk @ rest = bs" "chunk \<noteq> []"
    "utf8_valid chunk" "utf8_valid rest" "length chunk \<le> n" "rest \<noteq> [] \<Longrightarrow> n \<le> length chunk + 3"
proof (cases "length bs \<le> n")
  case True
  with assms show ?thesis
    using that [of bs "[]"] by (simp add: utf8_chunks_next_def)
next
  case False
  then obtain j where j: "j \<le> n" "n \<le> j + 3" "\<not> is_cont (bs ! j)"
    using utf8_boundary_near [OF assms(2), of n] by auto
  let ?k = "utf8_boundary bs n"
  have k: "j \<le> ?k" "?k \<le> n" "\<not> is_cont (bs ! ?k)"
    using utf8_boundary_spec [OF j(1,3)] j(2) assms(1) by auto
  show ?thesis
    using that [of "take ?k bs" "drop ?k bs"] False assms k j utf8_valid_split [OF assms(2) _ k(3)]
    by (simp add: utf8_chunks_next_def Let_def)
qed

definition full_chunks :: "nat \<Rightarrow> bytes list \<Rightarrow> bool" where
  "full_chunks n chunks \<longleftrightarrow> (\<forall>c \<in> set (butlast chunks). n \<le> length c + 3)"

lemma utf8_chunks_collect_valid:
  assumes "4 \<le> n"
  shows "utf8_valid bs \<Longrightarrow> \<exists>chunks. utf8_chunks_collect n bs = Some chunks \<and> concat chunks = bs \<and>
     (\<forall>c \<in> set chunks. utf8_valid c \<and> c \<noteq> [] \<and> length c \<le> n) \<and> full_chunks n chunks"
proof (induction "length bs" arbitrary: bs rule: less_induct)
  case less
  show ?case
  proof (cases "bs = []")
    case True
    then show ?thesis
      by (simp add: utf8_chunks_collect.simps [of n "[]"] utf8_chunks_next_def full_chunks_def)
  next
    case False
    obtain chunk rest where step: "utf8_chunks_next n bs = Some (chunk, rest)" "chunk @ rest = bs" "chunk \<noteq> []"
        "utf8_valid chunk" "utf8_valid rest" "length chunk \<le> n" "rest \<noteq> [] \<Longrightarrow> n \<le> length chunk + 3"
      using utf8_chunks_next_valid [OF assms less.prems False] by metis
    then have "length rest < length bs" by (metis length_append length_greater_0_conv less_add_same_cancel2)
    from less.hyps [OF this step(5)] obtain chunks where
      IH: "utf8_chunks_collect n rest = Some chunks" "concat chunks = rest" "full_chunks n chunks"
        "\<forall>c \<in> set chunks. utf8_valid c \<and> c \<noteq> [] \<and> length c \<le> n" by auto
    have "utf8_chunks_collect n bs = Some (chunk # chunks)"
      by (subst utf8_chunks_collect.simps) (simp add: step(1) IH(1))
    moreover have "full_chunks n (chunk # chunks)"
      using IH step(7) by (auto simp: full_chunks_def)
    ultimately show ?thesis
      using IH step by auto
  qed
qed

text \<open>C16. Splitting a text for transmission ends, loses nothing and respects characters: for every chunk
  size of at least four and every UTF-8 text the chunks are UTF-8 texts themselves, none is empty or
  larger than the chunk size, all but the last are at most three bytes smaller, and together they are
  the text.\<close>

theorem utf8_aware_chunks_spec:
  assumes "4 \<le> n" and "utf8_valid text"
  shows "\<exists>chunks. utf8_aware_chunks n text = Some chunks \<and> concat chunks = text \<and>
    (\<forall>c \<in> set chunks. utf8_valid c \<and> c \<noteq> [] \<and> length c \<le> n) \<and>
    (\<forall>c \<in> set (butlast chunks). n \<le> length c + 3)"
  using utf8_chunks_collect_valid [OF assms] assms(1)
  by (simp add: utf8_aware_chunks_def full_chunks_def)

text \<open>\<open>Hello\<close>, a space and a waving hand, as in the unit test of the source.\<close>

definition hello_wave :: bytes where
  "hello_wave = [0x48, 0x65, 0x6C, 0x6C, 0x6F, 0x20, 0xF0, 0x9F, 0x91, 0x8B]"

lemma hello_wave_valid: "utf8_valid hello_wave"
  by code_simp

theorem utf8_aware_chunks_spec_witness:
  "\<exists>chunks. utf8_aware_chunks 4 hello_wave = Some chunks \<and> concat chunks = hello_wave"
  using utf8_aware_chunks_spec [OF _ hello_wave_valid, of 4] by auto

interpretation text_chunks: chunker "\<lambda>n bs. the (utf8_aware_chunks n bs)" "\<lambda>n bs. 4 \<le> n \<and> utf8_valid bs"
proof
  fix n :: nat and bs :: bytes assume *: "4 \<le> n \<and> utf8_valid bs"
  then obtain chunks where cs: "utf8_aware_chunks n bs = Some chunks" "concat chunks = bs"
      "\<forall>c \<in> set chunks. utf8_valid c \<and> c \<noteq> [] \<and> length c \<le> n"
    using utf8_chunks_collect_valid [of n bs] by (auto simp: utf8_aware_chunks_def)
  then show "concat (the (utf8_aware_chunks n bs)) = bs" by simp
  fix c assume "c \<in> set (the (utf8_aware_chunks n bs))"
  with cs show "c \<noteq> []" "length c \<le> n" by auto
qed

interpretation byte_chunks: chunker slice_chunks "\<lambda>n bs. 0 < n"
proof
  fix n :: nat and bs :: bytes assume n: "0 < n"
  have "concat (slice_chunks n bs) = bs \<and> (\<forall>c \<in> set (slice_chunks n bs). c \<noteq> [] \<and> length c \<le> n)"
    using n by (induction n bs rule: slice_chunks.induct) (subst (1 2) slice_chunks.simps, auto)
  then show "concat (slice_chunks n bs) = bs"
    "c \<in> set (slice_chunks n bs) \<Longrightarrow> c \<noteq> []" "c \<in> set (slice_chunks n bs) \<Longrightarrow> length c \<le> n" for c
    by auto
qed

text \<open>The same splitting of a byte string that is not UTF-8 does not end: five continuation bytes give an
  empty chunk and are left as they were.\<close>

lemma utf8_chunks_stuck: "utf8_chunks_next 4 (replicate 5 0x80) = Some ([], replicate 5 0x80)"
  by code_simp

end
