(* ===== verification/Data_Stream.thy ===== *)
theory Data_Stream
  imports Track_Info Utf8_Chunks
begin

text \<open>
  Data packets and the common part of the data streams: the protocol messages that the modelled code
  uses, \<^verbatim>\<open>livekit-data-stream/src/lib.rs\<close> and the encryption types of
  \<^verbatim>\<open>livekit-common/src/lib.rs\<close>.

  Text whose length or encoding matters is a byte string in UTF-8; identifiers are strings. A
  \<open>HashMap\<close> of attributes is a map.
\<close>

section \<open>Protocol messages\<close>

type_synonym attributes = "string \<rightharpoonup> string"

record text_header =
  th_operation_type :: int
  th_version :: int
  th_reply_to_stream_id :: string
  th_attached_stream_ids :: "string list"
  th_generated :: bool

record byte_header =
  bh_name :: string

datatype content_header = TextHeader text_header | ByteHeader byte_header

record stream_header =
  sh_stream_id :: string
  sh_timestamp :: int
  sh_topic :: string
  sh_mime_type :: string
  sh_total_length :: "u64 option"
  sh_encryption_type :: int
  sh_attributes :: attributes
  sh_inline_content :: "bytes option"
  sh_compression :: int
  sh_content_header :: "content_header option"

record stream_chunk =
  sc_stream_id :: string
  sc_chunk_index :: u64
  sc_content :: bytes
  sc_version :: int
  sc_iv :: "bytes option"

record stream_trailer =
  st_stream_id :: string
  st_reason :: string
  st_attributes :: attributes

record rpc_request =
  rq_id :: string
  rq_method :: string
  rq_payload :: bytes
  rq_response_timeout_ms :: u32
  rq_version :: u32
  rq_compressed_payload :: bytes

record proto_rpc_error =
  pe_code :: u32
  pe_message :: bytes
  pe_data :: bytes

datatype rpc_response_value = RpcPayload bytes | RpcErrorValue proto_rpc_error | RpcCompressedPayload bytes

record rpc_response =
  rr_request_id :: string
  rr_value :: "rpc_response_value option"

record user_packet =
  up_participant_sid :: string
  up_participant_identity :: string
  up_payload :: bytes
  up_destination_sids :: "string list"
  up_destination_identities :: "string list"
  up_topic :: "string option"
  up_id :: "string option"
  up_start_time :: "u64 option"
  up_end_time :: "u64 option"
  up_nonce :: bytes

record sip_dtmf =
  dtmf_code :: u32
  dtmf_digit :: string

record transcription_segment =
  ts_id :: string
  ts_text :: bytes
  ts_start_time :: u64
  ts_end_time :: u64
  ts_final :: bool
  ts_language :: string

record transcription =
  tr_participant_identity :: string
  tr_track_id :: string
  tr_segments :: "transcription_segment list"

record chat_message =
  cm_id :: string
  cm_timestamp :: int
  cm_edit_timestamp :: "int option"
  cm_message :: bytes
  cm_deleted :: bool
  cm_generated :: bool

record encrypted_packet =
  ep_encryption_type :: int
  ep_packet_iv :: bytes
  ep_packet_key_index :: u32
  ep_encrypted_value :: bytes

text \<open>The values of a data packet. The messages that the modelled code passes on without looking inside
  are kept as byte strings.\<close>

datatype packet_value =
    UserValue user_packet
  | SpeakerValue bytes
  | SipDtmfValue sip_dtmf
  | TranscriptionValue transcription
  | MetricsValue bytes
  | ChatMessageValue chat_message
  | RpcRequestValue rpc_request
  | RpcAckValue string
  | RpcResponseValue rpc_response
  | StreamHeaderValue stream_header
  | StreamChunkValue stream_chunk
  | StreamTrailerValue stream_trailer
  | EncryptedPacketValue encrypted_packet

record data_packet =
  dp_kind :: int
  dp_participant_identity :: string
  dp_destination_identities :: "string list"
  dp_sequence :: u32
  dp_participant_sid :: string
  dp_value :: "packet_value option"

text \<open>\<open>DataPacket::default()\<close>; the number 0 of the kind is \<open>Reliable\<close>.\<close>

definition data_packet_default :: data_packet where
  "data_packet_default =
     \<lparr>dp_kind = 0, dp_participant_identity = '''', dp_destination_identities = [], dp_sequence = 0,
      dp_participant_sid = '''', dp_value = None\<rparr>"

section \<open>Stream information\<close>

datatype stream_encryption = EncNone | EncGcm | EncCustom

fun stream_encryption_from :: "encryption_type \<Rightarrow> stream_encryption" where
  "stream_encryption_from TypeNone = EncNone"
| "stream_encryption_from TypeGcm = EncGcm"
| "stream_encryption_from TypeCustom = EncCustom"

datatype stream_error =
    AlreadyClosed | AbnormalEnd string | StreamUtf8 | InvalidHeader | MissedChunk | LengthExceeded
  | StreamIncomplete | StreamSendFailed | StreamIo | StreamInternal | EncryptionTypeMismatch

record stream_progress =
  sp_chunk_index :: u64
  sp_bytes_processed :: u64
  sp_bytes_total :: "u64 option"

definition stream_progress_of :: "u64 option \<Rightarrow> stream_progress" where
  "stream_progress_of bytes_total = \<lparr>sp_chunk_index = 0, sp_bytes_processed = 0, sp_bytes_total = bytes_total\<rparr>"

datatype operation_type = OpCreate | OpUpdate | OpDelete | OpReaction

fun operation_type_i32 :: "operation_type \<Rightarrow> int" where
  "operation_type_i32 OpCreate = 0"
| "operation_type_i32 OpUpdate = 1"
| "operation_type_i32 OpDelete = 2"
| "operation_type_i32 OpReaction = 3"

text \<open>The generated accessor gives the default for a number that is no enum value.\<close>

definition operation_type_from :: "int \<Rightarrow> operation_type" where
  "operation_type_from n =
     (if n = 1 then OpUpdate else if n = 2 then OpDelete else if n = 3 then OpReaction else OpCreate)"

record byte_stream_info =
  bsi_id :: string
  bsi_topic :: string
  bsi_timestamp :: int
  bsi_total_length :: "u64 option"
  bsi_attributes :: attributes
  bsi_mime_type :: string
  bsi_name :: string
  bsi_encryption_type :: stream_encryption

record text_stream_info =
  tsi_id :: string
  tsi_topic :: string
  tsi_timestamp :: int
  tsi_total_length :: "u64 option"
  tsi_attributes :: attributes
  tsi_mime_type :: string
  tsi_operation_type :: operation_type
  tsi_version :: int
  tsi_reply_to_stream_id :: "string option"
  tsi_attached_stream_ids :: "string list"
  tsi_generated :: bool
  tsi_encryption_type :: stream_encryption

datatype any_stream_info = ByteInfo byte_stream_info | TextInfo text_stream_info

text \<open>The clock and \<open>DateTime::from_timestamp_millis\<close> are not part of the program: \<open>se_now\<close> is the current
  time and \<open>se_from_millis\<close> the conversion, both in milliseconds since the epoch.\<close>

record stream_env =
  se_now :: int
  se_from_millis :: "int \<Rightarrow> int option"

definition stream_timestamp :: "stream_env \<Rightarrow> int \<Rightarrow> int" where
  "stream_timestamp env ms = (case se_from_millis env ms of None \<Rightarrow> se_now env | Some t \<Rightarrow> t)"

definition byte_info_from_headers ::
    "stream_env \<Rightarrow> stream_header \<Rightarrow> byte_header \<Rightarrow> stream_encryption \<Rightarrow> byte_stream_info" where
  "byte_info_from_headers env header bh enc =
     \<lparr>bsi_id = sh_stream_id header, bsi_topic = sh_topic header,
      bsi_timestamp = stream_timestamp env (sh_timestamp header),
      bsi_total_length = sh_total_length header, bsi_attributes = sh_attributes header,
      bsi_mime_type = sh_mime_type header, bsi_name = bh_name bh, bsi_encryption_type = enc\<rparr>"

definition text_info_from_headers ::
    "stream_env \<Rightarrow> stream_header \<Rightarrow> text_header \<Rightarrow> stream_encryption \<Rightarrow> text_stream_info" where
  "text_info_from_headers env header th enc =
     \<lparr>tsi_id = sh_stream_id header, tsi_topic = sh_topic header,
      tsi_timestamp = stream_timestamp env (sh_timestamp header),
      tsi_total_length = sh_total_length header, tsi_attributes = sh_attributes header,
      tsi_mime_type = sh_mime_type header,
      tsi_operation_type = operation_type_from (th_operation_type th), tsi_version = th_version th,
      tsi_reply_to_stream_id = (if th_reply_to_stream_id th = '''' then None else Some (th_reply_to_stream_id th)),
      tsi_attached_stream_ids = th_attached_stream_ids th, tsi_generated = th_generated th,
      tsi_encryption_type = enc\<rparr>"

definition any_info_try_from ::
    "stream_env \<Rightarrow> stream_header \<Rightarrow> stream_encryption \<Rightarrow> stream_error + any_stream_info" where
  "any_info_try_from env header enc =
     (case sh_content_header header of
        None \<Rightarrow> Inl InvalidHeader
      | Some (ByteHeader bh) \<Rightarrow> Inr (ByteInfo (byte_info_from_headers env header bh enc))
      | Some (TextHeader th) \<Rightarrow> Inr (TextInfo (text_info_from_headers env header th enc)))"

fun info_id :: "any_stream_info \<Rightarrow> string" where
  "info_id (ByteInfo i) = bsi_id i"
| "info_id (TextInfo i) = tsi_id i"

fun info_total_length :: "any_stream_info \<Rightarrow> u64 option" where
  "info_total_length (ByteInfo i) = bsi_total_length i"
| "info_total_length (TextInfo i) = tsi_total_length i"

fun info_encryption_type :: "any_stream_info \<Rightarrow> stream_encryption" where
  "info_encryption_type (ByteInfo i) = bsi_encryption_type i"
| "info_encryption_type (TextInfo i) = tsi_encryption_type i"

lemma any_info_try_from_simps:
  assumes "any_info_try_from env header enc = Inr info"
  shows "info_id info = sh_stream_id header" "info_total_length info = sh_total_length header"
    "info_encryption_type info = enc"
  using assms
  by (auto simp: any_info_try_from_def byte_info_from_headers_def text_info_from_headers_def
      split: option.splits content_header.splits)

lemma stream_encryption_from_inject [simp]: "stream_encryption_from a = stream_encryption_from b \<longleftrightarrow> a = b"
  by (cases a; cases b) simp_all

end
