(* ===== verification/E2ee.thy ===== *)
theory E2ee
  imports Pipelines Data_Stream
begin

text \<open>
  End-to-end encryption: \<^verbatim>\<open>livekit/src/room/e2ee/key_provider.rs\<close>, \<^verbatim>\<open>manager.rs\<close> and \<^verbatim>\<open>data_track.rs\<close>.

  The keys and the ciphers are in the native WebRTC library: the type \<open>'h\<close> of its key stores and its
  functions are parameters (\<open>native_keys\<close>, \<open>native_cryptor\<close>). The key store is shared between the clones of
  a key provider and the cryptors made from it; the model has one, in the manager's options. Of a frame
  cryptor the model keeps whether it is enabled and whether it has a packet trailer handler. A 32-bit signed
  key index is its bit pattern, so that the cast to unsigned is the identity.
\<close>

section \<open>Key provider\<close>

datatype key_derivation = PBKDF2 | HKDF

record key_provider_options =
  ko_ratchet_window_size :: int
  ko_ratchet_salt :: bytes
  ko_failure_tolerance :: int
  ko_key_ring_size :: int
  ko_key_derivation_algorithm :: key_derivation

definition string_bytes :: "string \<Rightarrow> bytes" where
  "string_bytes s = map (\<lambda>c. word_of_nat (of_char c)) s"

definition key_provider_options_default :: key_provider_options where
  "key_provider_options_default =
     \<lparr>ko_ratchet_window_size = 16, ko_ratchet_salt = string_bytes ''LKFrameEncryptionKey'',
      ko_failure_tolerance = -1, ko_key_ring_size = 16, ko_key_derivation_algorithm = PBKDF2\<rparr>"

record 'h native_keys =
  nk_new :: "bool \<Rightarrow> key_provider_options \<Rightarrow> 'h"
  nk_set_shared_key :: "u32 \<Rightarrow> bytes \<Rightarrow> 'h \<Rightarrow> 'h \<times> bool"
  nk_set_key :: "string \<Rightarrow> u32 \<Rightarrow> bytes \<Rightarrow> 'h \<Rightarrow> 'h \<times> bool"
  nk_ratchet_shared_key :: "u32 \<Rightarrow> 'h \<Rightarrow> 'h \<times> bytes option"
  nk_ratchet_key :: "string \<Rightarrow> u32 \<Rightarrow> 'h \<Rightarrow> 'h \<times> bytes option"
  nk_get_shared_key :: "u32 \<Rightarrow> 'h \<Rightarrow> bytes option"
  nk_get_key :: "string \<Rightarrow> u32 \<Rightarrow> 'h \<Rightarrow> bytes option"
  nk_set_sif_trailer :: "bytes \<Rightarrow> 'h \<Rightarrow> 'h"

record 'h key_provider =
  kp_handle :: 'h
  kp_latest_key_index :: u32

definition key_provider_new :: "'h native_keys \<Rightarrow> key_provider_options \<Rightarrow> 'h key_provider" where
  "key_provider_new nk options = \<lparr>kp_handle = nk_new nk False options, kp_latest_key_index = 0\<rparr>"

definition with_shared_key :: "'h native_keys \<Rightarrow> key_provider_options \<Rightarrow> bytes \<Rightarrow> 'h key_provider" where
  "with_shared_key nk options shared_key =
     \<lparr>kp_handle = fst (nk_set_shared_key nk 0 shared_key (nk_new nk True options)), kp_latest_key_index = 0\<rparr>"

definition set_shared_key :: "'h native_keys \<Rightarrow> bytes \<Rightarrow> u32 \<Rightarrow> 'h key_provider \<Rightarrow> 'h key_provider" where
  "set_shared_key nk shared_key idx kp =
     kp\<lparr>kp_latest_key_index := idx,
        kp_handle := fst (nk_set_shared_key nk idx shared_key (kp_handle kp))\<rparr>"

definition set_key ::
    "'h native_keys \<Rightarrow> string \<Rightarrow> u32 \<Rightarrow> bytes \<Rightarrow> 'h key_provider \<Rightarrow> 'h key_provider \<times> bool" where
  "set_key nk identity idx key kp =
     (let (h, r) = nk_set_key nk identity idx key (kp_handle kp)
      in (kp\<lparr>kp_latest_key_index := idx, kp_handle := h\<rparr>, r))"

definition ratchet_shared_key ::
    "'h native_keys \<Rightarrow> u32 \<Rightarrow> 'h key_provider \<Rightarrow> 'h key_provider \<times> bytes option" where
  "ratchet_shared_key nk idx kp =
     (let (h, r) = nk_ratchet_shared_key nk idx (kp_handle kp) in (kp\<lparr>kp_handle := h\<rparr>, r))"

definition ratchet_key ::
    "'h native_keys \<Rightarrow> string \<Rightarrow> u32 \<Rightarrow> 'h key_provider \<Rightarrow> 'h key_provider \<times> bytes option" where
  "ratchet_key nk identity idx kp =
     (let (h, r) = nk_ratchet_key nk identity idx (kp_handle kp) in (kp\<lparr>kp_handle := h\<rparr>, r))"

definition get_shared_key :: "'h native_keys \<Rightarrow> u32 \<Rightarrow> 'h key_provider \<Rightarrow> bytes option" where
  "get_shared_key nk idx kp = nk_get_shared_key nk idx (kp_handle kp)"

definition get_key :: "'h native_keys \<Rightarrow> string \<Rightarrow> u32 \<Rightarrow> 'h key_provider \<Rightarrow> bytes option" where
  "get_key nk identity idx kp = nk_get_key nk identity idx (kp_handle kp)"

definition set_sif_trailer :: "'h native_keys \<Rightarrow> bytes \<Rightarrow> 'h key_provider \<Rightarrow> 'h key_provider" where
  "set_sif_trailer nk trailer kp = kp\<lparr>kp_handle := nk_set_sif_trailer nk trailer (kp_handle kp)\<rparr>"

section \<open>Manager\<close>

text \<open>The native cipher for data packets: the ciphertext, initialisation vector and key index, or an error.\<close>

record native_packet =
  np_data :: bytes
  np_iv :: bytes
  np_key_index :: u32

record 'h native_cryptor =
  nc_encrypt :: "'h \<Rightarrow> string \<Rightarrow> u32 \<Rightarrow> bytes \<Rightarrow> native_packet option"
  nc_decrypt :: "'h \<Rightarrow> string \<Rightarrow> native_packet \<Rightarrow> bytes option"

record 'h e2ee_options =
  eo_encryption_type :: stream_encryption
  eo_key_provider :: "'h key_provider"

record frame_cryptor =
  fc_enabled :: bool
  fc_trailer_handler :: bool

record 'h e2ee_manager =
  em_options :: "'h e2ee_options option"
  em_enabled :: bool
  em_dc_encryption_enabled :: bool
  em_frame_cryptors :: "string \<times> string \<rightharpoonup> frame_cryptor"
  em_data_packet_cryptor :: bool

definition e2ee_manager_new :: "'h e2ee_options option \<Rightarrow> bool \<Rightarrow> 'h e2ee_manager" where
  "e2ee_manager_new options with_dc_encryption =
     \<lparr>em_options = options, em_enabled = (options \<noteq> None),
      em_dc_encryption_enabled = (options \<noteq> None \<and> with_dc_encryption),
      em_frame_cryptors = Map.empty, em_data_packet_cryptor = (options \<noteq> None)\<rparr>"

text \<open>The cryptors that \<open>cleanup\<close> drops are disabled first; dropped cryptors are returned.\<close>

definition e2ee_cleanup :: "'h e2ee_manager \<Rightarrow> 'h e2ee_manager \<times> (string \<times> string \<rightharpoonup> frame_cryptor)" where
  "e2ee_cleanup m =
     (m\<lparr>em_frame_cryptors := Map.empty\<rparr>,
      \<lambda>k. map_option (\<lambda>c. c\<lparr>fc_enabled := False\<rparr>) (em_frame_cryptors m k))"

definition e2ee_initialized :: "'h e2ee_manager \<Rightarrow> bool" where
  "e2ee_initialized m \<longleftrightarrow> em_options m \<noteq> None"

definition e2ee_is_enabled :: "'h e2ee_manager \<Rightarrow> bool" where
  "e2ee_is_enabled m \<longleftrightarrow> em_enabled m \<and> e2ee_initialized m"

definition e2ee_set_enabled :: "bool \<Rightarrow> 'h e2ee_manager \<Rightarrow> 'h e2ee_manager" where
  "e2ee_set_enabled enabled m =
     (if em_enabled m = enabled then m
      else m\<lparr>em_enabled := enabled,
             em_frame_cryptors := (\<lambda>k. map_option (\<lambda>c. c\<lparr>fc_enabled := enabled\<rparr>) (em_frame_cryptors m k))\<rparr>)"

definition e2ee_key_provider :: "'h e2ee_manager \<Rightarrow> 'h key_provider option" where
  "e2ee_key_provider m = map_option eo_key_provider (em_options m)"

definition e2ee_encryption_type :: "'h e2ee_manager \<Rightarrow> stream_encryption" where
  "e2ee_encryption_type m = (case em_options m of None \<Rightarrow> EncNone | Some opts \<Rightarrow> eo_encryption_type opts)"

definition latest_key_index :: "'h e2ee_manager \<Rightarrow> u32" where
  "latest_key_index m = (case e2ee_key_provider m of None \<Rightarrow> 0 | Some kp \<Rightarrow> kp_latest_key_index kp)"

definition has_packet_trailer_features :: "int list \<Rightarrow> bool" where
  "has_packet_trailer_features features \<longleftrightarrow> list_ex (\<lambda>f. f = 0 \<or> f = 1 \<or> f = 2) features"

text \<open>What the manager reads of a track and its publication. A track without transceiver is a panic.\<close>

record track_view =
  tv_is_video :: bool
  tv_has_transceiver :: bool
  tv_trailer_handler :: bool
  tv_sid :: string
  tv_encryption :: stream_encryption
  tv_trailer_features :: "int list"

text \<open>\<open>setup_rtp_sender\<close> and \<open>setup_rtp_receiver\<close>.\<close>

definition setup_rtp :: "'h e2ee_manager \<Rightarrow> frame_cryptor" where
  "setup_rtp m = \<lparr>fc_enabled = em_enabled m, fc_trailer_handler = False\<rparr>"

definition insert_cryptor :: "string \<Rightarrow> track_view \<Rightarrow> bool \<Rightarrow> 'h e2ee_manager \<Rightarrow> 'h e2ee_manager" where
  "insert_cryptor identity track handler m =
     (if \<not> e2ee_initialized m \<or> tv_encryption track = EncNone then m
      else
        let c = setup_rtp m;
            c = (if handler then c\<lparr>fc_trailer_handler := True\<rparr> else c)
        in m\<lparr>em_frame_cryptors := (em_frame_cryptors m)((identity, tv_sid track) \<mapsto> c)\<rparr>)"

text \<open>The second component is whether a handler was attached to the video track.\<close>

definition on_track_subscribed ::
    "string \<Rightarrow> track_view \<Rightarrow> 'h e2ee_manager \<Rightarrow> ('h e2ee_manager \<times> bool) option" where
  "on_track_subscribed identity track m =
     (if \<not> tv_has_transceiver track then None
      else
        let handler = tv_is_video track \<and> has_packet_trailer_features (tv_trailer_features track)
        in Some (insert_cryptor identity track handler m, handler))"

definition on_local_track_published :: "string \<Rightarrow> track_view \<Rightarrow> 'h e2ee_manager \<Rightarrow> 'h e2ee_manager option" where
  "on_local_track_published identity track m =
     (if \<not> tv_has_transceiver track then None
      else Some (insert_cryptor identity track (tv_is_video track \<and> tv_trailer_handler track) m))"

definition remove_frame_cryptor :: "string \<Rightarrow> string \<Rightarrow> 'h e2ee_manager \<Rightarrow> 'h e2ee_manager" where
  "remove_frame_cryptor identity sid m =
     m\<lparr>em_frame_cryptors := (em_frame_cryptors m)((identity, sid) := None)\<rparr>"

definition decrypt_data ::
    "'h native_cryptor \<Rightarrow> 'h e2ee_manager \<Rightarrow> bytes \<Rightarrow> bytes \<Rightarrow> u32 \<Rightarrow> string \<Rightarrow> bytes option" where
  "decrypt_data nc m data ivec idx identity =
     (case em_options m of
        Some opts \<Rightarrow>
          if em_data_packet_cryptor m
          then nc_decrypt nc (kp_handle (eo_key_provider opts)) identity
                 \<lparr>np_data = data, np_iv = ivec, np_key_index = idx\<rparr>
          else None
      | None \<Rightarrow> None)"

definition encrypt_data ::
    "'h native_cryptor \<Rightarrow> 'h e2ee_manager \<Rightarrow> bytes \<Rightarrow> string \<Rightarrow> u32 \<Rightarrow> native_packet option" where
  "encrypt_data nc m data identity idx =
     (case em_options m of
        Some opts \<Rightarrow>
          if em_data_packet_cryptor m
          then nc_encrypt nc (kp_handle (eo_key_provider opts)) identity idx data
          else None
      | None \<Rightarrow> None)"

section \<open>Providers for data tracks\<close>

text \<open>The provider of the publisher first asserts that the cipher used the key index it was given; a provider does not
  panic in the contract of the pipelines, so the assertion is a predicate of its own, and \<open>dt_encrypt\<close> is what is
  returned when it holds or is compiled out.\<close>

definition dt_encrypt_assertion :: "'h native_cryptor \<Rightarrow> 'h e2ee_manager \<Rightarrow> string \<Rightarrow> bytes \<Rightarrow> bool" where
  "dt_encrypt_assertion nc m sender_identity payload =
     (case encrypt_data nc m payload sender_identity (latest_key_index m) of
        None \<Rightarrow> True
      | Some encrypted \<Rightarrow> np_key_index encrypted = latest_key_index m)"

definition dt_encrypt :: "'h native_cryptor \<Rightarrow> 'h e2ee_manager \<Rightarrow> string \<Rightarrow> encryption_provider" where
  "dt_encrypt nc m sender_identity payload =
     (case encrypt_data nc m payload sender_identity (latest_key_index m) of
        None \<Rightarrow> Inl EncryptionFailed
      | Some encrypted \<Rightarrow>
          if length (np_iv encrypted) \<noteq> 12 then Inl EncryptionFailed
          else if np_key_index encrypted \<ge> 256 then Inl EncryptionFailed
          else Inr \<lparr>ep_payload = np_data encrypted, ep_iv = np_iv encrypted,
                    ep_key_index = ucast (np_key_index encrypted)\<rparr>)"

definition dt_decrypt :: "'h native_cryptor \<Rightarrow> 'h e2ee_manager \<Rightarrow> decryption_provider" where
  "dt_decrypt nc m payload sender_identity =
     (case decrypt_data nc m (ep_payload payload) (ep_iv payload) (ucast (ep_key_index payload)) sender_identity of
        None \<Rightarrow> Inl DecryptionFailed
      | Some decrypted \<Rightarrow> Inr decrypted)"

section \<open>The manager's invariant\<close>

text \<open>The events that change a manager. A key provider that the application holds shares its keys with the
  manager; \<open>KeysChanged\<close> is any operation on it.\<close>

datatype 'h e2ee_event =
    TrackSubscribed string track_view
  | TrackPublished string track_view
  | TrackGone string string
  | SetE2eeEnabled bool
  | E2eeCleanup
  | KeysChanged "'h key_provider"

definition e2ee_step :: "'h e2ee_manager \<Rightarrow> 'h e2ee_event \<Rightarrow> 'h e2ee_manager" where
  "e2ee_step m e =
     (case e of
        TrackSubscribed identity track \<Rightarrow>
          (case on_track_subscribed identity track m of None \<Rightarrow> m | Some (m', _) \<Rightarrow> m')
      | TrackPublished identity track \<Rightarrow>
          (case on_local_track_published identity track m of None \<Rightarrow> m | Some m' \<Rightarrow> m')
      | TrackGone identity sid \<Rightarrow> remove_frame_cryptor identity sid m
      | SetE2eeEnabled enabled \<Rightarrow> e2ee_set_enabled enabled m
      | E2eeCleanup \<Rightarrow> fst (e2ee_cleanup m)
      | KeysChanged kp \<Rightarrow> m\<lparr>em_options := map_option (\<lambda>opts. opts\<lparr>eo_key_provider := kp\<rparr>) (em_options m)\<rparr>)"

definition e2ee_inv :: "bool \<Rightarrow> bool \<Rightarrow> 'h e2ee_manager \<Rightarrow> bool" where
  "e2ee_inv init dc m \<longleftrightarrow>
     (em_options m \<noteq> None) = init \<and> em_data_packet_cryptor m = init \<and>
     em_dc_encryption_enabled m = (init \<and> dc) \<and>
     (\<forall>k c. em_frame_cryptors m k = Some c \<longrightarrow> init \<and> fc_enabled c = em_enabled m)"

lemma insert_cryptor_inv: "e2ee_inv i d m \<Longrightarrow> e2ee_inv i d (insert_cryptor identity track handler m)"
  by (auto simp: e2ee_inv_def insert_cryptor_def setup_rtp_def e2ee_initialized_def Let_def)

lemma set_enabled_inv: "e2ee_inv i d m \<Longrightarrow> e2ee_inv i d (e2ee_set_enabled enabled m)"
  by (auto simp: e2ee_inv_def e2ee_set_enabled_def)

lemma e2ee_step_inv: "e2ee_inv i d m \<Longrightarrow> e2ee_inv i d (e2ee_step m e)"
proof (cases e)
  case (SetE2eeEnabled b)
  then show "e2ee_inv i d m \<Longrightarrow> ?thesis" by (simp add: e2ee_step_def set_enabled_inv)
next
  case (TrackSubscribed identity track)
  then show "e2ee_inv i d m \<Longrightarrow> ?thesis"
    by (simp add: e2ee_step_def on_track_subscribed_def insert_cryptor_inv Let_def)
next
  case (TrackPublished identity track)
  then show "e2ee_inv i d m \<Longrightarrow> ?thesis"
    by (simp add: e2ee_step_def on_local_track_published_def insert_cryptor_inv)
qed (auto simp: e2ee_step_def e2ee_inv_def remove_frame_cryptor_def e2ee_cleanup_def)

interpretation e2ee_actor: actor "e2ee_manager_new options dc" e2ee_step "\<lambda>_ _. True" "e2ee_inv (options \<noteq> None) dc"
  for options dc
  by unfold_locales (auto simp: e2ee_step_inv, auto simp: e2ee_inv_def e2ee_manager_new_def)

text \<open>Whatever tracks come and go, whatever keys change and however often encryption is switched, every frame
  cryptor of a manager is enabled exactly when the switch is on, there are none without encryption options,
  and the data packet cryptor exists exactly with options. Data channel encryption stays as it was configured
  at the start; the switch does not change it.\<close>

theorem cryptors_follow_switch:
  "ran (em_frame_cryptors (actor_run e2ee_step (e2ee_manager_new options dc) es)) \<subseteq>
     {c. options \<noteq> None \<and> fc_enabled c = em_enabled (actor_run e2ee_step (e2ee_manager_new options dc) es)} \<and>
   em_data_packet_cryptor (actor_run e2ee_step (e2ee_manager_new options dc) es) = (options \<noteq> None) \<and>
   em_dc_encryption_enabled (actor_run e2ee_step (e2ee_manager_new options dc) es) = (options \<noteq> None \<and> dc)"
  using e2ee_actor.inv_reachable [of options dc es] by (auto simp: e2ee_inv_def ran_def)

section \<open>The providers of the data tracks\<close>

text \<open>What the native cipher promises: a packet encrypted for a participant with the keys \<open>h\<close> is decrypted
  for that participant by whoever has matching keys \<open>h'\<close>.\<close>

definition cryptor_matches :: "'h native_cryptor \<Rightarrow> 'h \<Rightarrow> 'h \<Rightarrow> string \<Rightarrow> bool" where
  "cryptor_matches nc h h' identity \<longleftrightarrow>
     (\<forall>idx data e. nc_encrypt nc h identity idx data = Some e \<longrightarrow> nc_decrypt nc h' identity e = Some data)"

definition manager_keys :: "'h e2ee_manager \<Rightarrow> 'h option" where
  "manager_keys m = map_option kp_handle (e2ee_key_provider m)"

lemma encrypt_decrypt_data:
  assumes "cryptor_matches nc h h' identity" "manager_keys m' = Some h'" "em_data_packet_cryptor m'"
    and "manager_keys m = Some h" "encrypt_data nc m data identity idx = Some e"
  shows "decrypt_data nc m' (np_data e) (np_iv e) (np_key_index e) identity = Some data"
  using assms
  by (cases e) (auto simp: cryptor_matches_def manager_keys_def e2ee_key_provider_def encrypt_data_def
      decrypt_data_def split: option.splits if_splits)

text \<open>The assertion of the publisher's provider never fails with a cipher that reports the key index it was asked for.\<close>

lemma dt_encrypt_assertion_holds:
  assumes "\<And>h idx data e. nc_encrypt nc h identity idx data = Some e \<Longrightarrow> np_key_index e = idx"
  shows "dt_encrypt_assertion nc m identity payload"
  using assms by (auto simp: dt_encrypt_assertion_def encrypt_data_def split: option.splits if_splits)

lemma byte_key_index: "(x :: u32) < 256 \<Longrightarrow> ucast (ucast x :: u8) = x"
  by (rule word_unat_eq_iff [THEN iffD2])
    (simp add: unsigned_ucast_eq unsigned_take_bit_eq word_less_nat_alt take_bit_nat_eq_self)

text \<open>C33. The providers that the SDK gives to the data tracks meet the contract of the data track pipelines: when the
  native ciphers of the two sides match, the subscriber's provider decrypts every payload that the
  publisher's provider encrypted (with an index that fits a byte), and initialisation vectors have twelve
  bytes.\<close>

theorem data_track_providers_agree:
  assumes "manager_keys m = Some h" "manager_keys m' = Some h'" "em_data_packet_cryptor m'"
    and "cryptor_matches nc h h' identity"
  shows "providers_agree (Some (dt_encrypt nc m identity)) (Some (dt_decrypt nc m')) identity \<and>
    provider_typed (Some (dt_encrypt nc m identity))"
  using encrypt_decrypt_data [OF assms(4,2,3,1)]
  by (auto simp: providers_agree_def provider_typed_def dt_encrypt_def dt_decrypt_def byte_key_index not_le
      split: option.splits if_splits)

text \<open>A cipher that masks every byte with the key.\<close>

definition mask_cryptor :: "u8 native_cryptor" where
  "mask_cryptor =
     \<lparr>nc_encrypt = (\<lambda>h identity idx data.
        Some \<lparr>np_data = map (\<lambda>b. b XOR h) data, np_iv = replicate 12 0, np_key_index = idx\<rparr>),
      nc_decrypt = (\<lambda>h identity e. Some (map (\<lambda>b. b XOR h) (np_data e)))\<rparr>"

definition mask_manager :: "u8 \<Rightarrow> u8 e2ee_manager" where
  "mask_manager key =
     e2ee_manager_new
       (Some \<lparr>eo_encryption_type = EncGcm, eo_key_provider = \<lparr>kp_handle = key, kp_latest_key_index = 3\<rparr>\<rparr>) True"

lemma mask_cryptor_matches: "cryptor_matches mask_cryptor h h identity"
  by (auto simp: cryptor_matches_def mask_cryptor_def comp_def xor.assoc)

lemma mask_manager_keys [simp]: "manager_keys (mask_manager key) = Some key"
  by (simp add: manager_keys_def mask_manager_def e2ee_manager_new_def e2ee_key_provider_def)

theorem data_track_providers_agree_witness:
  "providers_agree (Some (dt_encrypt mask_cryptor (mask_manager 7) ''bob''))
     (Some (dt_decrypt mask_cryptor (mask_manager 7))) ''bob''"
  using data_track_providers_agree [OF mask_manager_keys mask_manager_keys _ mask_cryptor_matches]
  by (simp add: mask_manager_def e2ee_manager_new_def)

end
