(* ===== verification/Tx_Queue.thy ===== *)
theory Tx_Queue
  imports Prelude "HOL-Library.Sublist"
begin

text \<open>
  \<^verbatim>\<open>livekit/src/utils/tx_queue.rs\<close>: a queue that keeps the total size of its items, and trims
  itself from the front to a target size. \<open>sz\<close> is the item's \<open>buffered_size\<close>.

  Subtracting more than the recorded size panics, which is \<open>None\<close>; the loop of \<open>trim\<close> runs as long as the
  recorded size is above the target, also on an empty queue, and its not returning is \<open>None\<close> as well. The
  recorded size is always the sum of the sizes (the invariant below), so neither happens.
\<close>

record 'a tx_queue =
  tq_inner :: "'a list"
  tq_buffered_size :: nat

definition tq_new :: "'a tx_queue" where
  "tq_new = \<lparr>tq_inner = [], tq_buffered_size = 0\<rparr>"

definition tq_len :: "'a tx_queue \<Rightarrow> nat" where
  "tq_len q = length (tq_inner q)"

definition tq_peek :: "'a tx_queue \<Rightarrow> 'a option" where
  "tq_peek q = (case tq_inner q of [] \<Rightarrow> None | x # _ \<Rightarrow> Some x)"

definition tq_enqueue :: "('a \<Rightarrow> nat) \<Rightarrow> 'a \<Rightarrow> 'a tx_queue \<Rightarrow> 'a tx_queue" where
  "tq_enqueue sz x q =
     q\<lparr>tq_inner := tq_inner q @ [x], tq_buffered_size := tq_buffered_size q + sz x\<rparr>"

text \<open>The result of \<open>dequeue\<close> is the queue left and the item, if there was one.\<close>

definition tq_dequeue :: "('a \<Rightarrow> nat) \<Rightarrow> 'a tx_queue \<Rightarrow> ('a tx_queue \<times> 'a option) option" where
  "tq_dequeue sz q =
     (case tq_inner q of
        [] \<Rightarrow> Some (q, None)
      | x # xs \<Rightarrow>
          if tq_buffered_size q < sz x then None
          else Some (q\<lparr>tq_inner := xs, tq_buffered_size := tq_buffered_size q - sz x\<rparr>, Some x))"

partial_function (option) tq_trim :: "('a \<Rightarrow> nat) \<Rightarrow> nat \<Rightarrow> 'a tx_queue \<Rightarrow> 'a tx_queue option" where
  "tq_trim sz target q =
     (if tq_buffered_size q > target
      then Option.bind (tq_dequeue sz q) (\<lambda>(q', _). tq_trim sz target q')
      else Some q)"

declare tq_trim.simps [code]

section \<open>Invariant\<close>

definition tq_inv :: "('a \<Rightarrow> nat) \<Rightarrow> 'a tx_queue \<Rightarrow> bool" where
  "tq_inv sz q \<longleftrightarrow> tq_buffered_size q = sum_list (map sz (tq_inner q))"

lemma tq_inv_new [simp]: "tq_inv sz tq_new"
  by (simp add: tq_inv_def tq_new_def)

lemma tq_inv_enqueue [simp]: "tq_inv sz q \<Longrightarrow> tq_inv sz (tq_enqueue sz x q)"
  by (simp add: tq_inv_def tq_enqueue_def)

lemma tq_inner_enqueue [simp]: "tq_inner (tq_enqueue sz x q) = tq_inner q @ [x]"
  by (simp add: tq_enqueue_def)

lemma tq_inner_new [simp]: "tq_inner tq_new = []"
  by (simp add: tq_new_def)

lemma tq_dequeue_inv:
  assumes "tq_inv sz q"
  shows "\<exists>q'. tq_inv sz q' \<and> tq_inner q' = tl (tq_inner q) \<and> tq_dequeue sz q = Some (q', tq_peek q)"
  using assms by (cases "tq_inner q") (auto simp: tq_inv_def tq_dequeue_def tq_peek_def)

section \<open>The queue refines a list\<close>

text \<open>What a client needs: a queue that behaves as the list of its items, the first one first, and that
  can be cut to a total size.\<close>

fun trim_list :: "('a \<Rightarrow> nat) \<Rightarrow> nat \<Rightarrow> 'a list \<Rightarrow> 'a list" where
  "trim_list sz target [] = []"
| "trim_list sz target (x # xs) =
     (if sum_list (map sz (x # xs)) > target then trim_list sz target xs else x # xs)"

locale sized_queue =
  fixes sz :: "'a \<Rightarrow> nat"
    and wf :: "'q \<Rightarrow> bool"
    and items :: "'q \<Rightarrow> 'a list"
    and empty :: 'q
    and enqueue :: "'a \<Rightarrow> 'q \<Rightarrow> 'q"
    and dequeue :: "'q \<Rightarrow> ('q \<times> 'a option) option"
    and trim :: "nat \<Rightarrow> 'q \<Rightarrow> 'q option"
  assumes wf_empty: "wf empty" and items_empty: "items empty = []"
    and wf_enqueue: "wf q \<Longrightarrow> wf (enqueue x q)"
    and items_enqueue: "wf q \<Longrightarrow> items (enqueue x q) = items q @ [x]"
    and dequeue_nil: "wf q \<Longrightarrow> items q = [] \<Longrightarrow> dequeue q = Some (q, None)"
    and dequeue_cons:
      "wf q \<Longrightarrow> items q = x # xs \<Longrightarrow> \<exists>q'. dequeue q = Some (q', Some x) \<and> wf q' \<and> items q' = xs"
    and trim_returns: "wf q \<Longrightarrow> \<exists>q'. trim t q = Some q' \<and> wf q' \<and> items q' = trim_list sz t (items q)"
begin

lemma trim_items: "wf q \<Longrightarrow> trim t q = Some q' \<Longrightarrow> wf q' \<and> items q' = trim_list sz t (items q)"
  using trim_returns [of q t] by auto

lemma trim_defined: "wf q \<Longrightarrow> trim t q \<noteq> None"
  using trim_returns [of q t] by auto

end

lemma trim_list_le: "sum_list (map sz (trim_list sz t xs)) \<le> t"
  by (induction xs) auto

lemma trim_list_suffix: "suffix (trim_list sz t xs) xs"
  by (induction xs) (auto simp: suffix_Cons)

lemma trim_list_longest:
  assumes "suffix ys xs" "sum_list (map sz ys) \<le> t"
  shows "suffix ys (trim_list sz t xs)"
  using assms
proof (induction xs)
  case (Cons x xs)
  then show ?case by (auto simp: suffix_Cons)
qed simp

lemma trim_list_id [simp]: "sum_list (map sz xs) \<le> t \<Longrightarrow> trim_list sz t xs = xs"
  by (cases xs) auto

lemma tq_trim_eq:
  assumes "tq_inv sz q"
  shows "\<exists>q'. tq_trim sz t q = Some q' \<and> tq_inv sz q' \<and> tq_inner q' = trim_list sz t (tq_inner q)"
  using assms
proof (induction "tq_inner q" arbitrary: q)
  case Nil
  then have "tq_buffered_size q = 0" by (simp add: tq_inv_def flip: Nil.hyps)
  with Nil show ?case by (subst tq_trim.simps) auto
next
  case (Cons x xs)
  note IH = Cons.hyps(1) and inner = Cons.hyps(2) [symmetric] and inv = Cons.prems
  show ?case
  proof (cases "tq_buffered_size q > t")
    case True
    from tq_dequeue_inv [OF inv] inner obtain q' where
      q': "tq_inv sz q'" "tq_inner q' = xs" "tq_dequeue sz q = Some (q', tq_peek q)" by auto
    from IH [OF q'(2) [symmetric] q'(1)] True inner inv q' show ?thesis
      by (subst tq_trim.simps) (auto simp: tq_inv_def)
  next
    case False
    with inner inv show ?thesis by (subst tq_trim.simps) (auto simp: tq_inv_def)
  qed
qed

interpretation tq: sized_queue sz "tq_inv sz" tq_inner tq_new "tq_enqueue sz" "tq_dequeue sz" "tq_trim sz"
  for sz :: "'a \<Rightarrow> nat"
proof
  fix q :: "'a tx_queue" and x :: 'a and xs
  assume "tq_inv sz q" "tq_inner q = x # xs"
  then show "\<exists>q'. tq_dequeue sz q = Some (q', Some x) \<and> tq_inv sz q' \<and> tq_inner q' = xs"
    using tq_dequeue_inv [of sz q] by (auto simp: tq_peek_def)
qed (auto simp: tq_trim_eq tq_dequeue_def)

text \<open>C32. Trimming a queue that was built by enqueueing always returns, and leaves the longest suffix
  of the items whose total size is within the target; the recorded size is the total size of the
  items left.\<close>

theorem trim_longest_suffix:
  fixes xs :: "bytes list"
  shows "\<exists>q. tq_trim length target (fold (tq_enqueue length) xs tq_new) = Some q \<and>
      suffix (tq_inner q) xs \<and> tq_buffered_size q = sum_list (map length (tq_inner q)) \<and>
      tq_buffered_size q \<le> target \<and>
      \<not> (\<exists>ys. suffix ys xs \<and> length (tq_inner q) < length ys \<and> sum_list (map length ys) \<le> target)"
proof -
  have build: "tq_inv length (fold (tq_enqueue length) xs q) \<and>
      tq_inner (fold (tq_enqueue length) xs q) = tq_inner q @ xs"
    if "tq_inv length q" for q :: "bytes tx_queue"
    using that by (induction xs arbitrary: q) auto
  obtain q where q: "tq_trim length target (fold (tq_enqueue length) xs tq_new) = Some q"
      "tq_inv length q" "tq_inner q = trim_list length target xs"
    using tq.trim_returns [of length "fold (tq_enqueue length) xs tq_new" target] build [of tq_new] by auto
  have "length ys \<le> length (tq_inner q)" if "suffix ys xs" "sum_list (map length ys) \<le> target" for ys
    using suffix_length_le [OF trim_list_longest [OF that]] q(3) by simp
  with q show ?thesis
    using trim_list_le [of length target xs] trim_list_suffix [of length target xs]
    by (auto simp: tq_inv_def not_less)
qed

end
