(* ===== verification/Ttl_Map.thy ===== *)
theory Ttl_Map
  imports Prelude
begin

text \<open>
  \<^verbatim>\<open>livekit/src/utils/ttl_map.rs\<close>: a map whose entries expire. Time is in nanoseconds; every reading of the
  system clock is an argument, in the order the code reads it. The order in which a hash map is iterated is
  the argument \<open>ks\<close>, an enumeration of the keys. Half of the time to live is computed by the code in
  floating point; the comparison is written without division.
\<close>

record 'v ttl_entry =
  te_value :: 'v
  te_expires_at :: int

record ('k, 'v) ttl_map =
  tm_inner :: "'k \<rightharpoonup> 'v ttl_entry"
  tm_last_cleanup :: int
  tm_ttl :: nat

definition ttl_new :: "int \<Rightarrow> nat \<Rightarrow> ('k, 'v) ttl_map" where
  "ttl_new now ttl = \<lparr>tm_inner = Map.empty, tm_last_cleanup = now, tm_ttl = ttl\<rparr>"

definition unexpired :: "int \<Rightarrow> 'v ttl_entry option \<Rightarrow> 'v ttl_entry option" where
  "unexpired now e = (case e of None \<Rightarrow> None | Some x \<Rightarrow> if te_expires_at x \<ge> now then Some x else None)"

definition ttl_cleanup :: "int \<Rightarrow> ('k, 'v) ttl_map \<Rightarrow> ('k, 'v) ttl_map" where
  "ttl_cleanup now m = m\<lparr>tm_inner := (\<lambda>k. unexpired now (tm_inner m k)), tm_last_cleanup := now\<rparr>"

definition ttl_iter :: "int \<Rightarrow> 'k list \<Rightarrow> ('k, 'v) ttl_map \<Rightarrow> ('k, 'v) ttl_map \<times> ('k \<times> 'v) list" where
  "ttl_iter now ks m =
     (let m' = ttl_cleanup now m
      in (m', List.map_filter (\<lambda>k. map_option (\<lambda>e. (k, te_value e)) (tm_inner m' k)) ks))"

definition ttl_len :: "int \<Rightarrow> 'k list \<Rightarrow> ('k, 'v) ttl_map \<Rightarrow> ('k, 'v) ttl_map \<times> nat" where
  "ttl_len now ks m = (let (m', xs) = ttl_iter now ks m in (m', length xs))"

definition ttl_get :: "int \<Rightarrow> 'k \<Rightarrow> ('k, 'v) ttl_map \<Rightarrow> ('k, 'v) ttl_map \<times> 'v option" where
  "ttl_get now k m =
     (case tm_inner m k of
        None \<Rightarrow> (m, None)
      | Some e \<Rightarrow>
          if te_expires_at e < now then (m\<lparr>tm_inner := (tm_inner m)(k := None)\<rparr>, None)
          else (m, Some (te_value e)))"

text \<open>\<open>set\<close> reads the clock, and cleaning up reads it again.\<close>

definition ttl_set :: "int \<Rightarrow> int \<Rightarrow> 'k \<Rightarrow> 'v option \<Rightarrow> ('k, 'v) ttl_map \<Rightarrow> ('k, 'v) ttl_map" where
  "ttl_set now now' k v m =
     (if now < tm_last_cleanup m then m
      else
        let m' = (if 2 * (now - tm_last_cleanup m) > int (tm_ttl m) then ttl_cleanup now' m else m)
        in case v of
             None \<Rightarrow> m'\<lparr>tm_inner := (tm_inner m')(k := None)\<rparr>
           | Some x \<Rightarrow>
               m'\<lparr>tm_inner := (tm_inner m')(k \<mapsto> \<lparr>te_value = x, te_expires_at = now + int (tm_ttl m')\<rparr>)\<rparr>)"

section \<open>The map refines a map with expiry times\<close>

text \<open>What is visible at a time: the values whose entries have not expired. Cleaning up at the right or at
  the wrong moment makes no visible difference.\<close>

definition ttl_live :: "int \<Rightarrow> ('k, 'v) ttl_map \<Rightarrow> 'k \<Rightarrow> 'v option" where
  "ttl_live t m k = map_option te_value (unexpired t (tm_inner m k))"

lemma unexpired_later: "now \<le> t \<Longrightarrow> unexpired t (unexpired now e) = unexpired t e"
  by (auto simp: unexpired_def split: option.splits)

lemma ttl_live_new [simp]: "ttl_live t (ttl_new now ttl) k = None"
  by (simp add: ttl_live_def ttl_new_def unexpired_def)

lemma ttl_live_cleanup: "now \<le> t \<Longrightarrow> ttl_live t (ttl_cleanup now m) = ttl_live t m"
  by (rule ext) (simp add: ttl_live_def ttl_cleanup_def unexpired_later)

lemma ttl_get_value: "snd (ttl_get now k m) = ttl_live now m k"
  by (auto simp: ttl_get_def ttl_live_def unexpired_def split: option.splits)

lemma ttl_live_get: "now \<le> t \<Longrightarrow> ttl_live t (fst (ttl_get now k m)) = ttl_live t m"
  by (rule ext) (auto simp: ttl_get_def ttl_live_def unexpired_def split: option.splits)

lemma ttl_live_set:
  assumes "tm_last_cleanup m \<le> now" "now' \<le> t"
  shows "ttl_live t (ttl_set now now' k v m) =
    (ttl_live t m)(k := if t \<le> now + int (tm_ttl m) then v else None)"
proof (rule ext)
  fix j
  have clean: "unexpired t (tm_inner (ttl_cleanup now' m) i) = unexpired t (tm_inner m i)" for i
    using assms(2) by (simp add: ttl_cleanup_def unexpired_later)
  have ttl: "tm_ttl (ttl_cleanup now' m) = tm_ttl m" by (simp add: ttl_cleanup_def)
  from assms show "ttl_live t (ttl_set now now' k v m) j =
      ((ttl_live t m)(k := if t \<le> now + int (tm_ttl m) then v else None)) j"
    by (auto simp: ttl_live_def ttl_set_def Let_def clean ttl unexpired_def [of t None]
        unexpired_def [of t "Some _"] split: option.splits)
qed

lemma ttl_set_last_cleanup:
  "tm_last_cleanup (ttl_set now now' k v m) \<in> {tm_last_cleanup m, now'}"
  by (simp add: ttl_set_def ttl_cleanup_def Let_def split: option.splits)

lemma ttl_get_last_cleanup [simp]: "tm_last_cleanup (fst (ttl_get now k m)) = tm_last_cleanup m"
  "tm_ttl (fst (ttl_get now k m)) = tm_ttl m"
  by (simp_all add: ttl_get_def split: option.splits)

lemma ttl_set_ttl [simp]: "tm_ttl (ttl_set now now' k v m) = tm_ttl m"
  by (simp add: ttl_set_def ttl_cleanup_def Let_def split: option.splits)

lemma ttl_iter_values:
  "set (snd (ttl_iter now ks m)) = {(k, v). k \<in> set ks \<and> ttl_live now m k = Some v}"
  by (force simp: ttl_iter_def Let_def List.map_filter_def ttl_live_def ttl_cleanup_def)

end
