(* ===== verification/Data_Channel.thy ===== *)
theory Data_Channel
  imports E2ee Tx_Queue Ttl_Map "HOL-Library.Multiset"
begin

text \<open>
  The data packet part of a session, \<^verbatim>\<open>livekit/src/rtc_engine/rtc_session.rs\<close>: the task that sends data packets over
  the lossy and the reliable channel (\<open>data_channel_task\<close>), publishing a packet, and receiving one.

  The encoding of protocol messages is generated code of a third-party library: \<open>encode\<close> and \<open>decode\<close> are
  parameters. The data channels are native: whether a call of \<open>send\<close> succeeds is the next element of a list of
  outcomes (success when the list is used up), and the requests passed to \<open>send\<close> are recorded. The unbounded
  event channel of the task is a list, to which the task itself appends. The completion of a request is a
  number that stands for the receiver waiting for it. Warnings are not recorded, but the arithmetic in them is
  done, since it can overflow. The number of buffered bytes is kept at its width of 64 bits, and is taken not to
  reach its end, as these bytes are in memory.
\<close>

section \<open>The sending task\<close>

datatype data_kind = Lossy | Reliable

record encoded_packet =
  ec_data :: bytes
  ec_sequence :: u32

text \<open>A request to send; a retry has nobody waiting for it.\<close>

record dc_request =
  dr_packet :: encoded_packet
  dr_completion :: "nat option"

datatype dc_detail =
    PublishPacket data_packet nat
  | PublishData dc_request
  | BufferedAmountChange u64
  | RetryFrom u32

datatype publish_result = PublishOk | PublishTooLarge | PublishSendFailed

text \<open>What the task keeps for one of the two channels, with the threshold of the session.\<close>

record dc_lane =
  ln_buffered_amount :: u64
  ln_threshold :: u64
  ln_queue :: "dc_request list"
  ln_calls :: "dc_request list"

record dc_task =
  dk_lossy :: dc_lane
  dk_reliable :: dc_lane
  dk_retry_queue :: "encoded_packet tx_queue"
  dk_next_sequence :: u32
  dk_max_message_size :: u64
  dk_outcomes :: "bool list"
  dk_events :: "(data_kind \<times> dc_detail) list"
  dk_completions :: "(nat \<times> publish_result) list"

definition DEFAULT_MAX_MESSAGE_SIZE :: u64 where
  "DEFAULT_MAX_MESSAGE_SIZE = 64000"

definition INITIAL_BUFFERED_AMOUNT_LOW_THRESHOLD :: u64 where
  "INITIAL_BUFFERED_AMOUNT_LOW_THRESHOLD = 2 * 1024 * 1024"

definition dc_lane_new :: dc_lane where
  "dc_lane_new =
     \<lparr>ln_buffered_amount = 0, ln_threshold = INITIAL_BUFFERED_AMOUNT_LOW_THRESHOLD, ln_queue = [], ln_calls = []\<rparr>"

definition dc_task_new :: "bool list \<Rightarrow> dc_task" where
  "dc_task_new outcomes =
     \<lparr>dk_lossy = dc_lane_new, dk_reliable = dc_lane_new, dk_retry_queue = tq_new, dk_next_sequence = 1,
      dk_max_message_size = DEFAULT_MAX_MESSAGE_SIZE, dk_outcomes = outcomes, dk_events = [],
      dk_completions = []\<rparr>"

fun lane :: "data_kind \<Rightarrow> dc_task \<Rightarrow> dc_lane" where
  "lane Lossy s = dk_lossy s"
| "lane Reliable s = dk_reliable s"

fun set_lane :: "data_kind \<Rightarrow> dc_lane \<Rightarrow> dc_task \<Rightarrow> dc_task" where
  "set_lane Lossy l s = s\<lparr>dk_lossy := l\<rparr>"
| "set_lane Reliable l s = s\<lparr>dk_reliable := l\<rparr>"

definition encoded_size :: "encoded_packet \<Rightarrow> nat" where
  "encoded_size p = length (ec_data p)"

definition encoded_packet_of :: "(data_packet \<Rightarrow> bytes) \<Rightarrow> data_packet \<Rightarrow> encoded_packet" where
  "encoded_packet_of encode packet = \<lparr>ec_data = encode packet, ec_sequence = dp_sequence packet\<rparr>"

text \<open>The next outcome of the native call.\<close>

definition dc_send_outcome :: "dc_task \<Rightarrow> bool \<times> dc_task" where
  "dc_send_outcome s =
     (case dk_outcomes s of [] \<Rightarrow> (True, s) | b # bs \<Rightarrow> (b, s\<lparr>dk_outcomes := bs\<rparr>))"

definition complete :: "nat option \<Rightarrow> publish_result \<Rightarrow> dc_task \<Rightarrow> dc_task" where
  "complete completion r s =
     (case completion of None \<Rightarrow> s | Some n \<Rightarrow> s\<lparr>dk_completions := dk_completions s @ [(n, r)]\<rparr>)"

text \<open>One iteration of the loop of \<open>_send_until_threshold\<close>, for the first request of the queue.\<close>

definition send_request :: "data_kind \<Rightarrow> dc_request \<Rightarrow> dc_request list \<Rightarrow> dc_task \<Rightarrow> dc_task" where
  "send_request kind request rest s =
     (let l = lane kind s;
          s = set_lane kind
                (l\<lparr>ln_queue := rest,
                   ln_buffered_amount := ln_buffered_amount l + word_of_nat (length (ec_data (dr_packet request))),
                   ln_calls := ln_calls l @ [request]\<rparr>) s;
          (ok, s) = dc_send_outcome s;
          s = complete (dr_completion request) (if ok then PublishOk else PublishSendFailed) s
      in if kind = Reliable
         then s\<lparr>dk_retry_queue := tq_enqueue encoded_size (dr_packet request) (dk_retry_queue s)\<rparr> else s)"

lemma lane_set_lane [simp]:
  "lane k (set_lane k' l s) = (if k = k' then l else lane k s)"
  "dk_retry_queue (set_lane k l s) = dk_retry_queue s"
  "dk_next_sequence (set_lane k l s) = dk_next_sequence s"
  "dk_max_message_size (set_lane k l s) = dk_max_message_size s"
  "dk_outcomes (set_lane k l s) = dk_outcomes s"
  "dk_events (set_lane k l s) = dk_events s"
  "dk_completions (set_lane k l s) = dk_completions s"
  by (cases k; cases k'; simp)+

lemma lane_update [simp]:
  "lane k (s\<lparr>dk_retry_queue := q\<rparr>) = lane k s"
  "lane k (s\<lparr>dk_next_sequence := n\<rparr>) = lane k s"
  "lane k (s\<lparr>dk_max_message_size := w\<rparr>) = lane k s"
  "lane k (s\<lparr>dk_outcomes := bs\<rparr>) = lane k s"
  "lane k (s\<lparr>dk_events := es\<rparr>) = lane k s"
  "lane k (s\<lparr>dk_completions := cs\<rparr>) = lane k s"
  by (cases k; simp)+

lemma send_request_fields [simp]:
  "dk_next_sequence (send_request k r rest s) = dk_next_sequence s"
  "dk_max_message_size (send_request k r rest s) = dk_max_message_size s"
  "dk_events (send_request k r rest s) = dk_events s"
  "dk_retry_queue (send_request k r rest s) =
     (if k = Reliable then tq_enqueue encoded_size (dr_packet r) (dk_retry_queue s) else dk_retry_queue s)"
  "lane k' (send_request k r rest s) =
     (if k' = k
      then (lane k s)\<lparr>ln_queue := rest,
             ln_buffered_amount := ln_buffered_amount (lane k s) + word_of_nat (length (ec_data (dr_packet r))),
             ln_calls := ln_calls (lane k s) @ [r]\<rparr>
      else lane k' s)"
  "map fst (dk_completions (send_request k r rest s)) =
     map fst (dk_completions s) @ (case dr_completion r of None \<Rightarrow> [] | Some n \<Rightarrow> [n])"
  by (simp_all add: send_request_def dc_send_outcome_def complete_def Let_def split: list.splits option.splits)

function send_until_threshold :: "data_kind \<Rightarrow> dc_task \<Rightarrow> dc_task" where
  "send_until_threshold kind s =
     (if ln_buffered_amount (lane kind s) \<le> ln_threshold (lane kind s)
      then (case ln_queue (lane kind s) of
              [] \<Rightarrow> s
            | request # rest \<Rightarrow> send_until_threshold kind (send_request kind request rest s))
      else s)"
  by pat_completeness auto
termination
  by (relation "measure (\<lambda>(kind, s). length (ln_queue (lane kind s)))") auto

declare send_until_threshold.simps [simp del]

text \<open>\<open>_enqueue_for_retry_from\<close>: a gap before the first packet of the retry queue is warned about, and the
  arithmetic of the warning panics on overflow. Then the retry queue is emptied; what is newer than the last message
  that the server has seen is put back into the event channel.\<close>

function retry_loop :: "u32 \<Rightarrow> dc_task \<Rightarrow> dc_task option" where
  "retry_loop last_sequence s =
     (case tq_inner (dk_retry_queue s) of
        [] \<Rightarrow> Some s
      | p # ps \<Rightarrow>
          (case tq_dequeue encoded_size (dk_retry_queue s) of
             None \<Rightarrow> None
           | Some (q, _) \<Rightarrow>
               retry_loop last_sequence
                 (if ec_sequence p \<le> last_sequence then s\<lparr>dk_retry_queue := q\<rparr>
                  else s\<lparr>dk_retry_queue := q,
                         dk_events := dk_events s @
                           [(Reliable, PublishData \<lparr>dr_packet = p, dr_completion = None\<rparr>)]\<rparr>)))"
  by pat_completeness auto
termination
  by (relation "measure (\<lambda>(_, s). length (tq_inner (dk_retry_queue s)))")
    (auto simp: tq_dequeue_def split: list.splits if_splits)

declare retry_loop.simps [simp del]

text \<open>The number of packets that the warning calls missing, zero when there is no warning.\<close>

definition retry_gap :: "u32 \<Rightarrow> encoded_packet \<Rightarrow> u32 option" where
  "retry_gap last_sequence first =
     Option.bind (checked_add last_sequence 1) (\<lambda>expected.
       if ec_sequence first > expected
       then Option.bind (checked_sub (ec_sequence first) last_sequence) (\<lambda>d. checked_sub d 1)
       else Some 0)"

definition enqueue_for_retry_from :: "u32 \<Rightarrow> dc_task \<Rightarrow> dc_task option" where
  "enqueue_for_retry_from last_sequence s =
     (case tq_peek (dk_retry_queue s) of
        None \<Rightarrow> retry_loop last_sequence s
      | Some first \<Rightarrow> Option.bind (retry_gap last_sequence first) (\<lambda>_. retry_loop last_sequence s))"

definition amount_changed :: "u64 \<Rightarrow> dc_lane \<Rightarrow> dc_lane" where
  "amount_changed sent l =
     (if ln_buffered_amount l < sent then l\<lparr>ln_buffered_amount := 0\<rparr>
      else l\<lparr>ln_buffered_amount := ln_buffered_amount l - sent\<rparr>)"

text \<open>The body of the loop for one event; \<open>None\<close> is a panic (or a trim that does not end).\<close>

fun process_dc_event :: "(data_packet \<Rightarrow> bytes) \<Rightarrow> data_kind \<times> dc_detail \<Rightarrow> dc_task \<Rightarrow> dc_task option" where
  "process_dc_event encode (kind, PublishPacket packet completion) s =
     (let (packet, s) =
            (if kind = Reliable
             then (packet\<lparr>dp_sequence := dk_next_sequence s\<rparr>, s\<lparr>dk_next_sequence := dk_next_sequence s + 1\<rparr>)
             else (packet, s));
          encoded = encoded_packet_of encode packet
      in if dk_max_message_size s \<noteq> 0 \<and> word_of_nat (length (ec_data encoded)) > dk_max_message_size s
         then Some (complete (Some completion) PublishTooLarge s)
         else Some (s\<lparr>dk_events := dk_events s @
                        [(kind, PublishData \<lparr>dr_packet = encoded, dr_completion = Some completion\<rparr>)]\<rparr>))"
| "process_dc_event encode (kind, PublishData request) s =
     (let l = lane kind s
      in Some (send_until_threshold kind (set_lane kind (l\<lparr>ln_queue := ln_queue l @ [request]\<rparr>) s)))"
| "process_dc_event encode (Lossy, BufferedAmountChange sent) s =
     Some (send_until_threshold Lossy (set_lane Lossy (amount_changed sent (lane Lossy s)) s))"
| "process_dc_event encode (Reliable, BufferedAmountChange sent) s =
     (let s = send_until_threshold Reliable (set_lane Reliable (amount_changed sent (lane Reliable s)) s)
      in map_option (\<lambda>q. s\<lparr>dk_retry_queue := q\<rparr>) (tq_trim encoded_size (unat sent) (dk_retry_queue s)))"
| "process_dc_event encode (kind, RetryFrom last_sequence) s =
     (if kind = Reliable then enqueue_for_retry_from last_sequence s else None)"

text \<open>What can happen: somebody publishes a packet, a channel reports bytes sent, a reconnection asks for a
  retry, the session stores another limit, and the task processes the next event.\<close>

datatype dc_input =
    Publish data_kind data_packet nat
  | AmountChange data_kind u64
  | Retry u32
  | StoreMaxMessageSize u64
  | StoreThreshold data_kind u64
  | NextEvent

definition dc_task_step :: "(data_packet \<Rightarrow> bytes) \<Rightarrow> dc_task \<Rightarrow> dc_input \<Rightarrow> dc_task option" where
  "dc_task_step encode s i =
     (case i of
        Publish kind packet completion \<Rightarrow> Some (s\<lparr>dk_events := dk_events s @ [(kind, PublishPacket packet completion)]\<rparr>)
      | AmountChange kind sent \<Rightarrow> Some (s\<lparr>dk_events := dk_events s @ [(kind, BufferedAmountChange sent)]\<rparr>)
      | Retry last_sequence \<Rightarrow> Some (s\<lparr>dk_events := dk_events s @ [(Reliable, RetryFrom last_sequence)]\<rparr>)
      | StoreMaxMessageSize n \<Rightarrow> Some (s\<lparr>dk_max_message_size := n\<rparr>)
      | StoreThreshold kind n \<Rightarrow> Some (set_lane kind ((lane kind s)\<lparr>ln_threshold := n\<rparr>) s)
      | NextEvent \<Rightarrow>
          (case dk_events s of
             [] \<Rightarrow> Some s
           | e # es \<Rightarrow> process_dc_event encode e (s\<lparr>dk_events := es\<rparr>)))"

section \<open>What the loops keep\<close>

definition fresh :: "dc_request list \<Rightarrow> nat list" where
  "fresh rs = List.map_filter dr_completion rs"

lemma fresh_simps [simp]:
  "fresh [] = []"
  "fresh (r # rs) = (case dr_completion r of None \<Rightarrow> fresh rs | Some n \<Rightarrow> n # fresh rs)"
  "fresh (rs @ rs') = fresh rs @ fresh rs'"
  by (auto simp: fresh_def List.map_filter_simps map_filter_def split: option.splits)

lemma send_unfold:
  "send_until_threshold k s =
     (if ln_buffered_amount (lane k s) \<le> ln_threshold (lane k s) \<and> ln_queue (lane k s) \<noteq> []
      then send_until_threshold k (send_request k (hd (ln_queue (lane k s))) (tl (ln_queue (lane k s))) s)
      else s)"
  by (subst send_until_threshold.simps) (auto split: list.splits)

lemma send_induct [case_names done_ step]:
  assumes done_: "\<And>s. ln_threshold (lane k s) < ln_buffered_amount (lane k s) \<or> ln_queue (lane k s) = [] \<Longrightarrow> P s s"
    and step: "\<And>s r rest. ln_queue (lane k s) = r # rest \<Longrightarrow> ln_buffered_amount (lane k s) \<le> ln_threshold (lane k s) \<Longrightarrow>
      P (send_request k r rest s) (send_until_threshold k (send_request k r rest s)) \<Longrightarrow>
      P s (send_until_threshold k (send_request k r rest s))"
  shows "P s (send_until_threshold k s)"
proof (induction "length (ln_queue (lane k s))" arbitrary: s rule: less_induct)
  case less
  show ?case
  proof (cases "ln_buffered_amount (lane k s) \<le> ln_threshold (lane k s) \<and> ln_queue (lane k s) \<noteq> []")
    case True
    then obtain r rest where queue: "ln_queue (lane k s) = r # rest" by (auto simp: neq_Nil_conv)
    with True have eq: "send_until_threshold k s = send_until_threshold k (send_request k r rest s)"
      by (subst send_unfold) simp
    show ?thesis unfolding eq by (rule step [OF queue]) (use True queue less in auto)
  next
    case False
    then have "send_until_threshold k s = s" by (subst send_unfold) (simp only: if_False)
    with False done_ [of s] show ?thesis by (auto simp: not_le)
  qed
qed

lemma send_keeps [simp]:
  "dk_events (send_until_threshold k s) = dk_events s"
  "dk_next_sequence (send_until_threshold k s) = dk_next_sequence s"
  "k' \<noteq> k \<Longrightarrow> lane k' (send_until_threshold k s) = lane k' s"
  by (induction rule: send_induct) auto

lemma send_order:
  "ln_calls (lane k (send_until_threshold k s)) @ ln_queue (lane k (send_until_threshold k s)) =
   ln_calls (lane k s) @ ln_queue (lane k s)"
  by (induction rule: send_induct) auto

lemma send_completions:
  "mset (map fst (dk_completions (send_until_threshold k s))) + mset (fresh (ln_queue (lane k (send_until_threshold k s)))) =
   mset (map fst (dk_completions s)) + mset (fresh (ln_queue (lane k s)))"
  by (induction rule: send_induct) (auto split: option.splits)

lemma send_stops:
  "ln_queue (lane k (send_until_threshold k s)) = [] \<or>
   ln_threshold (lane k s) < ln_buffered_amount (lane k (send_until_threshold k s))"
  by (induction rule: send_induct) auto

lemma send_retry_inv:
  "tq_inv encoded_size (dk_retry_queue s) \<Longrightarrow> tq_inv encoded_size (dk_retry_queue (send_until_threshold k s))"
  by (induction rule: send_induct) auto

text \<open>The retry queue holds the latest packets that were passed to the reliable channel.\<close>

definition retries_sent :: "dc_task \<Rightarrow> bool" where
  "retries_sent s \<longleftrightarrow> suffix (tq_inner (dk_retry_queue s)) (map dr_packet (ln_calls (lane Reliable s)))"

lemma send_retries_sent: "retries_sent s \<Longrightarrow> retries_sent (send_until_threshold k s)"
  by (induction rule: send_induct) (auto simp: retries_sent_def)

lemma retry_loop_eq:
  "tq_inv encoded_size (dk_retry_queue s) \<Longrightarrow>
   \<exists>q. tq_inv encoded_size q \<and> tq_inner q = [] \<and>
     retry_loop last_sequence s =
       Some (s\<lparr>dk_retry_queue := q,
               dk_events := dk_events s @
                 map (\<lambda>p. (Reliable, PublishData \<lparr>dr_packet = p, dr_completion = None\<rparr>))
                   (filter (\<lambda>p. last_sequence < ec_sequence p) (tq_inner (dk_retry_queue s)))\<rparr>)"
proof (induction "tq_inner (dk_retry_queue s)" arbitrary: s)
  case Nil
  then show ?case by (subst retry_loop.simps) (auto intro!: exI [of _ "dk_retry_queue s"])
next
  case (Cons p ps)
  then obtain q where q: "tq_inv encoded_size q" "tq_inner q = ps"
      "tq_dequeue encoded_size (dk_retry_queue s) = Some (q, Some p)"
    using tq.dequeue_cons [of encoded_size "dk_retry_queue s" p ps] by auto
  note inner = Cons.hyps(2) [symmetric] and IH = Cons.hyps(1)
  show ?case
  proof (cases "ec_sequence p \<le> last_sequence")
    case True
    then have "retry_loop last_sequence s =
        retry_loop last_sequence (s\<lparr>dk_retry_queue := q\<rparr>)"
      by (subst retry_loop.simps) (simp add: q inner)
    moreover from True have "\<not> last_sequence < ec_sequence p" by simp
    ultimately show ?thesis using IH [of "s\<lparr>dk_retry_queue := q\<rparr>"] q(1,2) inner by simp
  next
    case False
    let ?s = "s\<lparr>dk_retry_queue := q,
      dk_events := dk_events s @ [(Reliable, PublishData \<lparr>dr_packet = p, dr_completion = None\<rparr>)]\<rparr>"
    from False have "retry_loop last_sequence s = retry_loop last_sequence ?s"
      by (subst retry_loop.simps) (simp add: q inner)
    with False IH [of ?s] q(1,2) inner show ?thesis by (simp add: not_le)
  qed
qed

text \<open>The one overflow: the server acknowledges the greatest sequence number there is.\<close>

lemma retry_gap_defined: "retry_gap l p = None \<longleftrightarrow> l = 0xFFFFFFFF"
proof -
  have "unat l < 2 ^ 32" using unsigned_less [of l] by simp
  then have top: "checked_add l 1 = None \<longleftrightarrow> l = 0xFFFFFFFF"
    by (auto simp: checked_add_None word_unat_eq_iff)
  have "checked_sub (ec_sequence p) l = Some (ec_sequence p - l) \<and> 1 \<le> ec_sequence p - l"
    if "checked_add l 1 = Some e" "e < ec_sequence p" for e
  proof -
    have "unat l + 1 < unat (ec_sequence p)"
      using checked_add_Some [OF that(1)] that(2) by (simp add: word_less_nat_alt)
    then show ?thesis
      by (simp add: checked_sub_def word_le_nat_alt unat_sub)
  qed
  then show ?thesis
    by (cases "checked_add l 1") (auto simp: retry_gap_def checked_sub_def simp flip: top)
qed

lemma retry_overflows:
  "tq_inner (dk_retry_queue s) \<noteq> [] \<Longrightarrow> enqueue_for_retry_from 0xFFFFFFFF s = None"
  using retry_gap_defined [of "0xFFFFFFFF"]
  by (auto simp: enqueue_for_retry_from_def tq_peek_def split: list.splits)

lemma retry_eq:
  assumes "tq_inv encoded_size (dk_retry_queue s)"
    and "last_sequence \<noteq> 0xFFFFFFFF \<or> tq_inner (dk_retry_queue s) = []"
  shows "\<exists>q. tq_inv encoded_size q \<and> tq_inner q = [] \<and>
     enqueue_for_retry_from last_sequence s =
       Some (s\<lparr>dk_retry_queue := q,
               dk_events := dk_events s @
                 map (\<lambda>p. (Reliable, PublishData \<lparr>dr_packet = p, dr_completion = None\<rparr>))
                   (filter (\<lambda>p. last_sequence < ec_sequence p) (tq_inner (dk_retry_queue s)))\<rparr>)"
proof -
  have "enqueue_for_retry_from last_sequence s = retry_loop last_sequence s"
  proof (cases "tq_inner (dk_retry_queue s)")
    case (Cons p ps)
    with assms(2) obtain g where "retry_gap last_sequence p = Some g"
      using retry_gap_defined [of last_sequence p] by auto
    with Cons show ?thesis by (simp add: enqueue_for_retry_from_def tq_peek_def)
  qed (simp add: enqueue_for_retry_from_def tq_peek_def)
  with retry_loop_eq [OF assms(1)] show ?thesis by simp
qed

section \<open>Every request is answered once, in order\<close>

definition data_requests :: "data_kind \<Rightarrow> (data_kind \<times> dc_detail) list \<Rightarrow> dc_request list" where
  "data_requests k es =
     List.map_filter (\<lambda>(k', d). case d of PublishData r \<Rightarrow> if k' = k then Some r else None | _ \<Rightarrow> None) es"

definition packet_ids :: "data_kind \<Rightarrow> (data_kind \<times> dc_detail) list \<Rightarrow> nat list" where
  "packet_ids k es =
     List.map_filter (\<lambda>(k', d). case d of PublishPacket p n \<Rightarrow> if k' = k then Some n else None | _ \<Rightarrow> None) es"

lemma data_requests_simps [simp]:
  "data_requests k [] = []"
  "data_requests k ((k', PublishData r) # es) = (if k' = k then r # data_requests k es else data_requests k es)"
  "data_requests k ((k', PublishPacket p n) # es) = data_requests k es"
  "data_requests k ((k', BufferedAmountChange a) # es) = data_requests k es"
  "data_requests k ((k', RetryFrom l) # es) = data_requests k es"
  "data_requests k (es @ es') = data_requests k es @ data_requests k es'"
  by (auto simp: data_requests_def map_filter_def)

lemma packet_ids_simps [simp]:
  "packet_ids k [] = []"
  "packet_ids k ((k', PublishPacket p n) # es) = (if k' = k then n # packet_ids k es else packet_ids k es)"
  "packet_ids k ((k', PublishData r) # es) = packet_ids k es"
  "packet_ids k ((k', BufferedAmountChange a) # es) = packet_ids k es"
  "packet_ids k ((k', RetryFrom l) # es) = packet_ids k es"
  "packet_ids k (es @ es') = packet_ids k es @ packet_ids k es'"
  by (auto simp: packet_ids_def map_filter_def)

lemma retry_events [simp]:
  "fresh (data_requests k (map (\<lambda>p. (Reliable, PublishData \<lparr>dr_packet = p, dr_completion = None\<rparr>)) ps)) = []"
  "packet_ids k (map (\<lambda>p. (Reliable, PublishData \<lparr>dr_packet = p, dr_completion = None\<rparr>)) ps) = []"
  by (induction ps) auto

text \<open>The requests of a kind that are still to be answered, in the order in which they will be, and all that
  were not rejected for their size.\<close>

definition waiting :: "data_kind \<Rightarrow> dc_task \<Rightarrow> nat list" where
  "waiting k s = fresh (ln_queue (lane k s) @ data_requests k (dk_events s)) @ packet_ids k (dk_events s)"

definition flow :: "data_kind \<Rightarrow> dc_task \<Rightarrow> nat list" where
  "flow k s = fresh (ln_calls (lane k s)) @ waiting k s"

fun published_by :: "dc_input \<Rightarrow> (data_kind \<times> nat) list" where
  "published_by (Publish k p n) = [(k, n)]"
| "published_by _ = []"

definition ids_of :: "data_kind \<Rightarrow> (data_kind \<times> nat) list \<Rightarrow> nat list" where
  "ids_of k h = map snd (filter (\<lambda>x. fst x = k) h)"

definition answered :: "dc_task \<Rightarrow> nat multiset" where
  "answered s = mset (map fst (dk_completions s)) + mset (waiting Lossy s) + mset (waiting Reliable s)"

definition dc_task_inv :: "(data_kind \<times> nat) list \<Rightarrow> dc_task \<Rightarrow> bool" where
  "dc_task_inv h s \<longleftrightarrow>
     tq_inv encoded_size (dk_retry_queue s) \<and> retries_sent s \<and>
     (\<forall>k. subseq (flow k s) (ids_of k h)) \<and> answered s = mset (map snd h) \<and>
     (\<forall>k l. (k, RetryFrom l) \<in> set (dk_events s) \<longrightarrow> k = Reliable)"

lemma ids_of_append [simp]: "ids_of k (h @ h') = ids_of k h @ ids_of k h'"
  by (simp add: ids_of_def)

lemma ids_of_single [simp]: "ids_of k [] = []" "ids_of k [(k', n)] = (if k' = k then [n] else [])"
  by (simp_all add: ids_of_def)

lemma dc_task_inv_new [simp]: "dc_task_inv [] (dc_task_new outcomes)"
proof -
  have "lane k (dc_task_new outcomes) = dc_lane_new" for k by (cases k) (simp_all add: dc_task_new_def)
  then show ?thesis
    by (simp add: dc_task_inv_def dc_task_new_def dc_lane_new_def flow_def waiting_def answered_def retries_sent_def)
qed

text \<open>Sending moves requests from the queue to the answered ones.\<close>

lemma send_flow [simp]: "flow k' (send_until_threshold k s) = flow k' s"
proof (cases "k' = k")
  case True
  then show ?thesis
    using arg_cong [OF send_order [of k s], of fresh] by (simp add: flow_def waiting_def)
qed (simp add: flow_def waiting_def)

lemma send_answered [simp]: "answered (send_until_threshold k s) = answered s"
proof -
  have "answered s' = mset (map fst (dk_completions s')) + mset (fresh (ln_queue (lane k s'))) +
      mset (fresh (ln_queue (lane k' s'))) + mset (fresh (data_requests Lossy (dk_events s'))) +
      mset (fresh (data_requests Reliable (dk_events s'))) + mset (packet_ids Lossy (dk_events s')) +
      mset (packet_ids Reliable (dk_events s'))" if "k' \<noteq> k" for k' s'
    using that by (cases k; cases k') (simp_all add: answered_def waiting_def)
  moreover obtain k' where "k' \<noteq> k" by (cases k) auto
  ultimately show ?thesis using send_completions [of k s] by simp
qed

lemma send_inv: "dc_task_inv h s \<Longrightarrow> dc_task_inv h (send_until_threshold k s)"
  by (simp add: dc_task_inv_def send_retry_inv send_retries_sent)

text \<open>What is to be shown for an event: the loops return, the requests keep their order and every request is
  still answered or waiting.\<close>

lemma dc_task_inv_mono:
  assumes "dc_task_inv h s" "tq_inv encoded_size (dk_retry_queue s')" "retries_sent s'"
    and "\<And>k. subseq (flow k s') (flow k s)" "answered s' = answered s"
    and "\<And>k l. (k, RetryFrom l) \<in> set (dk_events s') \<Longrightarrow> (k, RetryFrom l) \<in> set (dk_events s)"
  shows "dc_task_inv h s'"
  unfolding dc_task_inv_def
proof (intro conjI allI)
  fix k
  have "subseq (flow k s) (ids_of k h)" using assms(1) by (simp add: dc_task_inv_def)
  with assms(4) show "subseq (flow k s') (ids_of k h)" by (rule subseq_order.trans)
next
  fix k l
  show "(k, RetryFrom l) \<in> set (dk_events s') \<longrightarrow> k = Reliable"
    using assms(1) assms(6) [of k l] unfolding dc_task_inv_def by blast
qed (use assms(1,2,3,5) in \<open>auto simp: dc_task_inv_def\<close>)

lemmas flow_defs = flow_def waiting_def answered_def retries_sent_def

lemma publish_packet_inv:
  assumes inv: "dc_task_inv h s" and events: "dk_events s = (kind, PublishPacket packet n) # es"
    and result: "process_dc_event encode (kind, PublishPacket packet n) (s\<lparr>dk_events := es\<rparr>) = Some s'"
  shows "dc_task_inv h s'"
proof -
  define s0 where "s0 = (if kind = Reliable then s\<lparr>dk_next_sequence := dk_next_sequence s + 1\<rparr> else s)"
  have s0: "lane k s0 = lane k s" "dk_completions s0 = dk_completions s" "dk_retry_queue s0 = dk_retry_queue s" for k
    by (simp_all add: s0_def)
  from result consider "s' = complete (Some n) PublishTooLarge (s0\<lparr>dk_events := es\<rparr>)"
    | p where "s' = s0\<lparr>dk_events := es @ [(kind, PublishData \<lparr>dr_packet = p, dr_completion = Some n\<rparr>)]\<rparr>"
    by (cases kind) (auto simp: s0_def Let_def complete_def split: if_splits)
  then show ?thesis
  proof cases
    case 1
    show ?thesis
    proof (rule dc_task_inv_mono [OF inv])
      fix k
      show "subseq (flow k s') (flow k s)"
        by (auto simp: 1 s0 flow_defs complete_def events intro!: list_emb_append_mono)
      show "answered s' = answered s"
        by (cases kind) (simp_all add: 1 s0 flow_defs complete_def events flip: lane.simps)
    qed (use inv in \<open>auto simp: 1 s0 dc_task_inv_def flow_defs complete_def events simp flip: lane.simps\<close>)
  next
    case 2
    show ?thesis
    proof (rule dc_task_inv_mono [OF inv])
      fix k
      show "subseq (flow k s') (flow k s)" by (auto simp: 2 s0 flow_defs events)
      show "answered s' = answered s"
        by (cases kind) (simp_all add: 2 s0 flow_defs events flip: lane.simps)
    qed (use inv in \<open>auto simp: 2 s0 dc_task_inv_def flow_defs events simp flip: lane.simps\<close>)
  qed
qed

lemma publish_data_inv:
  assumes inv: "dc_task_inv h s" and events: "dk_events s = (kind, PublishData r) # es"
    and result: "process_dc_event encode (kind, PublishData r) (s\<lparr>dk_events := es\<rparr>) = Some s'"
  shows "dc_task_inv h s'"
proof -
  let ?s = "set_lane kind ((lane kind s)\<lparr>ln_queue := ln_queue (lane kind s) @ [r]\<rparr>) (s\<lparr>dk_events := es\<rparr>)"
  have "dc_task_inv h ?s"
  proof (rule dc_task_inv_mono [OF inv])
    fix k
    show "subseq (flow k ?s) (flow k s)" by (auto simp: flow_defs events split: option.splits)
    show "answered ?s = answered s"
      by (cases kind) (auto simp: flow_defs events split: option.splits)
  qed (use inv in \<open>auto simp: dc_task_inv_def flow_defs events\<close>)
  moreover have "s' = send_until_threshold kind ?s" using result by (simp add: Let_def)
  ultimately show ?thesis using send_inv by simp
qed

lemma amount_change_inv:
  assumes inv: "dc_task_inv h s" and events: "dk_events s = (kind, BufferedAmountChange sent) # es"
  shows "\<exists>s'. process_dc_event encode (kind, BufferedAmountChange sent) (s\<lparr>dk_events := es\<rparr>) = Some s' \<and>
    dc_task_inv h s'"
proof -
  let ?s = "set_lane kind (amount_changed sent (lane kind s)) (s\<lparr>dk_events := es\<rparr>)"
  have "dc_task_inv h ?s"
  proof (rule dc_task_inv_mono [OF inv])
    fix k
    show "subseq (flow k ?s) (flow k s)" by (auto simp: flow_defs events amount_changed_def)
    show "answered ?s = answered s" by (cases kind) (auto simp: flow_defs events amount_changed_def)
  qed (use inv in \<open>auto simp: dc_task_inv_def flow_defs events amount_changed_def\<close>)
  then have inv': "dc_task_inv h (send_until_threshold kind ?s)" by (rule send_inv)
  show ?thesis
  proof (cases kind)
    case Lossy
    with inv' show ?thesis by simp
  next
    case Reliable
    let ?s' = "send_until_threshold kind ?s"
    from inv' have "tq_inv encoded_size (dk_retry_queue ?s')" unfolding dc_task_inv_def by (elim conjE)
    from tq.trim_returns [OF this] obtain q where q: "tq_trim encoded_size (unat sent) (dk_retry_queue ?s') = Some q"
        "tq_inv encoded_size q" "tq_inner q = trim_list encoded_size (unat sent) (tq_inner (dk_retry_queue ?s'))" by blast
    have "dc_task_inv h (?s'\<lparr>dk_retry_queue := q\<rparr>)"
    proof (rule dc_task_inv_mono [OF inv'])
      have "suffix (tq_inner q) (tq_inner (dk_retry_queue ?s'))" by (simp add: q(3) trim_list_suffix)
      with inv' show "retries_sent (?s'\<lparr>dk_retry_queue := q\<rparr>)"
        by (auto simp: dc_task_inv_def retries_sent_def intro: suffix_order.trans)
    qed (use q in \<open>auto simp: flow_defs\<close>)
    with Reliable q(1) show ?thesis by (simp add: Let_def)
  qed
qed

lemma retry_inv:
  assumes inv: "dc_task_inv h s" and events: "dk_events s = (kind, RetryFrom l) # es"
    and room: "l \<noteq> 0xFFFFFFFF \<or> tq_inner (dk_retry_queue s) = []"
  shows "\<exists>s'. process_dc_event encode (kind, RetryFrom l) (s\<lparr>dk_events := es\<rparr>) = Some s' \<and> dc_task_inv h s'"
proof -
  from inv events have kind: "kind = Reliable" by (auto simp: dc_task_inv_def)
  from inv have "tq_inv encoded_size (dk_retry_queue (s\<lparr>dk_events := es\<rparr>))" by (simp add: dc_task_inv_def)
  from retry_eq [OF this, of l] room obtain q where q: "tq_inv encoded_size q" "tq_inner q = []"
      "enqueue_for_retry_from l (s\<lparr>dk_events := es\<rparr>) =
        Some (s\<lparr>dk_events := es @ map (\<lambda>p. (Reliable, PublishData \<lparr>dr_packet = p, dr_completion = None\<rparr>))
           (filter (\<lambda>p. l < ec_sequence p) (tq_inner (dk_retry_queue s))), dk_retry_queue := q\<rparr>)" (is "_ = Some ?s'")
    by auto
  have "dc_task_inv h ?s'"
  proof (rule dc_task_inv_mono [OF inv])
    fix k
    show "subseq (flow k ?s') (flow k s)" by (simp add: flow_defs events)
    show "answered ?s' = answered s" by (simp add: flow_defs events)
  qed (use q in \<open>auto simp: flow_defs events\<close>)
  with q(3) kind show ?thesis by simp
qed

text \<open>The event at which the task panics.\<close>

definition retry_overflow :: "dc_task \<Rightarrow> bool" where
  "retry_overflow s \<longleftrightarrow>
     (\<exists>es. dk_events s = (Reliable, RetryFrom 0xFFFFFFFF) # es) \<and> tq_inner (dk_retry_queue s) \<noteq> []"

lemma process_dc_event_overflow:
  assumes "dk_events s = e # es" "retry_overflow s"
  shows "process_dc_event encode e (s\<lparr>dk_events := es\<rparr>) = None"
  using assms retry_overflows [of "s\<lparr>dk_events := es\<rparr>"] by (auto simp: retry_overflow_def)

lemma process_dc_event_inv:
  assumes "dc_task_inv h s" "dk_events s = e # es" "\<not> retry_overflow s"
  shows "\<exists>s'. process_dc_event encode e (s\<lparr>dk_events := es\<rparr>) = Some s' \<and> dc_task_inv h s'"
proof (cases e)
  case (Pair kind d)
  show ?thesis
  proof (cases d)
    case (PublishPacket p n)
    have "\<exists>s'. process_dc_event encode e (s\<lparr>dk_events := es\<rparr>) = Some s'"
      by (simp add: Pair PublishPacket Let_def split: prod.splits)
    with publish_packet_inv [OF assms(1)] assms(2) Pair PublishPacket show ?thesis by blast
  next
    case (PublishData r)
    then show ?thesis using publish_data_inv [OF assms(1)] assms(2) Pair by (simp add: Let_def)
  next
    case (BufferedAmountChange sent)
    then show ?thesis using amount_change_inv [OF assms(1)] assms(2) Pair by simp
  next
    case (RetryFrom l)
    have "kind = Reliable" using assms(1,2) Pair RetryFrom by (auto simp: dc_task_inv_def)
    with assms(2,3) Pair RetryFrom have "l \<noteq> 0xFFFFFFFF \<or> tq_inner (dk_retry_queue s) = []"
      by (auto simp: retry_overflow_def)
    with retry_inv [OF assms(1)] assms(2) Pair RetryFrom show ?thesis by simp
  qed
qed

definition dc_log_step ::
    "(data_packet \<Rightarrow> bytes) \<Rightarrow> dc_task option \<times> (data_kind \<times> nat) list \<Rightarrow> dc_input \<Rightarrow>
     dc_task option \<times> (data_kind \<times> nat) list" where
  "dc_log_step encode = (\<lambda>(s, h) i. (Option.bind s (\<lambda>s. dc_task_step encode s i), h @ published_by i))"

definition dc_log_inv :: "dc_task option \<times> (data_kind \<times> nat) list \<Rightarrow> bool" where
  "dc_log_inv = (\<lambda>(s, h). case s of None \<Rightarrow> True | Some t \<Rightarrow> dc_task_inv h t)"

lemma dc_task_step_inv:
  assumes t: "dc_task_inv h t" and ok: "\<not> (i = NextEvent \<and> retry_overflow t)"
  shows "\<exists>t'. dc_task_step encode t i = Some t' \<and> dc_task_inv (h @ published_by i) t'"
proof (cases i)
  case NextEvent
  with t ok process_dc_event_inv [OF t] show ?thesis
    by (auto simp: dc_task_step_def split: list.splits)
next
  case (Publish k p n)
  let ?t = "t\<lparr>dk_events := dk_events t @ [(k, PublishPacket p n)]\<rparr>"
  have flow: "flow k' ?t = flow k' t @ ids_of k' [(k, n)]" for k' by (simp add: flow_defs)
  have answered: "answered ?t = answered t + {#n#}" by (cases k) (simp_all add: flow_defs)
  have "dc_task_inv (h @ [(k, n)]) ?t"
    using t by (auto simp: dc_task_inv_def flow answered simp del: ids_of_single,
      auto simp: retries_sent_def intro: list_emb_append_mono)
  with Publish show ?thesis by (simp add: dc_task_step_def)
next
  case (StoreThreshold k m)
  let ?t = "set_lane k ((lane k t)\<lparr>ln_threshold := m\<rparr>) t"
  have "dc_task_inv h ?t"
  proof (rule dc_task_inv_mono [OF t])
    show "answered ?t = answered t" by (cases k) (simp_all add: flow_defs)
  qed (use t in \<open>auto simp: dc_task_inv_def flow_defs\<close>)
  with StoreThreshold show ?thesis by (simp add: dc_task_step_def)
qed (use t in \<open>auto simp: dc_task_step_def dc_task_inv_def flow_defs\<close>)

lemma dc_task_step_None:
  assumes "dc_task_inv h t"
  shows "dc_task_step encode t i = None \<longleftrightarrow> i = NextEvent \<and> retry_overflow t"
proof (cases "i = NextEvent \<and> retry_overflow t")
  case True
  then have "dk_events t \<noteq> []" by (auto simp: retry_overflow_def)
  with True process_dc_event_overflow [of t] show ?thesis
    by (auto simp: dc_task_step_def split: list.splits)
next
  case False
  with dc_task_step_inv [OF assms False, of encode] show ?thesis by auto
qed

interpretation dc_task_actor: actor "(Some (dc_task_new outcomes), [])" "dc_log_step encode" "\<lambda>_ _. True" dc_log_inv
  for outcomes encode
proof
  fix s :: "dc_task option \<times> (data_kind \<times> nat) list" and i
  assume inv: "dc_log_inv s"
  show "dc_log_inv (dc_log_step encode s i)"
  proof (cases "fst s")
    case (Some t)
    with inv have t: "dc_task_inv (snd s) t" by (simp add: dc_log_inv_def split_beta)
    show ?thesis
    proof (cases "i = NextEvent \<and> retry_overflow t")
      case True
      with Some dc_task_step_None [OF t, of encode i] show ?thesis
        by (simp add: dc_log_step_def dc_log_inv_def split_beta)
    next
      case False
      with Some dc_task_step_inv [OF t False, of encode] show ?thesis
        by (auto simp: dc_log_step_def dc_log_inv_def split_beta)
    qed
  qed (simp add: dc_log_step_def dc_log_inv_def split_beta)
qed (simp add: dc_log_inv_def)

definition dc_run :: "(data_packet \<Rightarrow> bytes) \<Rightarrow> bool list \<Rightarrow> dc_input list \<Rightarrow> dc_task option" where
  "dc_run encode outcomes is = fold (\<lambda>i s. Option.bind s (\<lambda>s. dc_task_step encode s i)) is (Some (dc_task_new outcomes))"

lemma dc_run_inv:
  assumes "dc_run encode outcomes is = Some s"
  shows "dc_task_inv (concat (map published_by is)) s"
proof -
  have "actor_run (dc_log_step encode) (s, h) is =
      (fold (\<lambda>i s. Option.bind s (\<lambda>s. dc_task_step encode s i)) is s, h @ concat (map published_by is))" for s h
    by (induction "is" arbitrary: s h) (auto simp: dc_log_step_def)
  with dc_task_actor.inv_reachable [of encode outcomes "is"] assms show ?thesis
    by (simp add: dc_log_inv_def dc_run_def)
qed

lemma dc_run_simps [simp]:
  "dc_run encode outcomes [] = Some (dc_task_new outcomes)"
  "dc_run encode outcomes (is @ [i]) = Option.bind (dc_run encode outcomes is) (\<lambda>s. dc_task_step encode s i)"
  by (simp_all add: dc_run_def)

lemma dc_run_dead: "dc_run encode outcomes is = None \<Longrightarrow> dc_run encode outcomes (is @ js) = None"
proof (induction js rule: rev_induct)
  case (snoc j js)
  then show ?case by (simp flip: append_assoc)
qed simp



section \<open>Retries\<close>

text \<open>An encoding that is enough for examples: the payload of a user packet.\<close>

definition sample_encode :: "data_packet \<Rightarrow> bytes" where
  "sample_encode p = (case dp_value p of Some (UserValue u) \<Rightarrow> up_payload u | _ \<Rightarrow> [])"

definition sample_user :: "bytes \<Rightarrow> user_packet" where
  "sample_user payload =
     \<lparr>up_participant_sid = '''', up_participant_identity = '''', up_payload = payload, up_destination_sids = [],
      up_destination_identities = [], up_topic = None, up_id = None, up_start_time = None, up_end_time = None,
      up_nonce = []\<rparr>"

definition sample_user_packet :: "bytes \<Rightarrow> data_packet" where
  "sample_user_packet payload = data_packet_default\<lparr>dp_value := Some (UserValue (sample_user payload))\<rparr>"





text \<open>C34. The retry queue does not keep what the channel has not sent yet: after a report of sent bytes it is cut to as
  many bytes as the report says were sent, not to those still buffered. In every reachable state, what a reconnection
  after such a report sends again amounts to at most the bytes reported, whatever is still buffered and
  whatever the server has seen, and the rest is gone for good, since the retry queue is empty then.\<close>

theorem retry_loses_buffered:
  assumes run: "dc_run encode outcomes is = Some s" "dk_events s = (Reliable, BufferedAmountChange sent) # es"
    and report: "dc_task_step encode s NextEvent = Some s'"
    and retry: "enqueue_for_retry_from last_sequence s' = Some s''"
  shows "\<exists>ps. dk_events s'' = dk_events s' @
      map (\<lambda>p. (Reliable, PublishData \<lparr>dr_packet = p, dr_completion = None\<rparr>)) ps \<and>
    sum_list (map (length \<circ> ec_data) ps) \<le> unat sent \<and> tq_inner (dk_retry_queue s'') = []"
proof -
  have inv: "dc_task_inv (concat (map published_by (is @ [NextEvent]))) s'"
    using run report by (intro dc_run_inv [of encode outcomes]) simp
  let ?s = "send_until_threshold Reliable (set_lane Reliable (amount_changed sent (lane Reliable s)) (s\<lparr>dk_events := es\<rparr>))"
  obtain q where q: "tq_trim encoded_size (unat sent) (dk_retry_queue ?s) = Some q" "dk_retry_queue s' = q"
    using report run(2) by (auto simp: dc_task_step_def Let_def)
  have "tq_inv encoded_size (dk_retry_queue s)"
    using dc_run_inv [OF run(1)] by (simp add: dc_task_inv_def)
  then have "tq_inv encoded_size (dk_retry_queue ?s)"
    by (intro send_retry_inv) simp
  from tq.trim_items [OF this q(1)] have le: "sum_list (map encoded_size (tq_inner (dk_retry_queue s'))) \<le> unat sent"
    using trim_list_le q(2) by simp
  have "tq_inv encoded_size (dk_retry_queue s')" using inv by (simp add: dc_task_inv_def)
  moreover have "last_sequence \<noteq> 0xFFFFFFFF \<or> tq_inner (dk_retry_queue s') = []"
    using retry retry_overflows [of s'] by (cases "tq_inner (dk_retry_queue s')") auto
  ultimately obtain q' where "tq_inner q' = []" "s'' = s'\<lparr>dk_retry_queue := q', dk_events := dk_events s' @
      map (\<lambda>p. (Reliable, PublishData \<lparr>dr_packet = p, dr_completion = None\<rparr>))
        (filter (\<lambda>p. last_sequence < ec_sequence p) (tq_inner (dk_retry_queue s')))\<rparr>"
    using retry_eq [of s' last_sequence] retry by auto
  moreover have "sum_list (map (length \<circ> ec_data) (filter (\<lambda>p. last_sequence < ec_sequence p) (tq_inner (dk_retry_queue s'))))
      \<le> unat sent"
    using le_trans [OF sum_list_filter_le_nat le] by (simp add: encoded_size_def [abs_def] comp_def)
  ultimately show ?thesis by auto
qed

text \<open>Two reliable packets of one and three bytes go to the channel, which then reports that it has sent the
  first. The second one is still buffered, but it is not sent again to a server that has only seen the first.\<close>

definition sample_inputs :: "dc_input list" where
  "sample_inputs =
     [Publish Reliable (sample_user_packet [1]) 0, Publish Reliable (sample_user_packet [2, 3, 4]) 1,
      NextEvent, NextEvent, NextEvent, NextEvent, AmountChange Reliable 1]"

definition sample_before :: dc_task where "sample_before = the (dc_run sample_encode [] sample_inputs)"
definition sample_after :: dc_task where "sample_after = the (dc_task_step sample_encode sample_before NextEvent)"
definition sample_retried :: dc_task where "sample_retried = the (enqueue_for_retry_from 1 sample_after)"

fun only_report :: "u64 \<Rightarrow> (data_kind \<times> dc_detail) list \<Rightarrow> bool" where
  "only_report n [(Reliable, BufferedAmountChange sent)] \<longleftrightarrow> sent = n"
| "only_report n _ \<longleftrightarrow> False"

theorem retry_loses_buffered_witness:
  "map (ec_data \<circ> dr_packet) (ln_calls (dk_reliable sample_after)) = [[1], [2, 3, 4]] \<and>
   ln_buffered_amount (dk_reliable sample_after) = 3 \<and> dk_events sample_retried = [] \<and>
   tq_inner (dk_retry_queue sample_retried) = []"
proof -
  have defined: "x = Some (the x)" if "\<not> Option.is_none x" for x :: "dc_task option"
    using that by (auto simp: Option.is_none_def)
  have "\<not> Option.is_none (dc_run sample_encode [] sample_inputs)" by code_simp
  then have "dc_run sample_encode [] sample_inputs = Some sample_before"
    unfolding sample_before_def by (rule defined)
  moreover have "only_report 1 (dk_events sample_before)" by code_simp
  then have "dk_events sample_before = (Reliable, BufferedAmountChange 1) # []"
    by (auto elim: only_report.elims)
  moreover have "\<not> Option.is_none (dc_task_step sample_encode sample_before NextEvent)" by code_simp
  then have "dc_task_step sample_encode sample_before NextEvent = Some sample_after"
    unfolding sample_after_def by (rule defined)
  moreover have "\<not> Option.is_none (enqueue_for_retry_from 1 sample_after)" by code_simp
  then have "enqueue_for_retry_from 1 sample_after = Some sample_retried"
    unfolding sample_retried_def by (rule defined)
  ultimately have "tq_inner (dk_retry_queue sample_retried) = []"
    using retry_loses_buffered [of sample_encode "[]" sample_inputs sample_before 1 "[]" sample_after 1 sample_retried] by blast
  moreover have "map (ec_data \<circ> dr_packet) (ln_calls (dk_reliable sample_after)) = [[1], [2, 3, 4]]"
      "ln_buffered_amount (dk_reliable sample_after) = 3" "length (dk_events sample_retried) = 0"
    by code_simp+
  ultimately show ?thesis by simp
qed

end
