(* ===== verification/Session_Data.thy ===== *)
theory Session_Data
  imports Data_Channel
begin

text \<open>
  Data packets at the two ends of a session, \<^verbatim>\<open>livekit/src/rtc_engine/rtc_session.rs\<close>: what \<open>publish_data\<close> gives to
  the sending task, and what becomes of a message that arrives on a data channel (\<open>RtcEvent::Data\<close>,
  \<open>emit_incoming_packet\<close>), with the record of received sequence numbers that a reconnection reports; and the
  identifiers of \<^verbatim>\<open>livekit/src/room/id.rs\<close>.

  As before, the codecs of the protocol messages and the native cipher are parameters. The payload of an encrypted packet
  is an optional value.
\<close>

section \<open>Identifiers\<close>

text \<open>An identifier with its prefix; the conversion of a string to a participant identity never fails.\<close>

definition strip_ok :: "string \<Rightarrow> string \<Rightarrow> string option" where
  "strip_ok pre s = (if take (length pre) s = pre then Some s else None)"

definition room_sid_of :: "string \<Rightarrow> string option" where "room_sid_of = strip_ok ''RM_''"
definition participant_sid_of :: "string \<Rightarrow> string option" where "participant_sid_of = strip_ok ''PA_''"
definition track_sid_of :: "string \<Rightarrow> string option" where "track_sid_of = strip_ok ''TR_''"
definition participant_identity_of :: "string \<Rightarrow> string option" where "participant_identity_of s = Some s"

section \<open>Encryptable values\<close>

datatype payload_value =
    PlUser user_packet
  | PlChatMessage chat_message
  | PlRpcRequest rpc_request
  | PlRpcAck string
  | PlRpcResponse rpc_response
  | PlStreamHeader stream_header
  | PlStreamChunk stream_chunk
  | PlStreamTrailer stream_trailer

fun convert_encrypted_to_data_packet_value :: "payload_value \<Rightarrow> packet_value" where
  "convert_encrypted_to_data_packet_value (PlUser user) = UserValue user"
| "convert_encrypted_to_data_packet_value (PlChatMessage msg) = ChatMessageValue msg"
| "convert_encrypted_to_data_packet_value (PlRpcRequest req) = RpcRequestValue req"
| "convert_encrypted_to_data_packet_value (PlRpcResponse resp) = RpcResponseValue resp"
| "convert_encrypted_to_data_packet_value (PlRpcAck ack) = RpcAckValue ack"
| "convert_encrypted_to_data_packet_value (PlStreamHeader header) = StreamHeaderValue header"
| "convert_encrypted_to_data_packet_value (PlStreamChunk chunk) = StreamChunkValue chunk"
| "convert_encrypted_to_data_packet_value (PlStreamTrailer trailer) = StreamTrailerValue trailer"

fun convert_data_packet_to_encrypted_value :: "packet_value \<Rightarrow> payload_value option" where
  "convert_data_packet_to_encrypted_value (UserValue user) = Some (PlUser user)"
| "convert_data_packet_to_encrypted_value (ChatMessageValue msg) = Some (PlChatMessage msg)"
| "convert_data_packet_to_encrypted_value (RpcRequestValue req) = Some (PlRpcRequest req)"
| "convert_data_packet_to_encrypted_value (RpcResponseValue resp) = Some (PlRpcResponse resp)"
| "convert_data_packet_to_encrypted_value (RpcAckValue ack) = Some (PlRpcAck ack)"
| "convert_data_packet_to_encrypted_value (StreamHeaderValue header) = Some (PlStreamHeader header)"
| "convert_data_packet_to_encrypted_value (StreamChunkValue chunk) = Some (PlStreamChunk chunk)"
| "convert_data_packet_to_encrypted_value (StreamTrailerValue trailer) = Some (PlStreamTrailer trailer)"
| "convert_data_packet_to_encrypted_value _ = None"

section \<open>Publishing\<close>

record participant_info =
  pi_sid :: string
  pi_identity :: string

datatype publish_data_error = PublisherNotConnected | EncryptPacketFailed

fun stream_encryption_i32 :: "stream_encryption \<Rightarrow> int" where
  "stream_encryption_i32 EncNone = 0"
| "stream_encryption_i32 EncGcm = 1"
| "stream_encryption_i32 EncCustom = 2"

text \<open>\<open>publish_data\<close> up to the point where the packet is given to the sending task. \<open>connected\<close> is the result of
  waiting for the publisher connection.\<close>

definition publish_data ::
    "'h native_cryptor \<Rightarrow> (payload_value option \<Rightarrow> bytes) \<Rightarrow> 'h e2ee_manager option \<Rightarrow> participant_info \<Rightarrow> bool \<Rightarrow>
     data_packet \<Rightarrow> bool \<Rightarrow> publish_data_error + data_packet" where
  "publish_data nc encode_payload manager info connected packet is_raw_packet =
     (if \<not> connected then Inl PublisherNotConnected
      else
        let packet = (if is_raw_packet then packet
                      else packet\<lparr>dp_participant_identity := pi_identity info, dp_participant_sid := pi_sid info\<rparr>)
        in case (manager, dp_value packet) of
             (Some m, Some value) \<Rightarrow>
               if em_dc_encryption_enabled m
               then (case convert_data_packet_to_encrypted_value value of
                       Some payload \<Rightarrow>
                         (case encrypt_data nc m (encode_payload (Some payload)) (pi_identity info) (latest_key_index m) of
                            Some e \<Rightarrow>
                              Inr (packet\<lparr>dp_value := Some (EncryptedPacketValue
                                \<lparr>ep_encryption_type = stream_encryption_i32 (e2ee_encryption_type m),
                                 ep_packet_iv = np_iv e, ep_packet_key_index = np_key_index e,
                                 ep_encrypted_value = np_data e\<rparr>)\<rparr>)
                          | None \<Rightarrow> Inl EncryptPacketFailed)
                     | None \<Rightarrow> Inr packet)
               else Inr packet
           | _ \<Rightarrow> Inr packet)"

section \<open>Receiving\<close>

record room_chat_message =
  rc_id :: string
  rc_message :: bytes
  rc_timestamp :: int
  rc_edit_timestamp :: "int option"
  rc_deleted :: "bool option"
  rc_generated :: "bool option"

definition room_chat_message_of :: "chat_message \<Rightarrow> room_chat_message" where
  "room_chat_message_of m =
     \<lparr>rc_id = cm_id m, rc_message = cm_message m, rc_timestamp = cm_timestamp m,
      rc_edit_timestamp = cm_edit_timestamp m, rc_deleted = Some (cm_deleted m),
      rc_generated = Some (cm_generated m)\<rparr>"

datatype session_event =
    SeData data_kind "string option" "string option" bytes "string option" encryption_type
  | SeChatMessage string room_chat_message
  | SeTranscription string string "transcription_segment list"
  | SeSipDtmf "string option" u32 "string option"
  | SeRpcRequest "string option" string string bytes u32 u32
  | SeRpcResponse string "bytes option" "proto_rpc_error option"
  | SeRpcAck string
  | SeStreamHeader stream_header string encryption_type
  | SeStreamChunk stream_chunk string encryption_type
  | SeStreamTrailer stream_trailer string

definition or_else :: "'a option \<Rightarrow> 'a option \<Rightarrow> 'a option" where
  "or_else x y = (case x of None \<Rightarrow> y | Some _ \<Rightarrow> x)"

definition identity_or_empty :: "string option \<Rightarrow> string" where
  "identity_or_empty x = (case x of None \<Rightarrow> '''' | Some i \<Rightarrow> i)"

fun rpc_response_parts :: "rpc_response_value option \<Rightarrow> bytes option \<times> proto_rpc_error option" where
  "rpc_response_parts None = (None, None)"
| "rpc_response_parts (Some (RpcPayload payload)) = (Some payload, None)"
| "rpc_response_parts (Some (RpcErrorValue err)) = (None, Some err)"
| "rpc_response_parts (Some (RpcCompressedPayload _)) = (None, None)"

text \<open>The events that a value gives rise to. An encrypted value is decrypted and handled again; what was
  inside is never encrypted itself, so this ends.\<close>

function emit_incoming_packet ::
    "'h native_cryptor \<Rightarrow> (bytes \<Rightarrow> payload_value option option) \<Rightarrow> 'h e2ee_manager option \<Rightarrow> data_kind \<Rightarrow>
     string option \<Rightarrow> string option \<Rightarrow> packet_value \<Rightarrow> encryption_type \<Rightarrow> session_event list" where
  "emit_incoming_packet nc decode_payload manager kind sid identity value enc =
     (case value of
        UserValue user \<Rightarrow>
          [SeData kind (or_else sid (participant_sid_of (up_participant_sid user)))
             (or_else identity (participant_identity_of (up_participant_identity user)))
             (up_payload user) (up_topic user) enc]
      | SipDtmfValue dtmf \<Rightarrow>
          [SeSipDtmf identity (dtmf_code dtmf) (if dtmf_digit dtmf = [] then None else Some (dtmf_digit dtmf))]
      | TranscriptionValue t \<Rightarrow> [SeTranscription (tr_participant_identity t) (tr_track_id t) (tr_segments t)]
      | RpcRequestValue req \<Rightarrow>
          [SeRpcRequest identity (rq_id req) (rq_method req) (rq_payload req) (rq_response_timeout_ms req) (rq_version req)]
      | RpcResponseValue resp \<Rightarrow>
          (let (payload, error) = rpc_response_parts (rr_value resp)
           in [SeRpcResponse (rr_request_id resp) payload error])
      | RpcAckValue request_id \<Rightarrow> [SeRpcAck request_id]
      | ChatMessageValue message \<Rightarrow> [SeChatMessage (identity_or_empty identity) (room_chat_message_of message)]
      | StreamHeaderValue header \<Rightarrow> [SeStreamHeader header (identity_or_empty identity) enc]
      | StreamChunkValue chunk \<Rightarrow> [SeStreamChunk chunk (identity_or_empty identity) enc]
      | StreamTrailerValue trailer \<Rightarrow> [SeStreamTrailer trailer (identity_or_empty identity)]
      | EncryptedPacketValue e \<Rightarrow>
          (case manager of
             None \<Rightarrow> []
           | Some m \<Rightarrow>
               (case decrypt_data nc m (ep_encrypted_value e) (ep_packet_iv e) (ep_packet_key_index e)
                       (identity_or_empty identity) of
                  None \<Rightarrow> []
                | Some decrypted \<Rightarrow>
                    (case decode_payload decrypted of
                       Some (Some v) \<Rightarrow>
                         emit_incoming_packet nc decode_payload manager kind sid identity
                           (convert_encrypted_to_data_packet_value v) (encryption_type_of (ep_encryption_type e))
                     | _ \<Rightarrow> [])))
      | _ \<Rightarrow> [])"
  by pat_completeness auto
termination
proof (relation "measure (\<lambda>(_, _, _, _, _, _, value, _). case value of EncryptedPacketValue _ \<Rightarrow> 1 | _ \<Rightarrow> 0)", goal_cases)
  case (2 nc dec manager kind sid identity val enc e m decrypted x v)
  then show ?case by (cases v) auto
qed simp

declare emit_incoming_packet.simps [simp del]

text \<open>The record of received sequence numbers. The readings of the clock: one to look up, two to store.\<close>

type_synonym clock_readings = "int \<times> int \<times> int"

definition RELIABLE_RECEIVED_STATE_TTL :: nat where
  "RELIABLE_RECEIVED_STATE_TTL = 30 * 1000000000"

definition update_packet_rx_state ::
    "clock_readings \<Rightarrow> data_packet \<Rightarrow> (string, u32) ttl_map \<Rightarrow> (string, u32) ttl_map" where
  "update_packet_rx_state clocks packet rx =
     (let (t1, t2, t3) = clocks
      in if dp_sequence packet = 0 \<or> dp_participant_sid packet = [] then rx
         else
           let (rx, entry) = ttl_get t1 (dp_participant_sid packet) rx
           in case entry of
                Some last_sequence \<Rightarrow>
                  if dp_sequence packet \<le> last_sequence then rx
                  else ttl_set t2 t3 (dp_participant_sid packet) (Some (dp_sequence packet)) rx
              | None \<Rightarrow> ttl_set t2 t3 (dp_participant_sid packet) (Some (dp_sequence packet)) rx)"

definition data_channel_receive_states ::
    "int \<Rightarrow> string list \<Rightarrow> (string, u32) ttl_map \<Rightarrow> (string, u32) ttl_map \<times> (string \<times> u32) list" where
  "data_channel_receive_states now order rx = ttl_iter now order rx"

datatype receive_error = TextNotSupported | DecodeFailed

text \<open>\<open>RtcEvent::Data\<close>.\<close>

definition on_rtc_data ::
    "'h native_cryptor \<Rightarrow> (bytes \<Rightarrow> data_packet option) \<Rightarrow> (bytes \<Rightarrow> payload_value option option) \<Rightarrow>
     'h e2ee_manager option \<Rightarrow> clock_readings \<Rightarrow> bytes \<Rightarrow> bool \<Rightarrow> data_kind \<Rightarrow> (string, u32) ttl_map \<Rightarrow>
     (string, u32) ttl_map \<times> (receive_error + session_event list)" where
  "on_rtc_data nc decode decode_payload manager clocks data binary kind rx =
     (if \<not> binary then (rx, Inl TextNotSupported)
      else case decode data of
             None \<Rightarrow> (rx, Inl DecodeFailed)
           | Some packet \<Rightarrow>
               (if kind = Reliable then update_packet_rx_state clocks packet rx else rx,
                Inr (case dp_value packet of
                       None \<Rightarrow> []
                     | Some value \<Rightarrow>
                         emit_incoming_packet nc decode_payload manager kind
                           (participant_sid_of (dp_participant_sid packet))
                           (participant_identity_of (dp_participant_identity packet)) value TypeNone)))"

section \<open>From publisher to receiver\<close>

lemma convert_round_trip:
  "convert_data_packet_to_encrypted_value v = Some x \<Longrightarrow> convert_encrypted_to_data_packet_value x = v"
  by (cases v) auto

text \<open>The kinds of values that are to be encrypted: all but active speakers, DTMF tones, transcriptions, metrics, and
  what is encrypted already.\<close>

fun encryptable :: "packet_value \<Rightarrow> bool" where
  "encryptable (SpeakerValue _) = False"
| "encryptable (SipDtmfValue _) = False"
| "encryptable (TranscriptionValue _) = False"
| "encryptable (MetricsValue _) = False"
| "encryptable (EncryptedPacketValue _) = False"
| "encryptable _ = True"

lemma encryptable_iff: "encryptable v \<longleftrightarrow> convert_data_packet_to_encrypted_value v \<noteq> None"
  by (cases v) simp_all

lemma encryptable_convertE:
  assumes "encryptable v"
  obtains x where "convert_data_packet_to_encrypted_value v = Some x" "convert_encrypted_to_data_packet_value x = v"
  using assms convert_round_trip [of v] unfolding encryptable_iff by blast

text \<open>The type of encryption with which a receiver sees a packet.\<close>

definition sent_encryption :: "'h e2ee_manager \<Rightarrow> packet_value \<Rightarrow> encryption_type" where
  "sent_encryption m v =
     (if em_dc_encryption_enabled m \<and> encryptable v
      then encryption_type_of (stream_encryption_i32 (e2ee_encryption_type m)) else TypeNone)"

lemma publish_data_cases:
  assumes "publish_data nc encode_payload (Some m) info connected packet False = Inr p" "dp_value packet = Some v"
  obtains x e where "em_dc_encryption_enabled m" "convert_data_packet_to_encrypted_value v = Some x"
      "encrypt_data nc m (encode_payload (Some x)) (pi_identity info) (latest_key_index m) = Some e"
      "p = packet\<lparr>dp_participant_identity := pi_identity info, dp_participant_sid := pi_sid info,
          dp_value := Some (EncryptedPacketValue
            \<lparr>ep_encryption_type = stream_encryption_i32 (e2ee_encryption_type m), ep_packet_iv = np_iv e,
             ep_packet_key_index = np_key_index e, ep_encrypted_value = np_data e\<rparr>)\<rparr>"
    | "\<not> (em_dc_encryption_enabled m \<and> encryptable v)"
      "p = packet\<lparr>dp_participant_identity := pi_identity info, dp_participant_sid := pi_sid info\<rparr>"
  using assms by (auto simp: publish_data_def Let_def encryptable_iff split: if_splits option.splits)

text \<open>C22. With data channel encryption on, exactly active speakers, DTMF tones, transcriptions, metrics and packets
  that are encrypted already are given to the sending task as they are. Every other value is given to it only as the
  cipher's output, under the latest key index, for the encoding of a payload that the receiver's conversion takes back to
  this very value; when the cipher fails, publishing fails and nothing is sent.\<close>

theorem publish_data_encrypted:
  assumes "em_dc_encryption_enabled m" "dp_value packet = Some v"
  shows "if encryptable v
    then \<exists>x. convert_encrypted_to_data_packet_value x = v \<and>
      (case encrypt_data nc m (encode_payload (Some x)) (pi_identity info) (latest_key_index m) of
         None \<Rightarrow> publish_data nc encode_payload (Some m) info True packet raw = Inl EncryptPacketFailed
       | Some e \<Rightarrow>
           \<exists>p. publish_data nc encode_payload (Some m) info True packet raw = Inr p \<and>
             dp_value p = Some (EncryptedPacketValue
               \<lparr>ep_encryption_type = stream_encryption_i32 (e2ee_encryption_type m), ep_packet_iv = np_iv e,
                ep_packet_key_index = np_key_index e, ep_encrypted_value = np_data e\<rparr>))
    else \<exists>p. publish_data nc encode_payload (Some m) info True packet raw = Inr p \<and> dp_value p = Some v"
proof (cases "encryptable v")
  case True
  then obtain x where x: "convert_data_packet_to_encrypted_value v = Some x" "convert_encrypted_to_data_packet_value x = v"
    by (rule encryptable_convertE)
  with True assms show ?thesis
    by (auto simp: publish_data_def Let_def intro!: exI [of _ x] split: option.splits)
next
  case False
  with assms show ?thesis
    by (auto simp: publish_data_def Let_def encryptable_iff)
qed

text \<open>C21. What one participant publishes another one gets: for every value, encrypted on the way or not, the message
  that arrives gives exactly the events of the plain value under the publisher's identity, with the type of encryption
  that was used. The codecs must invert each other on this packet and the ciphers of the two sides must match.\<close>

theorem data_packet_end_to_end:
  assumes sent: "publish_data nc encode_payload (Some m) info connected packet False = Inr p" "dp_value packet = Some v"
    and codecs: "decode (encode (p\<lparr>dp_sequence := n\<rparr>)) = Some (p\<lparr>dp_sequence := n\<rparr>)"
      "\<And>x. convert_data_packet_to_encrypted_value v = Some x \<Longrightarrow> decode_payload (encode_payload (Some x)) = Some (Some x)"
    and keys: "manager_keys m = Some h" "manager_keys m' = Some h'" "em_data_packet_cryptor m'"
      "cryptor_matches nc h h' (pi_identity info)"
  shows "snd (on_rtc_data nc decode decode_payload (Some m') clocks (encode (p\<lparr>dp_sequence := n\<rparr>)) True kind rx) =
    Inr (emit_incoming_packet nc decode_payload (Some m') kind (participant_sid_of (pi_sid info)) (Some (pi_identity info)) v
           (sent_encryption m v))"
proof -
  have rtc: "snd (on_rtc_data nc decode decode_payload (Some m') clocks (encode (p\<lparr>dp_sequence := n\<rparr>)) True kind rx) =
    Inr (case dp_value p of None \<Rightarrow> [] | Some value \<Rightarrow>
           emit_incoming_packet nc decode_payload (Some m') kind (participant_sid_of (dp_participant_sid p))
             (Some (dp_participant_identity p)) value TypeNone)"
    by (cases "dp_value p") (simp_all add: on_rtc_data_def codecs(1) participant_identity_of_def)
  from sent show ?thesis
  proof (cases rule: publish_data_cases)
    case (1 x e)
    note dec = encrypt_decrypt_data [OF keys(4,2,3,1) 1(3)]
    have v: "convert_encrypted_to_data_packet_value x = v" using convert_round_trip [OF 1(2)] .
    from 1 show ?thesis
      unfolding rtc
      by (simp add: sent_encryption_def encryptable_iff, subst emit_incoming_packet.simps)
        (simp add: identity_or_empty_def dec codecs(2) [OF 1(2)] v)
  next
    case 2
    with sent(2) show ?thesis unfolding rtc by (auto simp: sent_encryption_def)
  qed
qed

text \<open>An encoding for examples, in which only user packets are told apart.\<close>

definition sample_payload :: "payload_value option \<Rightarrow> bytes" where
  "sample_payload x = (case x of Some (PlUser u) \<Rightarrow> up_payload u | _ \<Rightarrow> [])"

definition sample_info :: participant_info where
  "sample_info = \<lparr>pi_sid = ''PA_1'', pi_identity = ''alice''\<rparr>"

theorem publish_data_encrypted_witness:
  "\<exists>p e. publish_data mask_cryptor sample_payload (Some (mask_manager 7)) sample_info True (sample_user_packet [1, 2]) False = Inr p \<and>
     dp_value p = Some (EncryptedPacketValue e) \<and> ep_encrypted_value e = [6, 5]"
proof -
  have m: "em_dc_encryption_enabled (mask_manager 7)"
      "dp_value (sample_user_packet [1, 2]) = Some (UserValue (sample_user [1, 2]))"
    by (simp_all add: mask_manager_def e2ee_manager_new_def sample_user_packet_def)
  let ?enc = "\<lambda>x. encrypt_data mask_cryptor (mask_manager 7) (sample_payload (Some x)) (pi_identity sample_info)
    (latest_key_index (mask_manager 7))"
  have user: "x = PlUser (sample_user [1, 2])" if "convert_encrypted_to_data_packet_value x = UserValue (sample_user [1, 2])" for x
    using that by (cases x) auto
  obtain e where e: "?enc (PlUser (sample_user [1, 2])) = Some e" "np_data e = [6, 5]"
    by (simp add: encrypt_data_def mask_cryptor_def mask_manager_def e2ee_manager_new_def sample_payload_def sample_user_def)
  from publish_data_encrypted [OF m, of mask_cryptor sample_payload sample_info False] e show ?thesis
    by (auto dest!: user)
qed

text \<open>Codecs for the example: the wire carries the encrypted value alone.\<close>

definition sample_wire :: "data_packet \<Rightarrow> bytes" where
  "sample_wire p = (case dp_value p of Some (EncryptedPacketValue e) \<Rightarrow> ep_encrypted_value e | _ \<Rightarrow> [])"

definition sample_unwire :: "bytes \<Rightarrow> data_packet option" where
  "sample_unwire bs = Some (data_packet_default
     \<lparr>dp_participant_identity := ''alice'', dp_participant_sid := ''PA_1'', dp_sequence := 9,
      dp_value := Some (EncryptedPacketValue
        \<lparr>ep_encryption_type = 1, ep_packet_iv = replicate 12 0, ep_packet_key_index = 3, ep_encrypted_value = bs\<rparr>)\<rparr>)"

definition sample_unpayload :: "bytes \<Rightarrow> payload_value option option" where
  "sample_unpayload bs = Some (Some (PlUser (sample_user bs)))"

theorem data_packet_end_to_end_witness:
  "\<exists>p. publish_data mask_cryptor sample_payload (Some (mask_manager 7)) sample_info True (sample_user_packet [1, 2]) False = Inr p \<and>
     snd (on_rtc_data mask_cryptor sample_unwire sample_unpayload (Some (mask_manager 7)) (0, 0, 0)
            (sample_wire (p\<lparr>dp_sequence := 9\<rparr>)) True Reliable (ttl_new 0 RELIABLE_RECEIVED_STATE_TTL)) =
       Inr [SeData Reliable (Some ''PA_1'') (Some ''alice'') [1, 2] None TypeGcm]"
proof -
  let ?m = "mask_manager 7" and ?v = "UserValue (sample_user [1, 2])"
  obtain p where p: "publish_data mask_cryptor sample_payload (Some ?m) sample_info True (sample_user_packet [1, 2]) False = Inr p"
      "sample_unwire (sample_wire (p\<lparr>dp_sequence := 9\<rparr>)) = Some (p\<lparr>dp_sequence := 9\<rparr>)"
    by (simp add: publish_data_def Let_def sample_user_packet_def mask_manager_def e2ee_manager_new_def encrypt_data_def
        mask_cryptor_def latest_key_index_def e2ee_key_provider_def e2ee_encryption_type_def sample_info_def
        sample_wire_def sample_unwire_def data_packet_default_def)
  have v: "dp_value (sample_user_packet [1, 2]) = Some ?v" by (simp add: sample_user_packet_def)
  have codec: "sample_unpayload (sample_payload (Some x)) = Some (Some x)"
    if "convert_data_packet_to_encrypted_value ?v = Some x" for x
    using that by (auto simp: sample_unpayload_def sample_payload_def sample_user_def)
  have "em_data_packet_cryptor ?m" by (simp add: mask_manager_def e2ee_manager_new_def)
  from data_packet_end_to_end [where decode = sample_unwire and encode = sample_wire and decode_payload = sample_unpayload
      and m' = ?m and n = 9 and clocks = "(0, 0, 0)" and kind = Reliable and
      rx = "ttl_new 0 RELIABLE_RECEIVED_STATE_TTL", OF p(1) v p(2) codec mask_manager_keys mask_manager_keys this mask_cryptor_matches] p(1)
  show ?thesis
    by (auto simp: emit_incoming_packet.simps [of _ _ _ _ _ _ "UserValue _"] or_else_def sample_info_def
        participant_sid_of_def strip_ok_def sent_encryption_def mask_manager_def e2ee_manager_new_def
        e2ee_encryption_type_def encryption_type_of_def sample_user_def)
qed

section \<open>Received sequence numbers\<close>

fun receive_packets :: "(clock_readings \<times> data_packet) list \<Rightarrow> (string, u32) ttl_map \<Rightarrow> (string, u32) ttl_map" where
  "receive_packets [] rx = rx"
| "receive_packets ((clocks, p) # ps) rx = receive_packets ps (update_packet_rx_state clocks p rx)"

fun readings :: "(clock_readings \<times> data_packet) list \<Rightarrow> int list" where
  "readings [] = []"
| "readings (((t1, t2, t3), p) # ps) = t1 # t2 # t3 # readings ps"

text \<open>Numbers of reliable packets of a publisher.\<close>

definition numbers_of :: "string \<Rightarrow> (clock_readings \<times> data_packet) list \<Rightarrow> u32 set" where
  "numbers_of sid ps = dp_sequence ` {p \<in> snd ` set ps. dp_participant_sid p = sid}"

lemma numbers_of_simps [simp]:
  "numbers_of sid [] = {}"
  "numbers_of sid ((c, p) # ps) =
     (if dp_participant_sid p = sid then insert (dp_sequence p) (numbers_of sid ps) else numbers_of sid ps)"
  by (auto simp: numbers_of_def)

lemma receive_packets_append: "receive_packets (as @ bs) rx = receive_packets bs (receive_packets as rx)"
  by (induction as rx rule: receive_packets.induct) auto

lemma update_rx_cleanup:
  "tm_last_cleanup (update_packet_rx_state (t1, t2, t3) p rx) \<in> {tm_last_cleanup rx, t3}"
  "tm_ttl (update_packet_rx_state (t1, t2, t3) p rx) = tm_ttl rx"
proof -
  have "tm_last_cleanup (ttl_set t2 t3 k v (fst (ttl_get t1 k rx))) \<in> {tm_last_cleanup rx, t3}" for k v
    using ttl_set_last_cleanup [of t2 t3 k v "fst (ttl_get t1 k rx)"] by simp
  then show "tm_last_cleanup (update_packet_rx_state (t1, t2, t3) p rx) \<in> {tm_last_cleanup rx, t3}"
    by (auto simp: update_packet_rx_state_def Let_def split_beta split: option.splits)
  show "tm_ttl (update_packet_rx_state (t1, t2, t3) p rx) = tm_ttl rx"
    by (auto simp: update_packet_rx_state_def Let_def split_beta split: option.splits)
qed

lemma ttl_get_inner: "tm_inner (fst (ttl_get t k m)) j = tm_inner m j \<or> tm_inner (fst (ttl_get t k m)) j = None"
  by (auto simp: ttl_get_def split: option.splits)

lemma ttl_set_inner_other:
  "j \<noteq> k \<Longrightarrow> tm_inner (ttl_set t t' k v m) j \<in> {tm_inner m j, unexpired t' (tm_inner m j)}"
  by (auto simp: ttl_set_def ttl_cleanup_def Let_def split: option.splits)

text \<open>Before the packet with the highest number of a publisher, its entry has a lower number.\<close>

lemma update_rx_lower:
  assumes "\<And>e. tm_inner rx sid = Some e \<Longrightarrow> te_value e < n"
    and "dp_participant_sid p = sid \<Longrightarrow> dp_sequence p < n"
    and "tm_inner (update_packet_rx_state (t1, t2, t3) p rx) sid = Some e"
  shows "te_value e < n"
proof -
  let ?k = "dp_participant_sid p"
  have set: "te_value e < n" if "tm_inner (ttl_set t2 t3 ?k (Some (dp_sequence p)) (fst (ttl_get t1 ?k rx))) sid = Some e"
  proof (cases "sid = ?k")
    case True
    then show ?thesis
      using that assms(1,2) ttl_get_inner [of t1 ?k rx sid]
      by (auto simp: ttl_set_def ttl_cleanup_def Let_def split: if_splits)
  next
    case False
    then show ?thesis
      using that assms(1) ttl_get_inner [of t1 ?k rx sid]
        ttl_set_inner_other [OF False, of t2 t3 "Some (dp_sequence p)" "fst (ttl_get t1 ?k rx)"]
      by (auto simp: unexpired_def split: option.splits if_splits)
  qed
  with assms(1,3) ttl_get_inner [of t1 ?k rx sid] show ?thesis
    by (auto simp: update_packet_rx_state_def Let_def split_beta split: option.splits if_splits)
qed

lemma receive_packets_lower:
  assumes "\<And>e. tm_inner rx sid = Some e \<Longrightarrow> te_value e < n" "\<And>m. m \<in> numbers_of sid ps \<Longrightarrow> m < n"
    and "tm_inner (receive_packets ps rx) sid = Some e"
  shows "te_value e < n"
  using assms
proof (induction ps rx rule: receive_packets.induct)
  case (2 clocks p ps rx)
  obtain t1 t2 t3 where clocks: "clocks = (t1, t2, t3)" by (cases clocks)
  have "te_value e < n" if "tm_inner (update_packet_rx_state clocks p rx) sid = Some e" for e
    using 2(2,3) that unfolding clocks by (elim update_rx_lower) auto
  then show ?case using 2 by (auto split: if_splits)
qed simp

lemma receive_packets_cleanup:
  "tm_ttl (receive_packets ps rx) = tm_ttl rx \<and>
   tm_last_cleanup (receive_packets ps rx) \<in> insert (tm_last_cleanup rx) (set (readings ps))"
proof (induction ps rx rule: receive_packets.induct)
  case (2 clocks p ps rx)
  obtain t1 t2 t3 where "clocks = (t1, t2, t3)" by (cases clocks)
  with 2 update_rx_cleanup [of t1 t2 t3 p rx] show ?case by auto
qed simp

text \<open>Storing the highest number, and keeping it as long as it does not expire.\<close>

lemma update_rx_store:
  assumes "\<And>e. tm_inner rx sid = Some e \<Longrightarrow> te_value e < dp_sequence p"
    and "dp_participant_sid p = sid" "sid \<noteq> []" "dp_sequence p \<noteq> 0" "tm_last_cleanup rx \<le> t2"
  shows "tm_inner (update_packet_rx_state (t1, t2, t3) p rx) sid =
    Some \<lparr>te_value = dp_sequence p, te_expires_at = t2 + int (tm_ttl rx)\<rparr>"
proof -
  have "snd (ttl_get t1 sid rx) = Some l \<Longrightarrow> l < dp_sequence p" for l
    using assms(1) by (auto simp: ttl_get_def split: option.splits if_splits)
  moreover have "tm_inner (ttl_set t2 t3 sid (Some (dp_sequence p)) (fst (ttl_get t1 sid rx))) sid =
      Some \<lparr>te_value = dp_sequence p, te_expires_at = t2 + int (tm_ttl rx)\<rparr>"
    using assms(5) by (simp add: ttl_set_def ttl_cleanup_def Let_def)
  ultimately show ?thesis
    using assms(2,3,4) by (auto simp: update_packet_rx_state_def Let_def split_beta not_le split: option.splits)
qed

lemma update_rx_keep:
  assumes e: "tm_inner rx sid = Some e" and "dp_participant_sid p = sid \<Longrightarrow> dp_sequence p \<le> te_value e"
    and "t1 \<le> te_expires_at e" "t3 \<le> te_expires_at e"
  shows "tm_inner (update_packet_rx_state (t1, t2, t3) p rx) sid = Some e"
proof (cases "dp_participant_sid p = sid")
  case True
  have "ttl_get t1 sid rx = (rx, Some (te_value e))" using assms by (auto simp: ttl_get_def)
  with True assms show ?thesis by (auto simp: update_packet_rx_state_def Let_def)
next
  case False
  have get: "tm_inner (fst (ttl_get t1 (dp_participant_sid p) rx)) sid = Some e"
    using False e by (auto simp: ttl_get_def split: option.splits)
  have "tm_inner (ttl_set t2 t3 (dp_participant_sid p) v (fst (ttl_get t1 (dp_participant_sid p) rx))) sid = Some e" for v
    using ttl_set_inner_other [OF False [symmetric], of t2 t3 v "fst (ttl_get t1 (dp_participant_sid p) rx)"] assms(4)
    by (auto simp: get unexpired_def)
  with get e show ?thesis by (auto simp: update_packet_rx_state_def Let_def split_beta split: option.splits)
qed

lemma receive_packets_keep:
  assumes "tm_inner rx sid = Some e" "\<And>m. m \<in> numbers_of sid ps \<Longrightarrow> m \<le> te_value e"
    and "\<And>t. t \<in> set (readings ps) \<Longrightarrow> t \<le> te_expires_at e"
  shows "tm_inner (receive_packets ps rx) sid = Some e"
  using assms
proof (induction ps rx rule: receive_packets.induct)
  case (2 clocks p ps rx)
  obtain t1 t2 t3 where clocks: "clocks = (t1, t2, t3)" by (cases clocks)
  have "tm_inner (update_packet_rx_state clocks p rx) sid = Some e"
    unfolding clocks by (rule update_rx_keep [OF 2(2)]) (use 2(3,4) in \<open>auto simp: clocks\<close>)
  then show ?case using 2 by (auto simp: clocks split: if_splits)
qed simp

text \<open>What a reconnection reports to the server: as long as the clock does not go backwards, the
  highest sequence number of a publisher is reported for thirty seconds after it first arrived, whatever
  packets of this and of other publishers arrive before and after.\<close>

theorem receive_state_highest:
  assumes packets: "ps = before @ ((t1, t2, t3), p) # after"
    and clock: "sorted (t0 # readings ps @ [t])" "t \<le> t2 + int RELIABLE_RECEIVED_STATE_TTL"
    and p: "dp_participant_sid p = sid" "sid \<noteq> []" "dp_sequence p \<noteq> 0" "sid \<in> set order"
    and highest: "\<forall>m \<in> numbers_of sid before. m < dp_sequence p" "\<forall>m \<in> numbers_of sid after. m \<le> dp_sequence p"
  shows "(sid, dp_sequence p) \<in>
    set (snd (data_channel_receive_states t order (receive_packets ps (ttl_new t0 RELIABLE_RECEIVED_STATE_TTL))))"
proof -
  let ?rx0 = "ttl_new t0 RELIABLE_RECEIVED_STATE_TTL"
  let ?rx1 = "receive_packets before ?rx0"
  let ?e = "\<lparr>te_value = dp_sequence p, te_expires_at = t2 + int RELIABLE_RECEIVED_STATE_TTL\<rparr>"
  have readings_append: "readings (xs @ ys) = readings xs @ readings ys" for xs ys
    by (induction xs rule: readings.induct) auto
  have order: "\<And>r. r \<in> set (readings before) \<Longrightarrow> r \<le> t2" "t0 \<le> t2" "\<And>r. r \<in> set (readings after) \<Longrightarrow> r \<le> t"
    using clock(1) by (auto simp: packets readings_append sorted_append)
  have ttl: "tm_ttl ?rx1 = RELIABLE_RECEIVED_STATE_TTL" "tm_last_cleanup ?rx1 \<le> t2"
    using receive_packets_cleanup [of before ?rx0] order by (auto simp: ttl_new_def)
  have lower: "te_value e < dp_sequence p" if "tm_inner ?rx1 sid = Some e" for e
    by (rule receive_packets_lower [OF _ _ that]) (use highest(1) in \<open>auto simp: ttl_new_def\<close>)
  have "tm_inner (update_packet_rx_state (t1, t2, t3) p ?rx1) sid = Some ?e"
    using update_rx_store [OF lower p(1-3) ttl(2)] ttl(1) by simp
  then have "tm_inner (receive_packets after (update_packet_rx_state (t1, t2, t3) p ?rx1)) sid = Some ?e"
    by (rule receive_packets_keep) (use highest(2) order(3) clock(2) in fastforce)+
  then have "ttl_live t (receive_packets ps ?rx0) sid = Some (dp_sequence p)"
    using clock(2) by (simp add: packets receive_packets_append ttl_live_def unexpired_def)
  with p(4) show ?thesis by (simp add: data_channel_receive_states_def ttl_iter_values)
qed

definition numbered_packet :: "string \<Rightarrow> u32 \<Rightarrow> data_packet" where
  "numbered_packet sid n = data_packet_default\<lparr>dp_participant_sid := sid, dp_sequence := n\<rparr>"

theorem receive_state_highest_witness:
  "(''PA_1'', 8) \<in> set (snd (data_channel_receive_states 100 [''PA_2'', ''PA_1'']
     (receive_packets
        [((1, 1, 2), numbered_packet ''PA_1'' 5), ((3, 4, 4), numbered_packet ''PA_1'' 8), ((5, 5, 5), numbered_packet ''PA_2'' 9),
         ((6, 7, 8), numbered_packet ''PA_1'' 7)] (ttl_new 0 RELIABLE_RECEIVED_STATE_TTL))))"
proof -
  have "(''PA_1'', dp_sequence (numbered_packet ''PA_1'' 8)) \<in> set (snd (data_channel_receive_states 100 [''PA_2'', ''PA_1'']
     (receive_packets
        [((1, 1, 2), numbered_packet ''PA_1'' 5), ((3, 4, 4), numbered_packet ''PA_1'' 8), ((5, 5, 5), numbered_packet ''PA_2'' 9),
         ((6, 7, 8), numbered_packet ''PA_1'' 7)] (ttl_new 0 RELIABLE_RECEIVED_STATE_TTL))))"
    by (rule receive_state_highest [where before = "[((1, 1, 2), numbered_packet ''PA_1'' 5)]" and ?t1.0 = 3 and ?t2.0 = 4
          and ?t3.0 = 4 and after = "[((5, 5, 5), numbered_packet ''PA_2'' 9), ((6, 7, 8), numbered_packet ''PA_1'' 7)]"])
      (simp_all add: numbered_packet_def RELIABLE_RECEIVED_STATE_TTL_def)
  then show ?thesis by (simp add: numbered_packet_def)
qed

text \<open>A reliable packet that arrives again is delivered again: what is
  recorded of earlier sequence numbers has no influence on the events. The record notices the duplicate, and
  keeps its entry, but the message is passed on.\<close>

theorem duplicates_delivered:
  "snd (on_rtc_data nc decode decode_payload manager clocks data True Reliable rx) =
   snd (on_rtc_data nc decode decode_payload manager clocks' data True Reliable
     (fst (on_rtc_data nc decode decode_payload manager clocks data True Reliable rx)))"
  by (simp add: on_rtc_data_def split: option.splits)

end
