(* ===== verification/Stream_Writer.thy ===== *)
theory Stream_Writer
  imports Data_Stream
begin

text \<open>
  Outgoing data streams: \<^verbatim>\<open>livekit-data-stream/src/outgoing.rs\<close>.

  A packet is handed to the transport through a request channel and the writer waits for the answer.
  The transport is a log of the requests made so far, with their outcomes, and a function that gives
  the outcome of the \<open>n\<close>-th request. Random stream identifiers, the clock and the file system are
  arguments of the operations that use them. Dropping a stream spawns the sending of its trailer when an
  asynchronous runtime is there; the request is placed at the point of the drop.
\<close>

section \<open>The transport\<close>

datatype send_outcome = SendAccepted | SendRejected | RequestChannelClosed

record transport =
  tr_requests :: "(data_packet \<times> send_outcome) list"
  tr_outcome :: "nat \<Rightarrow> send_outcome"

definition next_outcome :: "transport \<Rightarrow> send_outcome" where
  "next_outcome tr = tr_outcome tr (length (tr_requests tr))"

fun send_result :: "send_outcome \<Rightarrow> stream_error + unit" where
  "send_result SendAccepted = Inr ()"
| "send_result SendRejected = Inl StreamSendFailed"
| "send_result RequestChannelClosed = Inl StreamInternal"

definition send_packet :: "data_packet \<Rightarrow> transport \<Rightarrow> (stream_error + unit) \<times> transport" where
  "send_packet packet tr =
     (send_result (next_outcome tr), tr\<lparr>tr_requests := tr_requests tr @ [(packet, next_outcome tr)]\<rparr>)"

section \<open>Raw streams\<close>

record raw_stream =
  rs_id :: string
  rs_progress :: stream_progress
  rs_is_closed :: bool

definition create_header_packet :: "stream_header \<Rightarrow> string list \<Rightarrow> data_packet" where
  "create_header_packet header destination_identities =
     data_packet_default\<lparr>dp_kind := 0, dp_participant_identity := '''',
       dp_destination_identities := destination_identities, dp_value := Some (StreamHeaderValue header)\<rparr>"

definition create_chunk_packet :: "string \<Rightarrow> u64 \<Rightarrow> bytes \<Rightarrow> data_packet" where
  "create_chunk_packet sid chunk_index content =
     data_packet_default\<lparr>dp_kind := 0, dp_participant_identity := '''',
       dp_value := Some (StreamChunkValue
         \<lparr>sc_stream_id = sid, sc_chunk_index = chunk_index, sc_content = content, sc_version = 0, sc_iv = None\<rparr>)\<rparr>"

definition create_trailer_packet :: "string \<Rightarrow> string option \<Rightarrow> data_packet" where
  "create_trailer_packet sid reason =
     data_packet_default\<lparr>dp_kind := 0, dp_participant_identity := '''',
       dp_value := Some (StreamTrailerValue
         \<lparr>st_stream_id = sid, st_reason = (case reason of None \<Rightarrow> '''' | Some r \<Rightarrow> r), st_attributes = Map.empty\<rparr>)\<rparr>"

definition raw_stream_open ::
    "stream_header \<Rightarrow> string list \<Rightarrow> transport \<Rightarrow> (stream_error + raw_stream) \<times> transport" where
  "raw_stream_open header destination_identities tr =
     (case send_packet (create_header_packet header destination_identities) tr of
        (Inl e, tr) \<Rightarrow> (Inl e, tr)
      | (Inr _, tr) \<Rightarrow>
          (Inr \<lparr>rs_id = sh_stream_id header, rs_progress = stream_progress_of (sh_total_length header),
                rs_is_closed = False\<rparr>, tr))"

definition write_chunk ::
    "bytes \<Rightarrow> raw_stream \<Rightarrow> transport \<Rightarrow> (stream_error + unit) \<times> raw_stream \<times> transport" where
  "write_chunk bs rs tr =
     (case send_packet (create_chunk_packet (rs_id rs) (sp_chunk_index (rs_progress rs)) bs) tr of
        (Inl e, tr) \<Rightarrow> (Inl e, rs, tr)
      | (Inr _, tr) \<Rightarrow>
          (Inr (), rs\<lparr>rs_progress := (rs_progress rs)
             \<lparr>sp_bytes_processed := sp_bytes_processed (rs_progress rs) + word_of_nat (length bs),
              sp_chunk_index := sp_chunk_index (rs_progress rs) + 1\<rparr>\<rparr>, tr))"

definition raw_stream_close ::
    "string option \<Rightarrow> raw_stream \<Rightarrow> transport \<Rightarrow> (stream_error + unit) \<times> raw_stream \<times> transport" where
  "raw_stream_close reason rs tr =
     (if rs_is_closed rs then (Inl AlreadyClosed, rs, tr)
      else case send_packet (create_trailer_packet (rs_id rs) reason) tr of
             (Inl e, tr) \<Rightarrow> (Inl e, rs, tr)
           | (Inr _, tr) \<Rightarrow> (Inr (), rs\<lparr>rs_is_closed := True\<rparr>, tr))"

definition raw_stream_drop :: "bool \<Rightarrow> raw_stream \<Rightarrow> transport \<Rightarrow> transport" where
  "raw_stream_drop runtime rs tr =
     (if rs_is_closed rs then tr
      else if runtime then snd (send_packet (create_trailer_packet (rs_id rs) None) tr) else tr)"

section \<open>Writers\<close>

definition CHUNK_SIZE :: nat where "CHUNK_SIZE = 15000"
definition BYTE_MIME_TYPE :: string where "BYTE_MIME_TYPE = ''application/octet-stream''"
definition TEXT_MIME_TYPE :: string where "TEXT_MIME_TYPE = ''text/plain''"

fun write_chunks ::
    "bytes list \<Rightarrow> raw_stream \<Rightarrow> transport \<Rightarrow> (stream_error + unit) \<times> raw_stream \<times> transport" where
  "write_chunks [] rs tr = (Inr (), rs, tr)"
| "write_chunks (chunk # chunks) rs tr =
     (case write_chunk chunk rs tr of
        (Inl e, rs, tr) \<Rightarrow> (Inl e, rs, tr)
      | (Inr _, rs, tr) \<Rightarrow> write_chunks chunks rs tr)"

definition byte_writer_write ::
    "bytes \<Rightarrow> raw_stream \<Rightarrow> transport \<Rightarrow> (stream_error + unit) \<times> raw_stream \<times> transport" where
  "byte_writer_write bs rs tr = write_chunks (slice_chunks CHUNK_SIZE bs) rs tr"

text \<open>The argument of the text writer is a \<open>str\<close>, on which the chunk iterator ends.\<close>

definition text_writer_write ::
    "bytes \<Rightarrow> raw_stream \<Rightarrow> transport \<Rightarrow> (stream_error + unit) \<times> raw_stream \<times> transport" where
  "text_writer_write text rs tr = write_chunks (the (utf8_aware_chunks CHUNK_SIZE text)) rs tr"

text \<open>A file: whether it can be opened, and the results of the successive reads, \<open>None\<close> for an error.
  Reading at the end of the file gives no bytes.\<close>

record file_source =
  fs_metadata :: "u64 option"
  fs_opens :: bool
  fs_reads :: "bytes option list"

fun write_file_reads ::
    "bytes option list \<Rightarrow> raw_stream \<Rightarrow> transport \<Rightarrow> (stream_error + unit) \<times> raw_stream \<times> transport" where
  "write_file_reads [] rs tr = (Inr (), rs, tr)"
| "write_file_reads (None # reads) rs tr = (Inl StreamIo, rs, tr)"
| "write_file_reads (Some bs # reads) rs tr =
     (if bs = [] then (Inr (), rs, tr)
      else case write_chunk bs rs tr of
             (Inl e, rs, tr) \<Rightarrow> (Inl e, rs, tr)
           | (Inr _, rs, tr) \<Rightarrow> write_file_reads reads rs tr)"

definition write_file_contents ::
    "file_source \<Rightarrow> raw_stream \<Rightarrow> transport \<Rightarrow> (stream_error + unit) \<times> raw_stream \<times> transport" where
  "write_file_contents file rs tr =
     (if fs_opens file then write_file_reads (fs_reads file) rs tr else (Inl StreamIo, rs, tr))"

section \<open>The manager of outgoing streams\<close>

record stream_byte_options =
  bo_topic :: string
  bo_attributes :: attributes
  bo_destination_identities :: "string list"
  bo_id :: "string option"
  bo_mime_type :: "string option"
  bo_name :: "string option"
  bo_total_length :: "u64 option"

record stream_text_options =
  to_topic :: string
  to_attributes :: attributes
  to_destination_identities :: "string list"
  to_id :: "string option"
  to_operation_type :: "operation_type option"
  to_version :: "int option"
  to_reply_to_stream_id :: "string option"
  to_attached_stream_ids :: "string list"
  to_generated :: "bool option"

definition unwrap_or :: "'a option \<Rightarrow> 'a \<Rightarrow> 'a" where
  "unwrap_or x d = (case x of None \<Rightarrow> d | Some y \<Rightarrow> y)"

definition text_header_of :: "stream_text_options \<Rightarrow> text_header" where
  "text_header_of options =
     \<lparr>th_operation_type = operation_type_i32 (unwrap_or (to_operation_type options) OpCreate),
      th_version = unwrap_or (to_version options) 0,
      th_reply_to_stream_id = unwrap_or (to_reply_to_stream_id options) '''',
      th_attached_stream_ids = to_attached_stream_ids options,
      th_generated = unwrap_or (to_generated options) False\<rparr>"

definition text_stream_header ::
    "stream_env \<Rightarrow> string \<Rightarrow> stream_text_options \<Rightarrow> u64 option \<Rightarrow> stream_header" where
  "text_stream_header env uuid options total_length =
     \<lparr>sh_stream_id = unwrap_or (to_id options) uuid, sh_timestamp = se_now env, sh_topic = to_topic options,
      sh_mime_type = TEXT_MIME_TYPE, sh_total_length = total_length, sh_encryption_type = 0,
      sh_attributes = to_attributes options, sh_inline_content = None, sh_compression = 0,
      sh_content_header = Some (TextHeader (text_header_of options))\<rparr>"

definition byte_stream_header ::
    "stream_env \<Rightarrow> string \<Rightarrow> stream_byte_options \<Rightarrow> string \<Rightarrow> u64 option \<Rightarrow> stream_header" where
  "byte_stream_header env uuid options nm total_length =
     \<lparr>sh_stream_id = unwrap_or (bo_id options) uuid, sh_timestamp = se_now env, sh_topic = bo_topic options,
      sh_mime_type = unwrap_or (bo_mime_type options) BYTE_MIME_TYPE, sh_total_length = total_length,
      sh_encryption_type = 0, sh_attributes = bo_attributes options, sh_inline_content = None,
      sh_compression = 0, sh_content_header = Some (ByteHeader \<lparr>bh_name = nm\<rparr>)\<rparr>"

definition stream_text ::
    "stream_env \<Rightarrow> string \<Rightarrow> stream_text_options \<Rightarrow> transport \<Rightarrow>
     (stream_error + text_stream_info \<times> raw_stream) \<times> transport" where
  "stream_text env uuid options tr =
     (let header = text_stream_header env uuid options None;
          info = text_info_from_headers env header (text_header_of options) EncNone
      in case raw_stream_open header (to_destination_identities options) tr of
           (Inl e, tr) \<Rightarrow> (Inl e, tr)
         | (Inr rs, tr) \<Rightarrow> (Inr (info, rs), tr))"

definition stream_bytes ::
    "stream_env \<Rightarrow> string \<Rightarrow> stream_byte_options \<Rightarrow> transport \<Rightarrow>
     (stream_error + byte_stream_info \<times> raw_stream) \<times> transport" where
  "stream_bytes env uuid options tr =
     (let nm = unwrap_or (bo_name options) '''';
          header = byte_stream_header env uuid options nm (bo_total_length options);
          info = byte_info_from_headers env header \<lparr>bh_name = nm\<rparr> EncNone
      in case raw_stream_open header (bo_destination_identities options) tr of
           (Inl e, tr) \<Rightarrow> (Inl e, tr)
         | (Inr rs, tr) \<Rightarrow> (Inr (info, rs), tr))"

text \<open>The common end of \<open>send_text\<close>, \<open>send_bytes\<close> and \<open>send_file\<close>: write, close, and give the stream
  information back. An early return drops the writer and with it the stream.\<close>

definition write_and_close ::
    "bool \<Rightarrow> (raw_stream \<Rightarrow> transport \<Rightarrow> (stream_error + unit) \<times> raw_stream \<times> transport) \<Rightarrow> 'i \<Rightarrow>
     raw_stream \<Rightarrow> transport \<Rightarrow> (stream_error + 'i) \<times> transport" where
  "write_and_close runtime write info rs tr =
     (case write rs tr of
        (Inl e, rs, tr) \<Rightarrow> (Inl e, raw_stream_drop runtime rs tr)
      | (Inr _, rs, tr) \<Rightarrow>
          (case raw_stream_close None rs tr of
             (Inl e, rs, tr) \<Rightarrow> (Inl e, raw_stream_drop runtime rs tr)
           | (Inr _, rs, tr) \<Rightarrow> (Inr info, raw_stream_drop runtime rs tr)))"

definition send_text ::
    "stream_env \<Rightarrow> string \<Rightarrow> bool \<Rightarrow> bytes \<Rightarrow> stream_text_options \<Rightarrow> transport \<Rightarrow>
     (stream_error + text_stream_info) \<times> transport" where
  "send_text env uuid runtime text options tr =
     (let header = text_stream_header env uuid options (Some (word_of_nat (length text)));
          info = text_info_from_headers env header (text_header_of options) EncNone
      in case raw_stream_open header (to_destination_identities options) tr of
           (Inl e, tr) \<Rightarrow> (Inl e, tr)
         | (Inr rs, tr) \<Rightarrow> write_and_close runtime (text_writer_write text) info rs tr)"

definition send_bytes ::
    "stream_env \<Rightarrow> string \<Rightarrow> bool \<Rightarrow> bytes \<Rightarrow> stream_byte_options \<Rightarrow> transport \<Rightarrow>
     (stream_error + byte_stream_info) \<times> transport" where
  "send_bytes env uuid runtime bs options tr =
     (let nm = unwrap_or (bo_name options) '''';
          header = byte_stream_header env uuid options nm (Some (word_of_nat (length bs)));
          info = byte_info_from_headers env header \<lparr>bh_name = nm\<rparr> EncNone
      in case raw_stream_open header (bo_destination_identities options) tr of
           (Inl e, tr) \<Rightarrow> (Inl e, tr)
         | (Inr rs, tr) \<Rightarrow> write_and_close runtime (byte_writer_write bs) info rs tr)"

definition send_file ::
    "stream_env \<Rightarrow> string \<Rightarrow> bool \<Rightarrow> string \<Rightarrow> file_source \<Rightarrow> stream_byte_options \<Rightarrow> transport \<Rightarrow>
     (stream_error + byte_stream_info) \<times> transport" where
  "send_file env uuid runtime file_name file options tr =
     (case fs_metadata file of
        None \<Rightarrow> (Inl StreamIo, tr)
      | Some file_size \<Rightarrow>
          let header = byte_stream_header env uuid options file_name (Some file_size);
              info = byte_info_from_headers env header \<lparr>bh_name = file_name\<rparr> EncNone
          in case raw_stream_open header (bo_destination_identities options) tr of
               (Inl e, tr) \<Rightarrow> (Inl e, tr)
             | (Inr rs, tr) \<Rightarrow> write_and_close runtime (write_file_contents file) info rs tr)"

section \<open>A reference for the writers\<close>

text \<open>A stream is the list of its packets; sending it hands them over one by one and stops at the first
  that is not accepted.\<close>

fun send_all :: "data_packet list \<Rightarrow> transport \<Rightarrow> (stream_error + unit) \<times> transport" where
  "send_all [] tr = (Inr (), tr)"
| "send_all (packet # packets) tr =
     (case send_packet packet tr of (Inl e, tr) \<Rightarrow> (Inl e, tr) | (Inr _, tr) \<Rightarrow> send_all packets tr)"

fun chunk_packets :: "string \<Rightarrow> u64 \<Rightarrow> bytes list \<Rightarrow> data_packet list" where
  "chunk_packets sid index [] = []"
| "chunk_packets sid index (chunk # chunks) =
     create_chunk_packet sid index chunk # chunk_packets sid (index + 1) chunks"

definition stream_packets :: "stream_header \<Rightarrow> string list \<Rightarrow> bytes list \<Rightarrow> data_packet list" where
  "stream_packets header destination_identities chunks =
     create_header_packet header destination_identities # chunk_packets (sh_stream_id header) 0 chunks @
     [create_trailer_packet (sh_stream_id header) None]"

text \<open>What is left to do when the stream could not be sent completely: the trailer that the dropped
  writer sends, if at least the header was accepted.\<close>

definition finish_stream ::
    "bool \<Rightarrow> string \<Rightarrow> bool \<Rightarrow> 'i \<Rightarrow> (stream_error + unit) \<times> transport \<Rightarrow> (stream_error + 'i) \<times> transport" where
  "finish_stream opened sid runtime info result =
     (case result of
        (Inr _, tr) \<Rightarrow> (Inr info, tr)
      | (Inl e, tr) \<Rightarrow>
          (Inl e, if opened \<and> runtime then snd (send_packet (create_trailer_packet sid None) tr) else tr))"

lemma send_packet_simps [simp]:
  "tr_outcome (snd (send_packet p tr)) = tr_outcome tr"
  by (simp add: send_packet_def)

lemma send_all_append:
  "send_all (ps @ qs) tr = (case send_all ps tr of (Inl e, tr) \<Rightarrow> (Inl e, tr) | (Inr _, tr) \<Rightarrow> send_all qs tr)"
  by (induction ps arbitrary: tr) (auto split: prod.splits sum.splits)

lemma send_all_single: "send_all [p] tr = send_packet p tr"
  by (simp split: prod.splits sum.splits)

lemma write_chunks_send_all:
  "write_chunks chunks rs tr = (r, rs', tr') \<Longrightarrow>
     send_all (chunk_packets (rs_id rs) (sp_chunk_index (rs_progress rs)) chunks) tr = (r, tr') \<and>
     rs_id rs' = rs_id rs \<and> rs_is_closed rs' = rs_is_closed rs"
proof (induction chunks arbitrary: rs tr)
  case (Cons chunk chunks)
  show ?case
  proof (cases "next_outcome tr")
    case SendAccepted
    with Cons.prems Cons.IH show ?thesis by (simp add: write_chunk_def send_packet_def) force
  qed (use Cons.prems in \<open>auto simp: write_chunk_def send_packet_def\<close>)
qed simp

lemma write_and_close_send_all:
  assumes "\<And>tr. write rs tr = write_chunks chunks rs tr" and "\<not> rs_is_closed rs"
  shows "write_and_close runtime write info rs tr =
    finish_stream True (rs_id rs) runtime info
      (send_all (chunk_packets (rs_id rs) (sp_chunk_index (rs_progress rs)) chunks @
        [create_trailer_packet (rs_id rs) None]) tr)"
proof -
  obtain r rs' tr' where w: "write_chunks chunks rs tr = (r, rs', tr')" by (metis prod_cases3)
  note eqs = write_chunks_send_all [OF w]
  show ?thesis
    using eqs assms(2)
    by (auto simp: write_and_close_def assms(1) w finish_stream_def send_all_append raw_stream_close_def
        raw_stream_drop_def split: sum.splits prod.splits)
qed

lemma open_and_send_all:
  assumes "\<And>rs tr. write rs tr = write_chunks chunks rs tr"
  shows "(case raw_stream_open header dests tr of
      (Inl e, tr) \<Rightarrow> (Inl e, tr) | (Inr rs, tr) \<Rightarrow> write_and_close runtime write info rs tr) =
    finish_stream (next_outcome tr = SendAccepted) (sh_stream_id header) runtime info
      (send_all (stream_packets header dests chunks) tr)"
proof (cases "next_outcome tr")
  case SendAccepted
  then show ?thesis
    by (simp add: raw_stream_open_def send_packet_def stream_packets_def stream_progress_of_def
        write_and_close_send_all [OF assms])
qed (simp_all add: raw_stream_open_def send_packet_def stream_packets_def finish_stream_def)

lemma send_bytes_eq:
  "send_bytes env uuid runtime bs options tr =
     (let nm = unwrap_or (bo_name options) '''';
          header = byte_stream_header env uuid options nm (Some (word_of_nat (length bs)))
      in finish_stream (next_outcome tr = SendAccepted) (sh_stream_id header) runtime
           (byte_info_from_headers env header \<lparr>bh_name = nm\<rparr> EncNone)
           (send_all (stream_packets header (bo_destination_identities options) (slice_chunks 15000 bs)) tr))"
  unfolding send_bytes_def Let_def
  by (rule open_and_send_all) (simp add: byte_writer_write_def CHUNK_SIZE_def)

text \<open>C20. Sending a byte string as a stream is sending its packets in order: whatever the transport answers,
  \<open>send_bytes\<close> hands over the header, the chunks of at most 15000 bytes numbered from zero and the
  trailer, stops with the transport's error at the first packet that is not accepted, and then, if the
  stream had been opened, ends it with a trailer.\<close>

theorem send_bytes_equiv:
  "send_bytes env uuid runtime bs options tr =
     (let nm = unwrap_or (bo_name options) '''';
          header = byte_stream_header env uuid options nm (Some (word_of_nat (length bs)))
      in finish_stream (next_outcome tr = SendAccepted) (sh_stream_id header) runtime
           (byte_info_from_headers env header \<lparr>bh_name = nm\<rparr> EncNone)
           (send_all (stream_packets header (bo_destination_identities options) (slice_chunks 15000 bs)) tr))"
  by (rule send_bytes_eq)

lemma send_text_eq:
  "send_text env uuid runtime text options tr =
     (let header = text_stream_header env uuid options (Some (word_of_nat (length text)))
      in finish_stream (next_outcome tr = SendAccepted) (sh_stream_id header) runtime
           (text_info_from_headers env header (text_header_of options) EncNone)
           (send_all (stream_packets header (to_destination_identities options)
             (the (utf8_aware_chunks CHUNK_SIZE text))) tr))"
  unfolding send_text_def Let_def
  by (rule open_and_send_all) (simp add: text_writer_write_def)

text \<open>When the transport accepts everything, the requests are the packets of the stream.\<close>

definition accepting :: "transport \<Rightarrow> bool" where
  "accepting tr \<longleftrightarrow> (\<forall>n \<ge> length (tr_requests tr). tr_outcome tr n = SendAccepted)"

lemma send_all_accepting:
  "accepting tr \<Longrightarrow>
     send_all ps tr = (Inr (), tr\<lparr>tr_requests := tr_requests tr @ map (\<lambda>p. (p, SendAccepted)) ps\<rparr>)"
proof (induction ps arbitrary: tr)
  case (Cons p ps)
  have "next_outcome tr = SendAccepted" using Cons.prems by (simp add: next_outcome_def accepting_def)
  moreover have "accepting (tr\<lparr>tr_requests := tr_requests tr @ [(p, SendAccepted)]\<rparr>)"
    using Cons.prems by (simp add: accepting_def)
  ultimately show ?case
    using Cons.IH by (simp add: send_packet_def)
qed simp

end
