(* ===== verification/Stream_Reader.thy ===== *)
theory Stream_Reader
  imports Data_Stream "HOL-Library.Sublist"
begin

text \<open>
  Incoming data streams: \<^verbatim>\<open>livekit-data-stream/src/incoming.rs\<close>.

  The channels between the manager and the readers are numbered. A channel keeps everything that was
  ever sent on it and how much of it the reader has taken; \<open>sx_tx_open\<close> says that the manager still
  holds the sender, \<open>sx_rx_open\<close> that the reader has neither been dropped nor closed the channel.
\<close>

section \<open>State\<close>

record stream_channel =
  sx_info :: any_stream_info
  sx_identity :: string
  sx_log :: "(stream_error + bytes) list"
  sx_taken :: nat
  sx_tx_open :: bool
  sx_rx_open :: bool

record stream_descriptor =
  sd_progress :: stream_progress
  sd_channel :: nat
  sd_encryption_type :: stream_encryption
  sd_is_internal :: bool

record incoming =
  in_open_streams :: "string \<rightharpoonup> stream_descriptor"
  in_reserved_topics :: "string list"
  in_channels :: "stream_channel list"
  in_open_rx :: bool

definition incoming_new :: "string list \<Rightarrow> incoming" where
  "incoming_new reserved_topics =
     \<lparr>in_open_streams = Map.empty, in_reserved_topics = reserved_topics, in_channels = [], in_open_rx = True\<rparr>"

section \<open>The manager of incoming streams\<close>

text \<open>Sending on a channel fails when the reader is gone.\<close>

definition channel_send :: "nat \<Rightarrow> stream_error + bytes \<Rightarrow> incoming \<Rightarrow> bool \<times> incoming" where
  "channel_send k item s =
     (let c = in_channels s ! k
      in if sx_rx_open c
         then (True, s\<lparr>in_channels := (in_channels s)[k := c\<lparr>sx_log := sx_log c @ [item]\<rparr>]\<rparr>)
         else (False, s))"

text \<open>Removing a descriptor drops its sender.\<close>

definition close_stream :: "string \<Rightarrow> incoming \<Rightarrow> incoming" where
  "close_stream sid s =
     (case in_open_streams s sid of
        None \<Rightarrow> s
      | Some d \<Rightarrow>
          s\<lparr>in_open_streams := (in_open_streams s)(sid := None),
            in_channels := (in_channels s)[sd_channel d := (in_channels s ! sd_channel d)\<lparr>sx_tx_open := False\<rparr>]\<rparr>)"

definition close_stream_with_error :: "string \<Rightarrow> stream_error \<Rightarrow> incoming \<Rightarrow> incoming" where
  "close_stream_with_error sid e s =
     (case in_open_streams s sid of
        None \<Rightarrow> s
      | Some d \<Rightarrow> close_stream sid (snd (channel_send (sd_channel d) (Inl e) s)))"

definition yield_chunk :: "string \<Rightarrow> bytes \<Rightarrow> incoming \<Rightarrow> incoming" where
  "yield_chunk sid chunk s =
     (case in_open_streams s sid of
        None \<Rightarrow> s
      | Some d \<Rightarrow>
          (case channel_send (sd_channel d) (Inr chunk) s of
             (True, s) \<Rightarrow> s
           | (False, s) \<Rightarrow> close_stream sid s))"

definition handle_header :: "stream_env \<Rightarrow> stream_header \<Rightarrow> string \<Rightarrow> encryption_type \<Rightarrow> incoming \<Rightarrow> incoming" where
  "handle_header env header identity encryption_type s =
     (let is_internal = sh_topic header \<in> set (in_reserved_topics s)
      in case any_info_try_from env header (stream_encryption_from encryption_type) of
           Inl _ \<Rightarrow> s
         | Inr info \<Rightarrow>
             if in_open_streams s (info_id info) \<noteq> None then s
             else
               let channel = \<lparr>sx_info = info, sx_identity = identity, sx_log = [], sx_taken = 0,
                              sx_tx_open = True, sx_rx_open = in_open_rx s\<rparr>;
                   d = \<lparr>sd_progress = stream_progress_of (info_total_length info),
                        sd_channel = length (in_channels s),
                        sd_encryption_type = info_encryption_type info, sd_is_internal = is_internal\<rparr>
               in s\<lparr>in_open_streams := (in_open_streams s)(info_id info \<mapsto> d),
                    in_channels := in_channels s @ [channel]\<rparr>)"

definition is_internal :: "string \<Rightarrow> incoming \<Rightarrow> bool" where
  "is_internal sid s = (case in_open_streams s sid of None \<Rightarrow> False | Some d \<Rightarrow> sd_is_internal d)"

definition progress_after :: "stream_progress \<Rightarrow> bytes \<Rightarrow> stream_progress" where
  "progress_after p content =
     p\<lparr>sp_chunk_index := sp_chunk_index p + 1,
       sp_bytes_processed := sp_bytes_processed p + word_of_nat (length content)\<rparr>"

definition length_exceeded :: "stream_progress \<Rightarrow> bool" where
  "length_exceeded p = (case sp_bytes_total p of Some t \<Rightarrow> sp_bytes_processed p > t | None \<Rightarrow> False)"

definition length_reached :: "stream_progress \<Rightarrow> bool" where
  "length_reached p = (case sp_bytes_total p of Some t \<Rightarrow> sp_bytes_processed p \<ge> t | None \<Rightarrow> True)"

definition handle_chunk :: "stream_chunk \<Rightarrow> encryption_type \<Rightarrow> incoming \<Rightarrow> incoming" where
  "handle_chunk chunk encryption_type s =
     (let sid = sc_stream_id chunk
      in case in_open_streams s sid of
           None \<Rightarrow> s
         | Some d \<Rightarrow>
             if sd_encryption_type d \<noteq> stream_encryption_from encryption_type
             then close_stream_with_error sid EncryptionTypeMismatch s
             else if sp_chunk_index (sd_progress d) \<noteq> sc_chunk_index chunk
             then close_stream_with_error sid MissedChunk s
             else
               let p = progress_after (sd_progress d) (sc_content chunk);
                   s = s\<lparr>in_open_streams := (in_open_streams s)(sid \<mapsto> d\<lparr>sd_progress := p\<rparr>)\<rparr>
               in if length_exceeded p then close_stream_with_error sid LengthExceeded s
                  else yield_chunk sid (sc_content chunk) s)"

definition handle_trailer :: "stream_trailer \<Rightarrow> incoming \<Rightarrow> incoming" where
  "handle_trailer trailer s =
     (let sid = st_stream_id trailer
      in case in_open_streams s sid of
           None \<Rightarrow> s
         | Some d \<Rightarrow>
             if \<not> length_reached (sd_progress d) then close_stream_with_error sid StreamIncomplete s
             else if st_reason trailer \<noteq> '''' then close_stream_with_error sid (AbnormalEnd (st_reason trailer)) s
             else close_stream sid s)"

section \<open>Readers\<close>

datatype 'a poll = PollPending | PollReady "'a option"

definition channel_closed :: "stream_channel \<Rightarrow> bool" where
  "channel_closed c \<longleftrightarrow> \<not> sx_tx_open c \<or> \<not> sx_rx_open c"

text \<open>\<open>poll_recv\<close> of an unbounded channel: what was sent before the channel was closed is still received.\<close>

definition byte_poll_next :: "nat \<Rightarrow> incoming \<Rightarrow> (stream_error + bytes) poll \<times> incoming" where
  "byte_poll_next k s =
     (let c = in_channels s ! k
      in if sx_taken c < length (sx_log c)
         then (PollReady (Some (sx_log c ! sx_taken c)),
               s\<lparr>in_channels := (in_channels s)[k := c\<lparr>sx_taken := sx_taken c + 1\<rparr>]\<rparr>)
         else (if channel_closed c then PollReady None else PollPending, s))"

definition text_poll_next :: "nat \<Rightarrow> incoming \<Rightarrow> (stream_error + bytes) poll \<times> incoming" where
  "text_poll_next k s =
     (case byte_poll_next k s of
        (PollReady (Some (Inr chunk)), s) \<Rightarrow>
          if utf8_valid chunk then (PollReady (Some (Inr chunk)), s)
          else (PollReady (Some (Inl StreamUtf8)),
                s\<lparr>in_channels := (in_channels s)[k := (in_channels s ! k)\<lparr>sx_rx_open := False\<rparr>]\<rparr>)
      | (r, s) \<Rightarrow> (r, s))"

definition reader_dropped :: "nat \<Rightarrow> incoming \<Rightarrow> incoming" where
  "reader_dropped k s = s\<lparr>in_channels := (in_channels s)[k := (in_channels s ! k)\<lparr>sx_rx_open := False\<rparr>]\<rparr>"

text \<open>\<open>read_all\<close> of the two readers, on the items left in the channel; \<open>None\<close> while the end is still to come.\<close>

fun read_all_items :: "(bytes \<Rightarrow> bool) \<Rightarrow> bool \<Rightarrow> bytes \<Rightarrow> (stream_error + bytes) list \<Rightarrow> (stream_error + bytes) option" where
  "read_all_items valid closed buffer [] = (if closed then Some (Inr buffer) else None)"
| "read_all_items valid closed buffer (Inl e # items) = Some (Inl e)"
| "read_all_items valid closed buffer (Inr chunk # items) =
     (if valid chunk then read_all_items valid closed (buffer @ chunk) items else Some (Inl StreamUtf8))"

definition channel_items :: "stream_channel \<Rightarrow> (stream_error + bytes) list" where
  "channel_items c = drop (sx_taken c) (sx_log c)"

definition byte_read_all :: "stream_channel \<Rightarrow> (stream_error + bytes) option" where
  "byte_read_all c = read_all_items (\<lambda>_. True) (channel_closed c) [] (channel_items c)"

definition text_read_all :: "stream_channel \<Rightarrow> (stream_error + bytes) option" where
  "text_read_all c = read_all_items utf8_valid (channel_closed c) [] (channel_items c)"

text \<open>\<open>write_to_file\<close>: the result and the bytes written. The file system decides whether the file can be
  created, whether the \<open>n\<close>-th write and the final flush succeed.\<close>

fun write_items :: "(nat \<Rightarrow> bool) \<Rightarrow> bool \<Rightarrow> bool \<Rightarrow> nat \<Rightarrow> bytes \<Rightarrow> (stream_error + bytes) list \<Rightarrow>
    (stream_error + unit) option \<times> bytes" where
  "write_items writes flush closed n out [] =
     (if \<not> closed then None else if flush then Some (Inr ()) else Some (Inl StreamIo), out)"
| "write_items writes flush closed n out (Inl e # items) = (Some (Inl e), out)"
| "write_items writes flush closed n out (Inr chunk # items) =
     (if writes n then write_items writes flush closed (Suc n) (out @ chunk) items
      else (Some (Inl StreamIo), out))"

definition write_to_file ::
    "bool \<Rightarrow> (nat \<Rightarrow> bool) \<Rightarrow> bool \<Rightarrow> stream_channel \<Rightarrow> (stream_error + unit) option \<times> bytes" where
  "write_to_file creates writes flush c =
     (if creates then write_items writes flush (channel_closed c) 0 [] (channel_items c)
      else (Some (Inl StreamIo), []))"

section \<open>Runs\<close>

datatype stream_event =
    HeaderEvent stream_header string encryption_type
  | ChunkEvent stream_chunk encryption_type
  | TrailerEvent stream_trailer
  | BytePoll nat
  | TextPoll nat
  | ReaderDropped nat
  | OpenReceiverDropped

fun incoming_step :: "stream_env \<Rightarrow> incoming \<Rightarrow> stream_event \<Rightarrow> incoming" where
  "incoming_step env s (HeaderEvent header identity enc) = handle_header env header identity enc s"
| "incoming_step env s (ChunkEvent chunk enc) = handle_chunk chunk enc s"
| "incoming_step env s (TrailerEvent trailer) = handle_trailer trailer s"
| "incoming_step env s (BytePoll k) = snd (byte_poll_next k s)"
| "incoming_step env s (TextPoll k) = snd (text_poll_next k s)"
| "incoming_step env s (ReaderDropped k) = reader_dropped k s"
| "incoming_step env s OpenReceiverDropped = s\<lparr>in_open_rx := False\<rparr>"

section \<open>The invariant\<close>

text \<open>The chunks of a stream among the events of a run.\<close>

fun event_chunks :: "string \<Rightarrow> stream_event \<Rightarrow> stream_chunk list" where
  "event_chunks sid (ChunkEvent chunk enc) = (if sc_stream_id chunk = sid then [chunk] else [])"
| "event_chunks sid _ = []"

definition chunks_of :: "string \<Rightarrow> stream_event list \<Rightarrow> stream_chunk list" where
  "chunks_of sid evs = concat (map (event_chunks sid) evs)"

definition numbered :: "stream_chunk list \<Rightarrow> bool" where
  "numbered xs \<longleftrightarrow> map sc_chunk_index xs = map word_of_nat [0..<length xs]"

abbreviation payload :: "stream_chunk list \<Rightarrow> bytes" where
  "payload xs \<equiv> concat (map sc_content xs)"

definition total_ok :: "any_stream_info \<Rightarrow> bytes \<Rightarrow> bool" where
  "total_ok info bs \<longleftrightarrow> (\<forall>t. info_total_length info = Some t \<longrightarrow> word_of_nat (length bs) = t)"

text \<open>What a channel has carried: received chunks of its stream, in order and numbered from zero, and at
  most then errors. If it ended without an error while the reader was there, it carried as many bytes as
  the header announced.\<close>

definition carries :: "stream_event list \<Rightarrow> stream_channel \<Rightarrow> stream_chunk list \<Rightarrow> stream_error list \<Rightarrow> bool" where
  "carries evs c xs errs \<longleftrightarrow>
     sx_log c = map (Inr \<circ> sc_content) xs @ map Inl errs \<and>
     subseq xs (chunks_of (info_id (sx_info c)) evs) \<and> numbered xs \<and>
     (sx_tx_open c \<longrightarrow> errs = []) \<and>
     (\<not> sx_tx_open c \<longrightarrow> sx_rx_open c \<longrightarrow> errs = [] \<longrightarrow> total_ok (sx_info c) (payload xs))"

definition channel_ok :: "stream_event list \<Rightarrow> stream_channel \<Rightarrow> bool" where
  "channel_ok evs c \<longleftrightarrow> (\<exists>xs errs. carries evs c xs errs)"

definition progress_ok :: "stream_progress \<Rightarrow> stream_channel \<Rightarrow> bool" where
  "progress_ok p c \<longleftrightarrow>
     sp_bytes_total p = info_total_length (sx_info c) \<and> \<not> length_exceeded p \<and>
     (\<exists>bss. sx_log c = map Inr bss \<and> sp_chunk_index p = word_of_nat (length bss) \<and>
            sp_bytes_processed p = word_of_nat (length (concat bss)))"

definition stream_ok :: "stream_channel list \<Rightarrow> string \<Rightarrow> stream_descriptor \<Rightarrow> bool" where
  "stream_ok cs sid d \<longleftrightarrow>
     sd_channel d < length cs \<and> sx_tx_open (cs ! sd_channel d) \<and> info_id (sx_info (cs ! sd_channel d)) = sid \<and>
     info_encryption_type (sx_info (cs ! sd_channel d)) = sd_encryption_type d \<and>
     progress_ok (sd_progress d) (cs ! sd_channel d)"

definition incoming_inv :: "stream_event list \<Rightarrow> incoming \<Rightarrow> bool" where
  "incoming_inv evs s \<longleftrightarrow>
     (\<forall>c \<in> set (in_channels s). channel_ok evs c) \<and>
     (\<forall>sid d. in_open_streams s sid = Some d \<longrightarrow> stream_ok (in_channels s) sid d)"

lemma chunks_of_snoc: "chunks_of sid (evs @ [e]) = chunks_of sid evs @ event_chunks sid e"
  by (simp add: chunks_of_def)

lemma carries_mono: "carries evs c xs errs \<Longrightarrow> carries (evs @ [e]) c xs errs"
  by (auto simp: carries_def chunks_of_snoc intro: subseq_rev_drop_many)

lemma channel_ok_mono: "channel_ok evs c \<Longrightarrow> channel_ok (evs @ [e]) c"
  unfolding channel_ok_def using carries_mono by blast

lemma incoming_inv_mono: "incoming_inv evs s \<Longrightarrow> incoming_inv (evs @ [e]) s"
  by (auto simp: incoming_inv_def channel_ok_mono)

lemma numbered_snoc: "numbered xs \<Longrightarrow> sc_chunk_index x = word_of_nat (length xs) \<Longrightarrow> numbered (xs @ [x])"
  by (simp add: numbered_def)

text \<open>One channel changes; it belongs to the stream \<open>sid\<close>, whose descriptor is kept, replaced or removed.\<close>

lemma incoming_inv_update:
  assumes inv: "incoming_inv evs s" and d: "in_open_streams s sid = Some d"
    and c: "channel_ok evs c'" "sx_info c' = sx_info (in_channels s ! sd_channel d)"
    and new: "\<And>d'. D = Some d' \<Longrightarrow> sd_channel d' = sd_channel d \<and> sx_tx_open c' \<and>
      sd_encryption_type d' = sd_encryption_type d \<and> progress_ok (sd_progress d') c'"
  shows "incoming_inv evs (s\<lparr>in_open_streams := (in_open_streams s)(sid := D),
    in_channels := (in_channels s)[sd_channel d := c']\<rparr>)"
proof -
  have ok: "stream_ok (in_channels s) sid d" using inv d by (simp add: incoming_inv_def)
  have "stream_ok ((in_channels s)[sd_channel d := c']) sid' d'"
    if "((in_open_streams s)(sid := D)) sid' = Some d'" for sid' d'
  proof (cases "sid' = sid")
    case True
    then show ?thesis using that new ok c(2) by (auto simp: stream_ok_def)
  next
    case False
    then have "stream_ok (in_channels s) sid' d'" using that inv by (simp add: incoming_inv_def)
    moreover then have "sd_channel d' \<noteq> sd_channel d" using False ok by (auto simp: stream_ok_def)
    ultimately show ?thesis by (simp add: stream_ok_def)
  qed
  moreover have "channel_ok evs x" if "x \<in> set ((in_channels s)[sd_channel d := c'])" for x
    using that inv c(1) by (auto simp: incoming_inv_def dest!: set_update_subset_insert [THEN subsetD])
  ultimately show ?thesis by (auto simp: incoming_inv_def)
qed

text \<open>A reader's operation changes only how much it has taken and whether it is still there.\<close>

lemma incoming_inv_reader:
  assumes inv: "incoming_inv evs s" and c: "sx_info c' = sx_info (in_channels s ! k)"
    "sx_log c' = sx_log (in_channels s ! k)" "sx_tx_open c' = sx_tx_open (in_channels s ! k)"
    "sx_rx_open c' \<Longrightarrow> sx_rx_open (in_channels s ! k)"
  shows "incoming_inv evs (s\<lparr>in_channels := (in_channels s)[k := c']\<rparr>)"
proof (cases "k < length (in_channels s)")
  case True
  then have "channel_ok evs (in_channels s ! k)" using inv by (simp add: incoming_inv_def)
  then have "channel_ok evs c'" using c by (auto simp: channel_ok_def carries_def)
  moreover have "stream_ok ((in_channels s)[k := c']) sid d" if "stream_ok (in_channels s) sid d" for sid d
    using that True c by (auto simp: stream_ok_def progress_ok_def nth_update)
  ultimately show ?thesis
    using inv by (auto simp: incoming_inv_def dest!: set_update_subset_insert [THEN subsetD])
next
  case False
  then show ?thesis using inv by (simp add: incoming_inv_def list_update_beyond)
qed
lemma carries_contents:
  assumes "carries evs c xs []" and "sx_log c = map Inr bss"
  shows "bss = map sc_content xs"
proof -
  have "map (Inr :: bytes \<Rightarrow> stream_error + bytes) bss = map Inr (map sc_content xs)"
    using assms by (simp add: carries_def)
  then show ?thesis by (simp only: inj_map_eq_map [OF inj_Inr])
qed

lemma stream_okD:
  assumes "incoming_inv evs s" and "in_open_streams s sid = Some d" and "c = in_channels s ! sd_channel d"
  obtains xs where "sd_channel d < length (in_channels s)" "sx_tx_open c" "info_id (sx_info c) = sid"
    "info_encryption_type (sx_info c) = sd_encryption_type d" "carries evs c xs []"
    "sp_chunk_index (sd_progress d) = word_of_nat (length xs)"
    "sp_bytes_processed (sd_progress d) = word_of_nat (length (payload xs))"
    "sp_bytes_total (sd_progress d) = info_total_length (sx_info c)" "\<not> length_exceeded (sd_progress d)"
proof -
  have ok: "stream_ok (in_channels s) sid d" using assms(1,2) by (simp add: incoming_inv_def)
  then have tx: "sx_tx_open c" and k: "sd_channel d < length (in_channels s)"
    by (simp_all add: stream_ok_def assms(3))
  then have "channel_ok evs c" using assms(1,3) by (simp add: incoming_inv_def)
  then obtain xs where xs: "carries evs c xs []"
    using tx by (auto simp: channel_ok_def carries_def)
  obtain bss where bss: "sx_log c = map Inr bss" "sp_chunk_index (sd_progress d) = word_of_nat (length bss)"
      "sp_bytes_processed (sd_progress d) = word_of_nat (length (concat bss))"
    using ok by (auto simp: stream_ok_def progress_ok_def assms(3))
  have "bss = map sc_content xs" using carries_contents [OF xs bss(1)] .
  then show thesis
    using that [of xs] ok xs bss k tx by (simp add: stream_ok_def progress_ok_def assms(3))
qed

lemma close_stream_inv:
  assumes inv: "incoming_inv evs s"
    and tot: "\<And>d c xs. in_open_streams s sid = Some d \<Longrightarrow> c = in_channels s ! sd_channel d \<Longrightarrow>
      carries evs c xs [] \<Longrightarrow> sx_rx_open c \<Longrightarrow> total_ok (sx_info c) (payload xs)"
  shows "incoming_inv evs (close_stream sid s)"
proof (cases "in_open_streams s sid")
  case (Some d)
  define c where "c = in_channels s ! sd_channel d"
  obtain xs where xs: "carries evs c xs []"
    using stream_okD [OF inv Some c_def] by metis
  have "channel_ok evs (c\<lparr>sx_tx_open := False\<rparr>)"
    unfolding channel_ok_def
    by (rule exI [of _ xs], rule exI [of _ "[]"]) (use xs tot [OF Some c_def xs] in \<open>auto simp: carries_def\<close>)
  from incoming_inv_update [OF inv Some this, of None] show ?thesis
    using Some by (simp add: close_stream_def c_def)
qed (use inv in \<open>simp add: close_stream_def\<close>)

lemma close_stream_with_error_inv:
  assumes inv: "incoming_inv evs s"
  shows "incoming_inv evs (close_stream_with_error sid e s)"
proof (cases "in_open_streams s sid")
  case (Some d)
  define c where "c = in_channels s ! sd_channel d"
  obtain xs where xs: "carries evs c xs []" and k: "sd_channel d < length (in_channels s)"
    using stream_okD [OF inv Some c_def] by metis
  show ?thesis
  proof (cases "sx_rx_open c")
    case True
    have "channel_ok evs (c\<lparr>sx_log := sx_log c @ [Inl e], sx_tx_open := False\<rparr>)"
      unfolding channel_ok_def
      by (rule exI [of _ xs], rule exI [of _ "[e]"]) (use xs in \<open>auto simp: carries_def\<close>)
    from incoming_inv_update [OF inv Some this, of None] show ?thesis
      using Some True k
      by (simp add: close_stream_with_error_def close_stream_def channel_send_def c_def Let_def)
  next
    case False
    have "incoming_inv evs (close_stream sid s)"
      by (rule close_stream_inv [OF inv]) (use False Some in \<open>auto simp: c_def\<close>)
    with False Some show ?thesis
      by (simp add: close_stream_with_error_def channel_send_def c_def Let_def)
  qed
qed (use inv in \<open>simp add: close_stream_with_error_def\<close>)

lemma handle_header_inv: "incoming_inv evs s \<Longrightarrow> incoming_inv evs (handle_header env header identity enc s)"
proof -
  assume inv: "incoming_inv evs s"
  show ?thesis
  proof (cases "any_info_try_from env header (stream_encryption_from enc)")
    case (Inr info)
    show ?thesis
    proof (cases "in_open_streams s (info_id info)")
      case None
      let ?c = "\<lparr>sx_info = info, sx_identity = identity, sx_log = [], sx_taken = 0, sx_tx_open = True,
        sx_rx_open = in_open_rx s\<rparr>"
      have "channel_ok evs ?c"
        unfolding channel_ok_def
        by (rule exI [of _ "[]"], rule exI [of _ "[]"]) (simp add: carries_def numbered_def)
      moreover have "stream_ok (in_channels s @ [?c]) sid d" if "stream_ok (in_channels s) sid d" for sid d
        using that by (auto simp: stream_ok_def nth_append)
      moreover have "stream_ok (in_channels s @ [?c]) (info_id info)
          \<lparr>sd_progress = stream_progress_of (info_total_length info), sd_channel = length (in_channels s),
           sd_encryption_type = info_encryption_type info, sd_is_internal = b\<rparr>" for b
        by (simp add: stream_ok_def progress_ok_def stream_progress_of_def length_exceeded_def split: option.splits)
      ultimately show ?thesis
        using inv None Inr by (auto simp: handle_header_def incoming_inv_def Let_def)
    qed (use inv Inr in \<open>simp add: handle_header_def\<close>)
  qed (use inv in \<open>simp add: handle_header_def\<close>)
qed

lemma yield_chunk_state:
  assumes "in_open_streams s sid = Some d" and "c = in_channels s ! sd_channel d"
  shows "yield_chunk sid bs s =
    (if sx_rx_open c then s\<lparr>in_channels := (in_channels s)[sd_channel d := c\<lparr>sx_log := sx_log c @ [Inr bs]\<rparr>]\<rparr>
     else close_stream sid s)"
  using assms by (simp add: yield_chunk_def channel_send_def Let_def)

lemma handle_chunk_inv:
  assumes inv: "incoming_inv evs s"
  shows "incoming_inv (evs @ [ChunkEvent chunk enc]) (handle_chunk chunk enc s)"
proof (cases "in_open_streams s (sc_stream_id chunk)")
  case (Some d)
  let ?evs = "evs @ [ChunkEvent chunk enc]" and ?sid = "sc_stream_id chunk"
  define c where "c = in_channels s ! sd_channel d"
  define p where "p = progress_after (sd_progress d) (sc_content chunk)"
  define s' where "s' = s\<lparr>in_open_streams := (in_open_streams s)(?sid \<mapsto> d\<lparr>sd_progress := p\<rparr>)\<rparr>"
  have inv': "incoming_inv ?evs s" using inv by (rule incoming_inv_mono)
  obtain xs where k: "sd_channel d < length (in_channels s)" and tx: "sx_tx_open c"
    and xs: "carries evs c xs []" "info_id (sx_info c) = ?sid"
      "sp_chunk_index (sd_progress d) = word_of_nat (length xs)"
      "sp_bytes_processed (sd_progress d) = word_of_nat (length (payload xs))"
      "sp_bytes_total (sd_progress d) = info_total_length (sx_info c)"
    using stream_okD [OF inv Some c_def] by metis
  consider "sd_encryption_type d \<noteq> stream_encryption_from enc \<or> sp_chunk_index (sd_progress d) \<noteq> sc_chunk_index chunk"
    | "sd_encryption_type d = stream_encryption_from enc" "sp_chunk_index (sd_progress d) = sc_chunk_index chunk"
      "length_exceeded p"
    | "sd_encryption_type d = stream_encryption_from enc" "sp_chunk_index (sd_progress d) = sc_chunk_index chunk"
      "\<not> length_exceeded p" by blast
  then show ?thesis
  proof cases
    case 1
    then show ?thesis
      using Some close_stream_with_error_inv [OF inv'] by (auto simp: handle_chunk_def Let_def)
  next
    case 2
    have "close_stream_with_error ?sid LengthExceeded s' = close_stream_with_error ?sid LengthExceeded s"
      using Some by (simp add: close_stream_with_error_def channel_send_def close_stream_def s'_def Let_def fun_eq_iff)
    then show ?thesis
      using Some 2 close_stream_with_error_inv [OF inv'] by (simp add: handle_chunk_def Let_def p_def [symmetric] s'_def [symmetric])
  next
    case 3
    show ?thesis
    proof (cases "sx_rx_open c")
      case True
      let ?c = "c\<lparr>sx_log := sx_log c @ [Inr (sc_content chunk)]\<rparr>"
      have xs': "carries ?evs ?c (xs @ [chunk]) []"
        using xs 3 tx by (auto simp: carries_def chunks_of_snoc numbered_snoc intro: list_emb_append_mono)
      then have "progress_ok p ?c"
        using xs 3(3)
        by (auto simp: progress_ok_def carries_def p_def progress_after_def intro!: exI [of _ "map sc_content (xs @ [chunk])"])
      moreover have "channel_ok ?evs ?c" using xs' by (auto simp: channel_ok_def)
      ultimately have "incoming_inv ?evs (s\<lparr>in_open_streams := (in_open_streams s)(?sid \<mapsto> d\<lparr>sd_progress := p\<rparr>),
          in_channels := (in_channels s)[sd_channel d := ?c]\<rparr>)"
        using incoming_inv_update [OF inv' Some, of ?c "Some (d\<lparr>sd_progress := p\<rparr>)"] tx by (simp add: c_def)
      then show ?thesis
        using Some 3 True
        by (simp add: handle_chunk_def Let_def p_def [symmetric] yield_chunk_state c_def)
    next
      case False
      have "yield_chunk ?sid (sc_content chunk) s' = close_stream ?sid s"
        using False Some by (simp add: yield_chunk_def channel_send_def s'_def c_def close_stream_def Let_def fun_eq_iff)
      moreover have "incoming_inv ?evs (close_stream ?sid s)"
        by (rule close_stream_inv [OF inv']) (use False Some in \<open>auto simp: c_def\<close>)
      ultimately show ?thesis
        using Some 3 by (simp add: handle_chunk_def Let_def p_def [symmetric] s'_def [symmetric] c_def)
    qed
  qed
qed (use incoming_inv_mono [OF inv] in \<open>simp add: handle_chunk_def\<close>)

lemma handle_trailer_inv:
  assumes inv: "incoming_inv evs s"
  shows "incoming_inv evs (handle_trailer trailer s)"
proof (cases "in_open_streams s (st_stream_id trailer)")
  case (Some d)
  have "total_ok (sx_info c) (payload xs)"
    if c: "c = in_channels s ! sd_channel d" and xs: "carries evs c xs []"
      and reached: "length_reached (sd_progress d)" for c xs
  proof -
    obtain ys where ys: "carries evs c ys []"
        "sp_bytes_processed (sd_progress d) = word_of_nat (length (payload ys))"
        "sp_bytes_total (sd_progress d) = info_total_length (sx_info c)" "\<not> length_exceeded (sd_progress d)"
      using stream_okD [OF inv Some c] by metis
    have "map sc_content xs = map sc_content ys"
      using carries_contents [OF ys(1), of "map sc_content xs"] xs by (simp add: carries_def)
    then show ?thesis
      using ys reached by (auto simp: total_ok_def length_reached_def length_exceeded_def split: option.splits)
  qed
  with Some inv show ?thesis
    by (auto simp: handle_trailer_def Let_def intro!: close_stream_with_error_inv close_stream_inv)
qed (use inv in \<open>simp add: handle_trailer_def\<close>)
lemma reader_step_inv:
  assumes "incoming_inv evs s"
  shows "incoming_inv evs (snd (byte_poll_next k s))" "incoming_inv evs (snd (text_poll_next k s))"
    "incoming_inv evs (reader_dropped k s)"
proof -
  show *: "incoming_inv evs (snd (byte_poll_next k s))"
    using assms by (auto simp: byte_poll_next_def Let_def intro!: incoming_inv_reader)
  show "incoming_inv evs (reader_dropped k s)"
    using assms by (auto simp: reader_dropped_def intro!: incoming_inv_reader)
  show "incoming_inv evs (snd (text_poll_next k s))"
    using * by (auto simp: text_poll_next_def intro!: incoming_inv_reader split: prod.splits poll.splits option.splits sum.splits)
qed

text \<open>The manager with the history of its events.\<close>

definition history_step :: "stream_env \<Rightarrow> stream_event list \<times> incoming \<Rightarrow> stream_event \<Rightarrow> stream_event list \<times> incoming" where
  "history_step env = (\<lambda>(evs, s) e. (evs @ [e], incoming_step env s e))"

lemma history_run: "actor_run (history_step env) (evs, s) es = (evs @ es, actor_run (incoming_step env) s es)"
  by (induction es arbitrary: evs s) (simp_all add: history_step_def)

lemma incoming_step_inv:
  assumes inv: "incoming_inv evs s"
  shows "incoming_inv (evs @ [e]) (incoming_step env s e)"
proof (cases e)
  case (ChunkEvent chunk enc)
  then show ?thesis using handle_chunk_inv [OF inv] by simp
next
  case OpenReceiverDropped
  then show ?thesis using incoming_inv_mono [OF inv] by (simp add: incoming_inv_def)
qed (use incoming_inv_mono [OF inv] handle_header_inv handle_trailer_inv reader_step_inv in simp_all)

interpretation incoming_actor: actor "([], incoming_new topics)" "history_step env" "\<lambda>_ _. True"
  "\<lambda>(evs, s). incoming_inv evs s" for topics env
  by unfold_locales (auto simp: incoming_inv_def [of "[]"] incoming_new_def history_step_def incoming_step_inv)

lemma incoming_inv_reachable: "incoming_inv evs (actor_run (incoming_step env) (incoming_new topics) evs)"
  using incoming_actor.inv_reachable [of env topics evs] by (simp add: history_run)

section \<open>What a reader reads\<close>

lemma read_all_items_Inr:
  "read_all_items valid closed buffer (map Inr bss @ map Inl errs) = Some (Inr content) \<Longrightarrow>
     closed \<and> errs = [] \<and> list_all valid bss \<and> content = buffer @ concat bss"
proof (induction bss arbitrary: buffer)
  case Nil
  then show ?case by (cases errs) (auto split: if_splits)
next
  case (Cons bs bss)
  then show ?case using Cons.IH [of "buffer @ bs"] by (simp split: if_splits)
qed

lemma read_all_items_chunks:
  "list_all valid bss \<Longrightarrow> read_all_items valid True buffer (map Inr bss) = Some (Inr (buffer @ concat bss))"
  by (induction bss arbitrary: buffer) simp_all

text \<open>C19. What a reader gets is what was sent, or an error: whatever events the manager handles, when
  \<open>read_all\<close> of a byte or text reader succeeds, its result is the concatenation of chunks received for
  that stream, in the order received and numbered 0, 1, 2, and so on without a gap, and it has the length
  that the header announced, if it announced one.\<close>

theorem read_all_complete:
  assumes "s = actor_run (incoming_step env) (incoming_new topics) evs"
    and "k < length (in_channels s)" and "c = in_channels s ! k" and "sx_taken c = 0" and "sx_rx_open c"
    and "byte_read_all c = Some (Inr content) \<or> text_read_all c = Some (Inr content)"
  shows "\<exists>xs. subseq xs (chunks_of (info_id (sx_info c)) evs) \<and>
    map sc_chunk_index xs = map word_of_nat [0..<length xs] \<and> content = concat (map sc_content xs) \<and>
    (\<forall>t. info_total_length (sx_info c) = Some t \<longrightarrow> word_of_nat (length content) = t)"
proof -
  have "channel_ok evs c"
    using incoming_inv_reachable [of evs env topics] assms(1-3) by (auto simp: incoming_inv_def)
  then obtain xs errs where xs: "carries evs c xs errs" by (auto simp: channel_ok_def)
  obtain valid where
    "read_all_items valid (channel_closed c) [] (map Inr (map sc_content xs) @ map Inl errs) = Some (Inr content)"
    using assms(4,6) xs by (auto simp: byte_read_all_def text_read_all_def channel_items_def carries_def)
  from read_all_items_Inr [OF this] have "channel_closed c \<and> errs = [] \<and> content = payload xs" by simp
  then show ?thesis
    using xs assms(5) by (intro exI [of _ xs]) (auto simp: carries_def numbered_def total_ok_def channel_closed_def)
qed
section \<open>Transfers\<close>

text \<open>The packets of a stream as events, and the events that concern it.\<close>

fun event_stream :: "stream_event \<Rightarrow> string option" where
  "event_stream (HeaderEvent header identity enc) = Some (sh_stream_id header)"
| "event_stream (ChunkEvent chunk enc) = Some (sc_stream_id chunk)"
| "event_stream (TrailerEvent trailer) = Some (st_stream_id trailer)"
| "event_stream _ = None"

fun disturbs :: "nat \<Rightarrow> stream_event \<Rightarrow> bool" where
  "disturbs k (BytePoll j) \<longleftrightarrow> j = k"
| "disturbs k (TextPoll j) \<longleftrightarrow> j = k"
| "disturbs k (ReaderDropped j) \<longleftrightarrow> j = k"
| "disturbs k _ \<longleftrightarrow> False"

fun chunk_events :: "encryption_type \<Rightarrow> string \<Rightarrow> u64 \<Rightarrow> bytes list \<Rightarrow> stream_event list" where
  "chunk_events enc sid index [] = []"
| "chunk_events enc sid index (bs # bss) =
     ChunkEvent \<lparr>sc_stream_id = sid, sc_chunk_index = index, sc_content = bs, sc_version = 0, sc_iv = None\<rparr> enc #
     chunk_events enc sid (index + 1) bss"

definition end_event :: "string \<Rightarrow> stream_event" where
  "end_event sid = TrailerEvent \<lparr>st_stream_id = sid, st_reason = '''', st_attributes = Map.empty\<rparr>"

text \<open>Events of other streams and other readers leave a channel and the descriptor of its stream alone.\<close>

lemma close_stream_other:
  assumes "incoming_inv evs s" and "sid' \<noteq> sid"
    and "info_id (sx_info (in_channels s ! k)) = sid" "k < length (in_channels s)"
  shows "in_channels (close_stream sid' s) ! k = in_channels s ! k"
    "in_open_streams (close_stream sid' s) sid = in_open_streams s sid"
    "in_channels (close_stream_with_error sid' e s) ! k = in_channels s ! k"
    "in_open_streams (close_stream_with_error sid' e s) sid = in_open_streams s sid"
proof -
  have ne: "sd_channel d \<noteq> k" if "in_open_streams s sid' = Some d" for d
    using that assms by (auto simp: incoming_inv_def stream_ok_def)
  then show "in_channels (close_stream sid' s) ! k = in_channels s ! k"
    "in_channels (close_stream_with_error sid' e s) ! k = in_channels s ! k"
    by (auto simp: close_stream_def close_stream_with_error_def channel_send_def Let_def split: option.splits)
  show "in_open_streams (close_stream sid' s) sid = in_open_streams s sid"
    "in_open_streams (close_stream_with_error sid' e s) sid = in_open_streams s sid"
    using assms(2)
    by (auto simp: close_stream_def close_stream_with_error_def channel_send_def Let_def split: option.splits)
qed

lemma incoming_step_other:
  assumes inv: "incoming_inv evs s" and other: "event_stream e \<noteq> Some sid" "\<not> disturbs k e"
    and k: "info_id (sx_info (in_channels s ! k)) = sid" "k < length (in_channels s)"
  shows "in_channels (incoming_step env s e) ! k = in_channels s ! k \<and> k < length (in_channels (incoming_step env s e)) \<and>
    in_open_streams (incoming_step env s e) sid = in_open_streams s sid"
proof -
  have len: "length (in_channels (close_stream j s')) = length (in_channels s')"
    "length (in_channels (close_stream_with_error j err s')) = length (in_channels s')" for j err s'
    by (simp_all add: close_stream_def close_stream_with_error_def channel_send_def Let_def split: option.splits)
  show ?thesis
  proof (cases e)
    case (HeaderEvent header identity enc)
    with other k show ?thesis
      by (auto simp: handle_header_def Let_def nth_append any_info_try_from_simps split: sum.splits)
  next
    case (ChunkEvent chunk enc)
    let ?j = "sc_stream_id chunk"
    have j: "?j \<noteq> sid" using other ChunkEvent by simp
    have ne: "sd_channel d \<noteq> k" if "in_open_streams s ?j = Some d" for d
      using that inv k j by (auto simp: incoming_inv_def stream_ok_def)
    show ?thesis
      using ChunkEvent ne j k close_stream_other [OF inv j k]
      by (auto simp: handle_chunk_def Let_def yield_chunk_def close_stream_def close_stream_with_error_def
          channel_send_def split: option.splits)
  next
    case (TrailerEvent trailer)
    then show ?thesis
      using other k close_stream_other [OF inv _ k, of "st_stream_id trailer"]
      by (auto simp: handle_trailer_def Let_def len split: option.splits)
  qed (use other k in \<open>auto simp: byte_poll_next_def text_poll_next_def reader_dropped_def Let_def
      split: prod.splits poll.splits option.splits sum.splits if_splits\<close>)
qed
lemma incoming_run_other:
  assumes "incoming_inv hist s" and "info_id (sx_info (in_channels s ! k)) = sid" "k < length (in_channels s)"
    and "filter (\<lambda>e. event_stream e = Some sid) evs = []" and "list_all (\<lambda>e. \<not> disturbs k e) evs"
  shows "in_channels (actor_run (incoming_step env) s evs) ! k = in_channels s ! k"
  using assms
proof (induction evs arbitrary: s hist)
  case (Cons e evs)
  note step = incoming_step_other [OF Cons.prems(1) _ _ Cons.prems(2,3), of e env]
  have "in_channels (actor_run (incoming_step env) (incoming_step env s e) evs) ! k = in_channels (incoming_step env s e) ! k"
    using Cons.prems step by (intro Cons.IH [OF incoming_step_inv [OF Cons.prems(1)]]) (auto split: if_splits)
  with Cons.prems step show ?case by (auto split: if_splits)
qed simp

text \<open>The announced length, if any, is the length of the content.\<close>

definition announces :: "u64 option \<Rightarrow> bytes \<Rightarrow> bool" where
  "announces tot bs \<longleftrightarrow> tot = None \<or> tot = Some (word_of_nat (length bs)) \<and> length bs < 2 ^ 64"

lemma not_exceeded_prefix:
  assumes "announces tot (xs @ ys)" and "sp_bytes_total p = tot" and "sp_bytes_processed p = word_of_nat (length xs)"
  shows "\<not> length_exceeded p"
proof -
  have "word_of_nat (length xs) \<le> (word_of_nat (length (xs @ ys)) :: u64)" if "length (xs @ ys) < 2 ^ 64"
    using that by (simp only: word_le_nat_alt unat_of_nat) simp
  with assms show ?thesis
    by (auto simp: announces_def length_exceeded_def not_less split: option.splits)
qed

lemma stream_run:
  assumes "incoming_inv hist s" and "in_open_streams s sid = Some d" and "sd_channel d = k"
    and "in_channels s ! k = c" and "sx_rx_open c" and "sx_log c = map Inr bss0"
    and "sd_encryption_type d = stream_encryption_from enc"
    and "announces (info_total_length (sx_info c)) (concat (bss0 @ bss))"
    and "filter (\<lambda>e. event_stream e = Some sid) evs = chunk_events enc sid (word_of_nat (length bss0)) bss @ [end_event sid]"
    and "list_all (\<lambda>e. \<not> disturbs k e) evs"
  shows "in_channels (actor_run (incoming_step env) s evs) ! k = c\<lparr>sx_log := map Inr (bss0 @ bss), sx_tx_open := False\<rparr>"
  using assms
proof (induction evs arbitrary: s hist d c bss0 bss)
  case Nil
  then show ?case by simp
next
  case (Cons e evs)
  note IH = Cons.IH and rx = Cons.prems(5) and log = Cons.prems(6) and enc = Cons.prems(7)
    and ann = Cons.prems(8) and evs = Cons.prems(9) and quiet = Cons.prems(10)
  note inv = Cons.prems(1) and d = Cons.prems(2) and k = Cons.prems(3) and c = Cons.prems(4)
  obtain xs where k': "k < length (in_channels s)" and c': "info_id (sx_info c) = sid" "carries hist c xs []"
      "sp_chunk_index (sd_progress d) = word_of_nat (length xs)"
      "sp_bytes_processed (sd_progress d) = word_of_nat (length (payload xs))"
      "sp_bytes_total (sd_progress d) = info_total_length (sx_info c)"
    using stream_okD [OF inv d, of c] k c by metis
  have bss0: "bss0 = map sc_content xs" using carries_contents [OF c'(2) Cons.prems(6)] .
  have inv': "incoming_inv (hist @ [e]) (incoming_step env s e)" using inv by (rule incoming_step_inv)
  show ?case
  proof (cases "event_stream e = Some sid")
    case False
    then have "in_channels (incoming_step env s e) ! k = c" "in_open_streams (incoming_step env s e) sid = Some d"
      using incoming_step_other [OF inv, of e sid k env] Cons.prems(10) c c' k' d by auto
    with Cons.prems False show ?thesis
      by (simp add: Cons.IH [OF inv' _ k _ Cons.prems(5-8)])
  next
    case True
    show ?thesis
    proof (cases bss)
      case Nil
      have e: "e = end_event sid" and rest: "filter (\<lambda>e. event_stream e = Some sid) evs = []"
        using Cons.prems(9) True Nil by auto
      have "length_reached (sd_progress d)"
        using Cons.prems(8) c' bss0 Nil by (auto simp: announces_def length_reached_def split: option.splits)
      then have "incoming_step env s e = close_stream sid s"
        using d by (simp add: e end_event_def handle_trailer_def)
      then have "in_channels (incoming_step env s e) ! k = c\<lparr>sx_tx_open := False\<rparr>"
        "k < length (in_channels (incoming_step env s e))"
        using d k c k' by (simp_all add: close_stream_def)
      then show ?thesis
        using incoming_run_other [OF inv' _ _ rest, of k env] Cons.prems(6,10) c' Nil by simp
    next
      case more: (Cons b bs')
      let ?chunk = "\<lparr>sc_stream_id = sid, sc_chunk_index = word_of_nat (length bss0), sc_content = b,
        sc_version = 0, sc_iv = None\<rparr>"
      let ?p = "progress_after (sd_progress d) b" and ?c = "c\<lparr>sx_log := map Inr (bss0 @ [b])\<rparr>"
      have e: "e = ChunkEvent ?chunk enc"
        and rest: "filter (\<lambda>e. event_stream e = Some sid) evs =
          chunk_events enc sid (word_of_nat (length (bss0 @ [b]))) bs' @ [end_event sid]"
        using evs True more by (auto simp: add.commute)
      have "\<not> length_exceeded ?p"
        by (rule not_exceeded_prefix [of "info_total_length (sx_info c)" "concat (bss0 @ [b])" "concat bs'"])
          (use ann c' bss0 more in \<open>simp_all add: progress_after_def\<close>)
      then have step: "incoming_step env s e = s\<lparr>in_open_streams := (in_open_streams s)(sid \<mapsto> d\<lparr>sd_progress := ?p\<rparr>),
          in_channels := (in_channels s)[k := ?c]\<rparr>"
        using d k c c' bss0 rx log enc
        by (simp add: e handle_chunk_def Let_def yield_chunk_def channel_send_def)
      have "in_channels (actor_run (incoming_step env) (incoming_step env s e) evs) ! k =
          ?c\<lparr>sx_log := map Inr ((bss0 @ [b]) @ bs'), sx_tx_open := False\<rparr>"
        by (rule IH [OF inv', where d = "d\<lparr>sd_progress := ?p\<rparr>" and bss = bs'])
          (use step k k' rest more rx enc ann quiet in simp_all)
      then show ?thesis using more by simp
    qed
  qed
qed
text \<open>A complete transfer: from the header, opened when the stream was not open, to the trailer, with the
  events of other streams and readers in between.\<close>

lemma transfer_run:
  assumes inv: "incoming_inv hist s" and closed: "in_open_streams s sid = None" and rx: "in_open_rx s"
    and info: "any_info_try_from env header (stream_encryption_from enc) = Inr info" and sid: "sh_stream_id header = sid"
    and ann: "announces (sh_total_length header) (concat bss)" and k: "k = length (in_channels s)"
    and evs: "filter (\<lambda>e. event_stream e = Some sid) evs = chunk_events enc sid 0 bss @ [end_event sid]"
    and quiet: "list_all (\<lambda>e. \<not> disturbs k e) evs"
    and c: "c = in_channels (actor_run (incoming_step env) s (HeaderEvent header identity enc # evs)) ! k"
  shows "sx_info c = info" "sx_identity c = identity" "byte_read_all c = Some (Inr (concat bss))"
    "list_all utf8_valid bss \<Longrightarrow> text_read_all c = Some (Inr (concat bss))"
proof -
  let ?s = "handle_header env header identity enc s"
  let ?c = "\<lparr>sx_info = info, sx_identity = identity, sx_log = [], sx_taken = 0, sx_tx_open = True, sx_rx_open = True\<rparr>"
  note info' = any_info_try_from_simps [OF info, unfolded sid]
  obtain d where d: "in_open_streams ?s sid = Some d" "sd_channel d = k" "in_channels ?s ! k = ?c"
      "sd_encryption_type d = stream_encryption_from enc"
    using info info' closed rx k by (auto simp: handle_header_def Let_def)
  have "in_channels (actor_run (incoming_step env) ?s evs) ! k = ?c\<lparr>sx_log := map Inr ([] @ bss), sx_tx_open := False\<rparr>"
    by (rule stream_run [OF handle_header_inv [OF inv] d(1-3) _ _ d(4)]) (use info' ann evs quiet in simp_all)
  then have c': "c = ?c\<lparr>sx_log := map Inr bss, sx_tx_open := False\<rparr>"
    by (simp add: c)
  show "sx_info c = info" "sx_identity c = identity"
    by (simp_all add: c')
  have "list_all (\<lambda>_. True) bss" by (simp add: list_all_iff)
  then show "byte_read_all c = Some (Inr (concat bss))"
    by (simp add: c' byte_read_all_def channel_items_def channel_closed_def read_all_items_chunks)
  show "list_all utf8_valid bss \<Longrightarrow> text_read_all c = Some (Inr (concat bss))"
    by (simp add: c' text_read_all_def channel_items_def channel_closed_def read_all_items_chunks)
qed

text \<open>A small run for the examples.\<close>

definition sample_env :: stream_env where
  "sample_env = \<lparr>se_now = 0, se_from_millis = Some\<rparr>"

definition sample_stream_header :: stream_header where
  "sample_stream_header =
     \<lparr>sh_stream_id = ''s'', sh_timestamp = 5, sh_topic = ''files'', sh_mime_type = ''text/plain'', sh_total_length = Some 3,
      sh_encryption_type = 0, sh_attributes = Map.empty, sh_inline_content = None, sh_compression = 0,
      sh_content_header = Some (ByteHeader \<lparr>bh_name = ''f''\<rparr>)\<rparr>"

definition sample_stream_events :: "stream_event list" where
  "sample_stream_events =
     HeaderEvent sample_stream_header ''alice'' TypeNone # chunk_events TypeNone ''s'' 0 [[1, 2], [3]] @ [end_event ''s'']"

lemma sample_stream_run:
  "in_channels (actor_run (incoming_step sample_env) (incoming_new []) sample_stream_events) =
     [\<lparr>sx_info = ByteInfo (byte_info_from_headers sample_env sample_stream_header \<lparr>bh_name = ''f''\<rparr> EncNone),
       sx_identity = ''alice'', sx_log = [Inr [1, 2], Inr [3]], sx_taken = 0, sx_tx_open = False, sx_rx_open = True\<rparr>]"
  by (simp add: sample_stream_events_def incoming_new_def handle_header_def any_info_try_from_def
      sample_stream_header_def byte_info_from_headers_def Let_def handle_chunk_def progress_after_def
      stream_progress_of_def length_exceeded_def yield_chunk_def channel_send_def handle_trailer_def end_event_def
      length_reached_def close_stream_def)

theorem read_all_complete_witness:
  "\<exists>xs. subseq xs (chunks_of ''s'' sample_stream_events) \<and>
     map sc_chunk_index xs = map word_of_nat [0..<length xs] \<and> [1, 2, 3] = concat (map sc_content xs)"
  using read_all_complete [OF refl, where evs = sample_stream_events and env = sample_env and topics = "[]" and k = 0
      and content = "[1, 2, 3]", OF _ refl]
  by (auto simp: sample_stream_run byte_read_all_def channel_items_def channel_closed_def byte_info_from_headers_def
      sample_stream_header_def)

end
