(* ===== verification/Stream_Transfer.thy ===== *)
theory Stream_Transfer
  imports Stream_Writer Stream_Reader
begin

text \<open>
  The writers and the readers of data streams together: what a sender hands to an accepting transport is
  what a receiver reads, even when the packets of many streams are interleaved.
\<close>

text \<open>The event that a received packet is for the manager of incoming streams.\<close>

fun value_event :: "string \<Rightarrow> encryption_type \<Rightarrow> packet_value option \<Rightarrow> stream_event option" where
  "value_event identity enc (Some (StreamHeaderValue header)) = Some (HeaderEvent header identity enc)"
| "value_event identity enc (Some (StreamChunkValue chunk)) = Some (ChunkEvent chunk enc)"
| "value_event identity enc (Some (StreamTrailerValue trailer)) = Some (TrailerEvent trailer)"
| "value_event identity enc _ = None"

definition packet_events :: "string \<Rightarrow> encryption_type \<Rightarrow> data_packet list \<Rightarrow> stream_event list" where
  "packet_events identity enc packets = List.map_filter (\<lambda>p. value_event identity enc (dp_value p)) packets"

text \<open>The packets that a call hands to the transport.\<close>

definition newly_sent :: "transport \<Rightarrow> transport \<Rightarrow> data_packet list" where
  "newly_sent tr tr' = map fst (drop (length (tr_requests tr)) (tr_requests tr'))"

lemma packet_events_simps:
  "packet_events identity enc [] = []"
  "packet_events identity enc (p # ps) =
     (case value_event identity enc (dp_value p) of None \<Rightarrow> [] | Some e \<Rightarrow> [e]) @ packet_events identity enc ps"
  "packet_events identity enc (ps @ qs) = packet_events identity enc ps @ packet_events identity enc qs"
  by (simp_all add: packet_events_def map_filter_def split: option.splits)

lemma packet_events_chunks: "packet_events identity enc (chunk_packets sid index bss) = chunk_events enc sid index bss"
  by (induction bss arbitrary: index) (simp_all add: packet_events_simps create_chunk_packet_def)

lemma packet_events_stream:
  "packet_events identity enc (stream_packets header dests bss) =
     HeaderEvent header identity enc # chunk_events enc (sh_stream_id header) 0 bss @ [end_event (sh_stream_id header)]"
  by (simp add: stream_packets_def packet_events_simps packet_events_chunks create_header_packet_def
      create_trailer_packet_def end_event_def)

lemma send_accepting:
  assumes "accepting tr"
    and "call = finish_stream (next_outcome tr = SendAccepted) sid runtime info (send_all ps tr)"
  shows "fst call = Inr info" "newly_sent tr (snd call) = ps"
  using assms(1) by (simp_all add: assms(2) send_all_accepting finish_stream_def newly_sent_def comp_def)

text \<open>A receiver that was not reading this stream before, at a reachable state, and the events from the
  header on: the packets of the stream in order, interleaved with events of other streams and readers.\<close>

definition receives :: "stream_env \<Rightarrow> string list \<Rightarrow> stream_event list \<Rightarrow> string \<Rightarrow> stream_event list \<Rightarrow> stream_event list \<Rightarrow> bool" where
  "receives env topics pre sid events evs \<longleftrightarrow>
     (let s = actor_run (incoming_step env) (incoming_new topics) pre
      in in_open_rx s \<and> in_open_streams s sid = None \<and> evs \<noteq> [] \<and> event_stream (hd evs) = Some sid \<and>
         filter (\<lambda>e. event_stream e = Some sid) evs = events \<and>
         list_all (\<lambda>e. \<not> disturbs (length (in_channels s)) e) evs)"

definition received :: "stream_env \<Rightarrow> string list \<Rightarrow> stream_event list \<Rightarrow> stream_event list \<Rightarrow> stream_channel" where
  "received env topics pre evs =
     (let s = actor_run (incoming_step env) (incoming_new topics) pre
      in in_channels (actor_run (incoming_step env) s evs) ! length (in_channels s))"

lemma received_stream:
  assumes "receives env topics pre sid (packet_events identity enc (stream_packets header dests bss)) evs"
    and "sh_stream_id header = sid" and "any_info_try_from env header (stream_encryption_from enc) = Inr info"
    and "announces (sh_total_length header) (concat bss)"
  shows "sx_info (received env topics pre evs) = info" "sx_identity (received env topics pre evs) = identity"
    "byte_read_all (received env topics pre evs) = Some (Inr (concat bss))"
    "list_all utf8_valid bss \<Longrightarrow> text_read_all (received env topics pre evs) = Some (Inr (concat bss))"
proof -
  define s where "s = actor_run (incoming_step env) (incoming_new topics) pre"
  obtain e rest where evs: "evs = e # rest" using assms(1) by (cases evs) (auto simp: receives_def Let_def)
  have r: "in_open_rx s" "in_open_streams s sid = None" "event_stream e = Some sid"
      "filter (\<lambda>e. event_stream e = Some sid) evs = packet_events identity enc (stream_packets header dests bss)"
      "list_all (\<lambda>e. \<not> disturbs (length (in_channels s)) e) evs"
    using assms(1) unfolding receives_def Let_def s_def by (auto simp: evs)
  have e: "e = HeaderEvent header identity enc"
    and rest: "filter (\<lambda>e. event_stream e = Some sid) rest = chunk_events enc sid 0 bss @ [end_event sid]"
    using r(3,4) assms(2) by (simp_all add: evs packet_events_stream)
  have rec: "received env topics pre evs =
      in_channels (actor_run (incoming_step env) s (HeaderEvent header identity enc # rest)) ! length (in_channels s)"
    by (simp add: received_def s_def evs e Let_def)
  have quiet: "list_all (\<lambda>e. \<not> disturbs (length (in_channels s)) e) rest" using r(5) by (simp add: evs)
  note run = transfer_run [OF incoming_inv_reachable [of pre env topics, folded s_def] r(2,1) assms(3,2,4) refl rest quiet rec]
  show "sx_info (received env topics pre evs) = info" "sx_identity (received env topics pre evs) = identity"
    "byte_read_all (received env topics pre evs) = Some (Inr (concat bss))"
    "list_all utf8_valid bss \<Longrightarrow> text_read_all (received env topics pre evs) = Some (Inr (concat bss))"
    by (fact run)+
qed

text \<open>C17. A byte string sent as a stream arrives: if the transport accepts the packets and a receiver gets
  them in order, interleaved with whatever else it receives, then \<open>send_bytes\<close> succeeds, the reader that
  the receiver opens reads exactly the bytes sent, and knows the name, topic, MIME type, attributes and
  length that the sender gave.\<close>

theorem bytes_transfer:
  assumes "accepting tr" and "call = send_bytes env uuid runtime bs options tr" and "length bs < 2 ^ 64"
    and "sid = unwrap_or (bo_id options) uuid"
    and "receives env' topics pre sid (packet_events identity enc (newly_sent tr (snd call))) evs"
    and "c = received env' topics pre evs"
  shows "byte_read_all c = Some (Inr bs) \<and> sx_identity c = identity \<and>
    (\<exists>i j. fst call = Inr i \<and> sx_info c = ByteInfo j \<and>
       bsi_id j = bsi_id i \<and> bsi_topic j = bsi_topic i \<and> bsi_name j = bsi_name i \<and> bsi_mime_type j = bsi_mime_type i \<and>
       bsi_attributes j = bsi_attributes i \<and> bsi_total_length j = Some (word_of_nat (length bs)))"
proof -
  define nm where "nm = unwrap_or (bo_name options) ''''"
  define header where "header = byte_stream_header env uuid options nm (Some (word_of_nat (length bs)))"
  define bss where "bss = slice_chunks 15000 bs"
  define info where "info = byte_info_from_headers env header \<lparr>bh_name = nm\<rparr> EncNone"
  have call: "call = finish_stream (next_outcome tr = SendAccepted) (sh_stream_id header) runtime info
      (send_all (stream_packets header (bo_destination_identities options) bss) tr)"
    using assms(2) send_bytes_eq [of env uuid runtime bs options tr]
    by (simp add: header_def nm_def bss_def info_def Let_def)
  note sent = send_accepting [OF assms(1) call]
  have h: "sh_stream_id header = sid" "sh_total_length header = Some (word_of_nat (length bs))"
      "any_info_try_from env' header (stream_encryption_from enc) =
        Inr (ByteInfo (byte_info_from_headers env' header \<lparr>bh_name = nm\<rparr> (stream_encryption_from enc)))"
    by (simp_all add: header_def byte_stream_header_def assms(4) any_info_try_from_def)
  have bss: "concat bss = bs" by (simp add: bss_def byte_chunks.concat_chunks)
  have "announces (sh_total_length header) (concat bss)" using assms(3) by (simp add: announces_def h bss)
  from received_stream [OF assms(5) [unfolded sent] h(1,3) this] show ?thesis
    using sent(1) h(2) unfolding assms(6) by (simp add: bss info_def byte_info_from_headers_def)
qed

lemma text_stream_arrives:
  assumes "accepting tr" and "call = send_text env uuid runtime text options tr" and "length text < 2 ^ 64"
    and "utf8_valid text" and "sid = unwrap_or (to_id options) uuid"
    and "receives env' topics pre sid (packet_events identity enc (newly_sent tr (snd call))) evs"
    and "c = received env' topics pre evs"
    and header: "header = text_stream_header env uuid options (Some (word_of_nat (length text)))"
  shows "text_read_all c = Some (Inr text)" "sx_identity c = identity"
    "sx_info c = TextInfo (text_info_from_headers env' header (text_header_of options) (stream_encryption_from enc))"
    "fst call = Inr (text_info_from_headers env header (text_header_of options) EncNone)"
proof -
  define bss where "bss = the (utf8_aware_chunks CHUNK_SIZE text)"
  define info where "info = text_info_from_headers env header (text_header_of options) EncNone"
  have call: "call = finish_stream (next_outcome tr = SendAccepted) (sh_stream_id header) runtime info
      (send_all (stream_packets header (to_destination_identities options) bss) tr)"
    using assms(2) send_text_eq [of env uuid runtime "text" options tr] by (simp add: header bss_def info_def Let_def)
  note sent = send_accepting [OF assms(1) call]
  have h: "sh_stream_id header = sid" "sh_total_length header = Some (word_of_nat (length text))"
      "any_info_try_from env' header (stream_encryption_from enc) =
        Inr (TextInfo (text_info_from_headers env' header (text_header_of options) (stream_encryption_from enc)))"
    by (simp_all add: header text_stream_header_def assms(5) any_info_try_from_def)
  have bss: "concat bss = text" "list_all utf8_valid bss"
    using text_chunks.concat_chunks [of CHUNK_SIZE "text"] utf8_chunks_collect_valid [of CHUNK_SIZE "text"] assms(4)
    by (auto simp: bss_def CHUNK_SIZE_def utf8_aware_chunks_def list_all_iff)
  have "announces (sh_total_length header) (concat bss)" using assms(3) by (simp add: announces_def h bss)
  note arrived = received_stream [OF assms(6) [unfolded sent] h(1,3) this, folded assms(7)]
  show "text_read_all c = Some (Inr text)" using arrived(4) bss by simp
  show "sx_identity c = identity" by (fact arrived(2))
  show "sx_info c = TextInfo (text_info_from_headers env' header (text_header_of options) (stream_encryption_from enc))"
    by (fact arrived(1))
  show "fst call = Inr (text_info_from_headers env header (text_header_of options) EncNone)"
    using sent(1) by (simp add: info_def)
qed

text \<open>C18. A text sent as a stream arrives: the chunks of the writer are cut at character boundaries, so each
  of them decodes on its own, and the text reader gives exactly the text back.\<close>

theorem text_transfer:
  assumes "accepting tr" and "call = send_text env uuid runtime text options tr" and "length text < 2 ^ 64"
    and "utf8_valid text" and "sid = unwrap_or (to_id options) uuid"
    and "receives env' topics pre sid (packet_events identity enc (newly_sent tr (snd call))) evs"
    and "c = received env' topics pre evs"
  shows "text_read_all c = Some (Inr text) \<and> sx_identity c = identity \<and>
    (\<exists>i j. fst call = Inr i \<and> sx_info c = TextInfo j \<and>
       tsi_id j = tsi_id i \<and> tsi_topic j = tsi_topic i \<and> tsi_attributes j = tsi_attributes i \<and>
       tsi_operation_type j = tsi_operation_type i \<and> tsi_reply_to_stream_id j = tsi_reply_to_stream_id i \<and>
       tsi_total_length j = Some (word_of_nat (length text)))"
  using text_stream_arrives [OF assms refl]
  by (simp add: text_info_from_headers_def text_stream_header_def)

section \<open>Examples\<close>

definition open_transport :: transport where
  "open_transport = \<lparr>tr_requests = [], tr_outcome = \<lambda>_. SendAccepted\<rparr>"

definition sample_byte_options :: stream_byte_options where
  "sample_byte_options =
     \<lparr>bo_topic = ''files'', bo_attributes = Map.empty, bo_destination_identities = [''bob''], bo_id = Some ''s'',
      bo_mime_type = None, bo_name = Some ''f'', bo_total_length = None\<rparr>"

definition sample_text_options :: stream_text_options where
  "sample_text_options =
     \<lparr>to_topic = ''chat'', to_attributes = Map.empty, to_destination_identities = [], to_id = Some ''s'',
      to_operation_type = None, to_version = None, to_reply_to_stream_id = None, to_attached_stream_ids = [],
      to_generated = None\<rparr>"

text \<open>The packets of a stream with a chunk of an unknown stream after its header.\<close>

definition with_stray_chunk :: "stream_event list \<Rightarrow> stream_event list" where
  "with_stray_chunk evs =
     hd evs # ChunkEvent \<lparr>sc_stream_id = ''t'', sc_chunk_index = 4, sc_content = [9], sc_version = 0, sc_iv = None\<rparr> TypeNone # tl evs"

lemma accepting_open_transport: "accepting open_transport"
  by (simp add: accepting_def open_transport_def)

lemma sent_open_transport:
  assumes "call = finish_stream (next_outcome open_transport = SendAccepted) ''s'' True info (send_all ps open_transport)"
  shows "newly_sent open_transport (snd call) = ps"
  using send_accepting(2) [OF accepting_open_transport assms] .

lemma receives_with_stray_chunk:
  assumes "sh_stream_id header = ''s''"
  shows "receives env topics [] ''s'' (packet_events identity enc (stream_packets header dests bss))
    (with_stray_chunk (packet_events identity enc (stream_packets header dests bss)))"
proof -
  have "filter (\<lambda>e. event_stream e = Some ''s'') (chunk_events enc ''s'' i bss) = chunk_events enc ''s'' i bss"
    "list_all (\<lambda>e. \<not> disturbs k e) (chunk_events enc ''s'' i bss)" for i k
    by (induction bss arbitrary: i) simp_all
  then show ?thesis
    using assms by (simp add: receives_def packet_events_stream with_stray_chunk_def incoming_new_def end_event_def)
qed

theorem bytes_transfer_witness:
  "byte_read_all (received sample_env [] [] (with_stray_chunk (packet_events ''alice'' TypeGcm
     (newly_sent open_transport (snd (send_bytes sample_env ''u'' True [1, 2, 3] sample_byte_options open_transport)))))) =
   Some (Inr [1, 2, 3])"
proof -
  let ?call = "send_bytes sample_env ''u'' True [1, 2, 3] sample_byte_options open_transport"
  let ?header = "byte_stream_header sample_env ''u'' sample_byte_options ''f'' (Some 3)"
  have header: "sh_stream_id ?header = ''s''"
    by (simp add: byte_stream_header_def sample_byte_options_def unwrap_or_def)
  have opts: "unwrap_or (bo_name sample_byte_options) '''' = ''f''" "bo_destination_identities sample_byte_options = [''bob'']"
    by (simp_all add: sample_byte_options_def unwrap_or_def)
  have "newly_sent open_transport (snd ?call) = stream_packets ?header [''bob''] (slice_chunks 15000 [1, 2, 3])"
    by (rule sent_open_transport [where info = "byte_info_from_headers sample_env ?header \<lparr>bh_name = ''f''\<rparr> EncNone"])
      (simp add: send_bytes_eq header opts Let_def)
  then have "receives sample_env [] [] ''s'' (packet_events ''alice'' TypeGcm (newly_sent open_transport (snd ?call)))
      (with_stray_chunk (packet_events ''alice'' TypeGcm (newly_sent open_transport (snd ?call))))"
    using receives_with_stray_chunk [OF header] by simp
  from bytes_transfer [OF accepting_open_transport refl _ _ this refl] show ?thesis
    by (simp add: sample_byte_options_def unwrap_or_def)
qed

theorem text_transfer_witness:
  "text_read_all (received sample_env [] [] (with_stray_chunk (packet_events ''alice'' TypeNone
     (newly_sent open_transport (snd (send_text sample_env ''u'' True hello_wave sample_text_options open_transport)))))) =
   Some (Inr hello_wave)"
proof -
  let ?call = "send_text sample_env ''u'' True hello_wave sample_text_options open_transport"
  let ?header = "text_stream_header sample_env ''u'' sample_text_options (Some (word_of_nat (length hello_wave)))"
  have header: "sh_stream_id ?header = ''s''"
    by (simp add: text_stream_header_def sample_text_options_def unwrap_or_def)
  have "newly_sent open_transport (snd ?call) =
      stream_packets ?header [] (the (utf8_aware_chunks CHUNK_SIZE hello_wave))"
    by (rule sent_open_transport [where info = "text_info_from_headers sample_env ?header (text_header_of sample_text_options) EncNone"])
      (simp add: send_text_eq header Let_def, simp add: sample_text_options_def)
  then have "receives sample_env [] [] ''s'' (packet_events ''alice'' TypeNone (newly_sent open_transport (snd ?call)))
      (with_stray_chunk (packet_events ''alice'' TypeNone (newly_sent open_transport (snd ?call))))"
    using receives_with_stray_chunk [OF header] by simp
  from text_transfer [OF accepting_open_transport refl _ hello_wave_valid _ this refl] show ?thesis
    by (simp add: hello_wave_def sample_text_options_def unwrap_or_def)
qed

end
