(* ===== verification/Decimal.thy ===== *)
theory Decimal
  imports Prelude
begin

text \<open>
  Unsigned numbers as text, as the standard library prints and parses them: \<open>to_string\<close> and \<open>parse\<close>. Parsing accepts a leading
  plus sign in front of a digit and fails on any other character and on overflow of \<open>w\<close> bits.
\<close>

definition digit_char :: "nat \<Rightarrow> char" where
  "digit_char d = char_of (48 + d)"

definition char_digit :: "char \<Rightarrow> nat option" where
  "char_digit c = (let k = of_char c :: nat in if 48 \<le> k \<and> k \<le> 57 then Some (k - 48) else None)"

fun decimal :: "nat \<Rightarrow> string" where
  "decimal n = (if n < 10 then [digit_char n] else decimal (n div 10) @ [digit_char (n mod 10)])"

declare decimal.simps [simp del]

fun parse_digits :: "nat \<Rightarrow> string \<Rightarrow> nat option" where
  "parse_digits acc [] = Some acc"
| "parse_digits acc (c # cs) =
     (case char_digit c of None \<Rightarrow> None | Some d \<Rightarrow> parse_digits (acc * 10 + d) cs)"

definition parse_unsigned :: "nat \<Rightarrow> string \<Rightarrow> nat option" where
  "parse_unsigned w s =
     (let ds = (case s of c # d # rest \<Rightarrow> if c = CHR ''+'' then d # rest else s | _ \<Rightarrow> s)
      in if ds = [] then None
         else case parse_digits 0 ds of None \<Rightarrow> None | Some n \<Rightarrow> if n < 2 ^ w then Some n else None)"

lemma char_digit_digit_char [simp]: "d < 10 \<Longrightarrow> char_digit (digit_char d) = Some d"
  by (simp add: char_digit_def digit_char_def Let_def)

lemma parse_digits_snoc:
  "parse_digits acc (cs @ [c]) =
   Option.bind (parse_digits acc cs) (\<lambda>n. map_option (\<lambda>d. n * 10 + d) (char_digit c))"
  by (induction acc cs rule: parse_digits.induct) (auto split: option.splits)

lemma decimal_nonempty [simp]: "decimal n \<noteq> []"
  by (subst decimal.simps) simp

lemma decimal_digits: "c \<in> set (decimal n) \<Longrightarrow> \<exists>d < 10. c = digit_char d"
proof (induction n rule: decimal.induct)
  case (1 n)
  then show ?case by (subst (asm) decimal.simps) (auto split: if_splits intro: exI [of _ "n mod 10"])
qed

lemma parse_digits_decimal: "parse_digits 0 (decimal n) = Some n"
proof (induction n rule: decimal.induct)
  case (1 n)
  then show ?case by (subst decimal.simps) (auto simp: parse_digits_snoc)
qed

lemma plus_no_digit: "char_digit CHR ''+'' = None"
  by (simp add: char_digit_def)

lemma parse_unsigned_decimal [simp]: "n < 2 ^ w \<Longrightarrow> parse_unsigned w (decimal n) = Some n"
proof -
  assume "n < 2 ^ w"
  have "hd (decimal n) \<noteq> CHR ''+''"
    using decimal_digits [of "hd (decimal n)" n] plus_no_digit by (auto dest: sym)
  then have "(case decimal n of c # d # rest \<Rightarrow> if c = CHR ''+'' then d # rest else decimal n | _ \<Rightarrow> decimal n) = decimal n"
    by (auto split: list.splits)
  with \<open>n < 2 ^ w\<close> show ?thesis by (simp add: parse_unsigned_def parse_digits_decimal)
qed

end
