(* ===== verification/Rpc.thy ===== *)
theory Rpc
  imports Session_Data Stream_Transfer Decimal
begin

text \<open>
  Remote procedure calls between participants: \<^verbatim>\<open>livekit/src/room/rpc/mod.rs\<close>, \<^verbatim>\<open>client.rs\<close> and \<^verbatim>\<open>server.rs\<close>.

  Payloads and messages are UTF-8 byte strings, durations are in milliseconds. Data packets and text streams go out through
  the transport of the outgoing streams. The random identifier, the parsing of versions (a library: \<open>None\<close> when the
  string is no version) and the texts of errors of other components are arguments.
\<close>

section \<open>Errors\<close>

text \<open>\<open>truncate_bytes\<close> walks over the characters of the string.\<close>

function utf8_chars :: "bytes \<Rightarrow> bytes list" where
  "utf8_chars bs =
     (case utf8_char_len bs of None \<Rightarrow> [] | Some n \<Rightarrow> take n bs # utf8_chars (drop n bs))"
  by pat_completeness auto
termination
  by (relation "measure length") (auto dest: utf8_char_len_le)

declare utf8_chars.simps [simp del]

fun push_chars :: "nat \<Rightarrow> bytes \<Rightarrow> bytes list \<Rightarrow> bytes" where
  "push_chars max_bytes result [] = result"
| "push_chars max_bytes result (c # cs) =
     (if length (result @ c) > max_bytes then result else push_chars max_bytes (result @ c) cs)"

definition truncate_bytes :: "bytes \<Rightarrow> nat \<Rightarrow> bytes" where
  "truncate_bytes s max_bytes =
     (if length s \<le> max_bytes then s else push_chars max_bytes [] (utf8_chars s))"

definition MAX_V1_PAYLOAD_BYTES :: nat where "MAX_V1_PAYLOAD_BYTES = 15360"
definition MAX_MESSAGE_BYTES :: nat where "MAX_MESSAGE_BYTES = 256"
definition MAX_DATA_BYTES :: nat where "MAX_DATA_BYTES = MAX_V1_PAYLOAD_BYTES"

record rpc_error =
  re_code :: u32
  re_message :: bytes
  re_data :: "bytes option"

definition rpc_error_new :: "u32 \<Rightarrow> bytes \<Rightarrow> bytes option \<Rightarrow> rpc_error" where
  "rpc_error_new code message data =
     \<lparr>re_code = code, re_message = truncate_bytes message MAX_MESSAGE_BYTES,
      re_data = map_option (\<lambda>d. truncate_bytes d MAX_DATA_BYTES) data\<rparr>"

definition rpc_error_from_proto :: "proto_rpc_error \<Rightarrow> rpc_error" where
  "rpc_error_from_proto e = rpc_error_new (pe_code e) (pe_message e) (Some (pe_data e))"

definition rpc_error_to_proto :: "rpc_error \<Rightarrow> proto_rpc_error" where
  "rpc_error_to_proto e =
     \<lparr>pe_code = re_code e, pe_message = re_message e, pe_data = (case re_data e of None \<Rightarrow> [] | Some d \<Rightarrow> d)\<rparr>"

datatype rpc_error_code =
    ApplicationError | ConnectionTimeout | ResponseTimeout | RecipientDisconnected | ResponsePayloadTooLarge
  | RpcSendFailed | UnsupportedMethod | RecipientNotFound | RequestPayloadTooLarge | UnsupportedServer
  | UnsupportedVersion

fun rpc_code :: "rpc_error_code \<Rightarrow> u32" where
  "rpc_code ApplicationError = 1500"
| "rpc_code ConnectionTimeout = 1501"
| "rpc_code ResponseTimeout = 1502"
| "rpc_code RecipientDisconnected = 1503"
| "rpc_code ResponsePayloadTooLarge = 1504"
| "rpc_code RpcSendFailed = 1505"
| "rpc_code UnsupportedMethod = 1400"
| "rpc_code RecipientNotFound = 1401"
| "rpc_code RequestPayloadTooLarge = 1402"
| "rpc_code UnsupportedServer = 1403"
| "rpc_code UnsupportedVersion = 1404"

fun rpc_message :: "rpc_error_code \<Rightarrow> string" where
  "rpc_message ApplicationError = ''Application error in method handler''"
| "rpc_message ConnectionTimeout = ''Connection timeout''"
| "rpc_message ResponseTimeout = ''Response timeout''"
| "rpc_message RecipientDisconnected = ''Recipient disconnected''"
| "rpc_message ResponsePayloadTooLarge = ''Response payload too large''"
| "rpc_message RpcSendFailed = ''Failed to send''"
| "rpc_message UnsupportedMethod = ''Method not supported at destination''"
| "rpc_message RecipientNotFound = ''Recipient not found''"
| "rpc_message RequestPayloadTooLarge = ''Request payload too large''"
| "rpc_message UnsupportedServer = ''RPC not supported by server''"
| "rpc_message UnsupportedVersion = ''Unsupported RPC version''"

definition built_in :: "rpc_error_code \<Rightarrow> bytes option \<Rightarrow> rpc_error" where
  "built_in code data = rpc_error_new (rpc_code code) (string_bytes (rpc_message code)) data"

text \<open>The texts of errors of the streams and of the room.\<close>

record error_texts =
  et_stream :: "stream_error \<Rightarrow> bytes"
  et_room :: bytes

section \<open>Constants\<close>

definition RPC_VERSION_V1 :: u32 where "RPC_VERSION_V1 = 1"
definition RPC_VERSION_V2 :: nat where "RPC_VERSION_V2 = 2"
definition RPC_REQUEST_TOPIC :: string where "RPC_REQUEST_TOPIC = ''lk.rpc_request''"
definition RPC_RESPONSE_TOPIC :: string where "RPC_RESPONSE_TOPIC = ''lk.rpc_response''"
definition ATTR_REQUEST_ID :: string where "ATTR_REQUEST_ID = ''lk.rpc_request_id''"
definition ATTR_METHOD :: string where "ATTR_METHOD = ''lk.rpc_request_method''"
definition ATTR_RESPONSE_TIMEOUT_MS :: string where
  "ATTR_RESPONSE_TIMEOUT_MS = ''lk.rpc_request_response_timeout_ms''"
definition ATTR_VERSION :: string where "ATTR_VERSION = ''lk.rpc_request_version''"
definition CLIENT_PROTOCOL_DATA_STREAM_RPC :: int where "CLIENT_PROTOCOL_DATA_STREAM_RPC = 1"

section \<open>Transport\<close>

definition rpc_publish :: "data_packet \<Rightarrow> transport \<Rightarrow> bool \<times> transport" where
  "rpc_publish packet tr = (let (r, tr) = send_packet packet tr in (case r of Inl _ \<Rightarrow> False | Inr _ \<Rightarrow> True, tr))"

text \<open>\<open>SessionTransport::server_version\<close>, from the version in the server information of the join response.\<close>

definition server_version :: "string option \<Rightarrow> string option" where
  "server_version info = Option.bind info (\<lambda>version. if version = [] then Some version else None)"

definition text_options_default :: stream_text_options where
  "text_options_default =
     \<lparr>to_topic = '''', to_attributes = Map.empty, to_destination_identities = [], to_id = None,
      to_operation_type = None, to_version = None, to_reply_to_stream_id = None, to_attached_stream_ids = [],
      to_generated = None\<rparr>"

section \<open>The client\<close>

record perform_rpc_data =
  pr_destination_identity :: string
  pr_method :: string
  pr_payload :: bytes
  pr_response_timeout :: nat
  pr_max_round_trip_latency :: nat

datatype call_phase = AwaitAck | AwaitResponse | Finished "rpc_error + bytes"

text \<open>A call and what arrived in its two one-shot channels. A channel whose sender is neither pending nor used is
  closed.\<close>

record rpc_call =
  ca_phase :: call_phase
  ca_acked :: bool
  ca_response :: "(rpc_error + bytes) option"

record rpc_client =
  cl_pending_acks :: "string set"
  cl_pending_responses :: "string set"
  cl_calls :: "string \<rightharpoonup> rpc_call"

definition rpc_client_new :: rpc_client where
  "rpc_client_new = \<lparr>cl_pending_acks = {}, cl_pending_responses = {}, cl_calls = Map.empty\<rparr>"

definition v1_request_packet :: "string \<Rightarrow> string \<Rightarrow> string \<Rightarrow> bytes \<Rightarrow> nat \<Rightarrow> data_packet" where
  "v1_request_packet destination_identity rid method body response_timeout =
     data_packet_default\<lparr>dp_destination_identities := [destination_identity],
       dp_value := Some (RpcRequestValue
         \<lparr>rq_id = rid, rq_method = method, rq_payload = body,
          rq_response_timeout_ms = word_of_nat response_timeout, rq_version = RPC_VERSION_V1,
          rq_compressed_payload = []\<rparr>)\<rparr>"

definition send_v1_request ::
    "string \<Rightarrow> string \<Rightarrow> string \<Rightarrow> bytes \<Rightarrow> nat \<Rightarrow> transport \<Rightarrow> bool \<times> transport" where
  "send_v1_request destination_identity rid method body response_timeout tr =
     rpc_publish (v1_request_packet destination_identity rid method body response_timeout) tr"

definition v2_request_options :: "string \<Rightarrow> string \<Rightarrow> string \<Rightarrow> nat \<Rightarrow> stream_text_options" where
  "v2_request_options destination_identity rid method response_timeout =
     text_options_default\<lparr>to_topic := RPC_REQUEST_TOPIC,
       to_attributes := [ATTR_REQUEST_ID \<mapsto> rid, ATTR_METHOD \<mapsto> method,
         ATTR_RESPONSE_TIMEOUT_MS \<mapsto> decimal response_timeout, ATTR_VERSION \<mapsto> decimal RPC_VERSION_V2],
       to_destination_identities := [destination_identity]\<rparr>"

definition send_v2_request ::
    "error_texts \<Rightarrow> stream_env \<Rightarrow> string \<Rightarrow> bool \<Rightarrow> string \<Rightarrow> string \<Rightarrow> string \<Rightarrow> bytes \<Rightarrow> nat \<Rightarrow> transport \<Rightarrow>
     (rpc_error + unit) \<times> transport" where
  "send_v2_request texts env uuid runtime destination_identity rid method body response_timeout tr =
     (case send_text env uuid runtime body (v2_request_options destination_identity rid method response_timeout) tr of
        (Inl e, tr) \<Rightarrow> (Inl (built_in RpcSendFailed (Some (et_stream texts e))), tr)
      | (Inr _, tr) \<Rightarrow> (Inr (), tr))"

definition effective_timeout :: "perform_rpc_data \<Rightarrow> nat" where
  "effective_timeout data = max (pr_response_timeout data - pr_max_round_trip_latency data) 1000"

definition register_call :: "string \<Rightarrow> rpc_client \<Rightarrow> rpc_client" where
  "register_call rid cl =
     cl\<lparr>cl_pending_acks := insert rid (cl_pending_acks cl), cl_pending_responses := insert rid (cl_pending_responses cl),
        cl_calls := (cl_calls cl)(rid \<mapsto> \<lparr>ca_phase = AwaitAck, ca_acked = False, ca_response = None\<rparr>)\<rparr>"

definition finish_call :: "string \<Rightarrow> rpc_error + bytes \<Rightarrow> rpc_client \<Rightarrow> rpc_client" where
  "finish_call rid r cl =
     cl\<lparr>cl_calls := (cl_calls cl)(rid := map_option (\<lambda>c. c\<lparr>ca_phase := Finished r\<rparr>) (cl_calls cl rid))\<rparr>"

definition forget_call :: "string \<Rightarrow> rpc_client \<Rightarrow> rpc_client" where
  "forget_call rid cl =
     cl\<lparr>cl_pending_acks := cl_pending_acks cl - {rid}, cl_pending_responses := cl_pending_responses cl - {rid}\<rparr>"

text \<open>The environment of a call: the version of the server, the parser of versions (whether the version is at least
  1.8.0), the client protocols of the remote participants, the identifiers for the call and for a stream.\<close>

record rpc_env =
  rv_texts :: error_texts
  rv_stream :: stream_env
  rv_server_info :: "string option"
  rv_supported :: "string \<Rightarrow> bool option"
  rv_protocol :: "string \<Rightarrow> int"
  rv_id :: string
  rv_uuid :: string
  rv_runtime :: bool

text \<open>\<open>perform_rpc\<close> up to the point where it waits: an error at once, or the call is registered and the request sent; when
  sending fails the call is forgotten again. \<open>None\<close> is a panic. Registering the call and sending the request are one step:
  an acknowledgement or response that arrives while the source still awaits the end of the send is a later step here, and
  finds the same entries, as the call is registered before anything is sent.\<close>

definition perform_rpc ::
    "rpc_env \<Rightarrow> perform_rpc_data \<Rightarrow> rpc_client \<Rightarrow> transport \<Rightarrow> ((rpc_error + unit) \<times> rpc_client \<times> transport) option" where
  "perform_rpc ev data cl tr =
     (case server_version (rv_server_info ev) of
        Some v \<Rightarrow> rv_supported ev v
      | None \<Rightarrow> Some True) \<bind> (\<lambda>supported.
      if \<not> supported then Some (Inl (built_in UnsupportedServer None), cl, tr)
      else
        let use_v2 = rv_protocol ev (pr_destination_identity data) \<ge> CLIENT_PROTOCOL_DATA_STREAM_RPC
        in if \<not> use_v2 \<and> length (pr_payload data) > MAX_V1_PAYLOAD_BYTES
           then Some (Inl (built_in RequestPayloadTooLarge None), cl, tr)
           else
             let rid = rv_id ev;
                 cl = register_call rid cl;
                 (sent, tr) =
                   (if use_v2
                    then send_v2_request (rv_texts ev) (rv_stream ev) (rv_uuid ev) (rv_runtime ev)
                           (pr_destination_identity data) rid (pr_method data) (pr_payload data) (effective_timeout data) tr
                    else
                      let (ok, tr) = send_v1_request (pr_destination_identity data) rid (pr_method data) (pr_payload data)
                                       (effective_timeout data) tr
                      in (if ok then Inr () else Inl (built_in RpcSendFailed (Some (et_room (rv_texts ev)))), tr))
             in case sent of
                  Inl e \<Rightarrow> Some (Inl e, finish_call rid (Inl e) (forget_call rid cl), tr)
                | Inr _ \<Rightarrow> Some (Inr (), cl, tr))"

text \<open>What arrives for a call. An acknowledgement or a response for an unknown call is only logged.\<close>

definition set_call :: "string \<Rightarrow> (rpc_call \<Rightarrow> rpc_call) \<Rightarrow> rpc_client \<Rightarrow> rpc_client" where
  "set_call rid f cl = cl\<lparr>cl_calls := (cl_calls cl)(rid := map_option f (cl_calls cl rid))\<rparr>"

definition handle_incoming_rpc_ack :: "string \<Rightarrow> rpc_client \<Rightarrow> rpc_client" where
  "handle_incoming_rpc_ack request_id cl =
     (if request_id \<in> cl_pending_acks cl
      then set_call request_id (\<lambda>c. c\<lparr>ca_acked := True\<rparr>)
             (cl\<lparr>cl_pending_acks := cl_pending_acks cl - {request_id}\<rparr>)
      else cl)"

definition resolve_response :: "string \<Rightarrow> rpc_error + bytes \<Rightarrow> rpc_client \<Rightarrow> rpc_client" where
  "resolve_response request_id r cl =
     (if request_id \<in> cl_pending_responses cl
      then set_call request_id (\<lambda>c. c\<lparr>ca_response := Some r\<rparr>)
             (cl\<lparr>cl_pending_responses := cl_pending_responses cl - {request_id}\<rparr>)
      else cl)"

definition handle_v1_response_packet ::
    "string \<Rightarrow> bytes option \<Rightarrow> proto_rpc_error option \<Rightarrow> rpc_client \<Rightarrow> rpc_client" where
  "handle_v1_response_packet request_id body error cl =
     resolve_response request_id
       (case error of
          Some e \<Rightarrow> Inl (rpc_error_from_proto e)
        | None \<Rightarrow> Inr (unwrap_or body [])) cl"

text \<open>The attributes of the stream and what reading all of it gives.\<close>

definition handle_v2_response_stream ::
    "error_texts \<Rightarrow> attributes \<Rightarrow> stream_error + bytes \<Rightarrow> rpc_client \<Rightarrow> rpc_client" where
  "handle_v2_response_stream texts attrs result cl =
     (let request_id = unwrap_or (attrs ATTR_REQUEST_ID) ''''
      in if request_id = '''' then cl
         else resolve_response request_id
           (case result of
              Inl e \<Rightarrow> Inl (built_in ApplicationError
                (Some (string_bytes ''Failed to read response stream: '' @ et_stream texts e)))
            | Inr body \<Rightarrow> Inr body) cl)"

text \<open>The waiting part of \<open>perform_rpc\<close>: the two receivers, each under its timeout. A receiver is ready when its
  value is there or its sender is gone.\<close>

definition ack_ready :: "string \<Rightarrow> rpc_client \<Rightarrow> rpc_call \<Rightarrow> bool" where
  "ack_ready rid cl c \<longleftrightarrow> ca_acked c \<or> rid \<notin> cl_pending_acks cl"

definition response_ready :: "string \<Rightarrow> rpc_client \<Rightarrow> rpc_call \<Rightarrow> bool" where
  "response_ready rid cl c \<longleftrightarrow> ca_response c \<noteq> None \<or> rid \<notin> cl_pending_responses cl"

definition poll_call :: "string \<Rightarrow> rpc_client \<Rightarrow> rpc_client" where
  "poll_call rid cl =
     (case cl_calls cl rid of
        None \<Rightarrow> cl
      | Some c \<Rightarrow>
          (case ca_phase c of
             AwaitAck \<Rightarrow> if ack_ready rid cl c then set_call rid (\<lambda>c. c\<lparr>ca_phase := AwaitResponse\<rparr>) cl else cl
           | AwaitResponse \<Rightarrow>
               if response_ready rid cl c
               then finish_call rid
                      (case ca_response c of
                         Some r \<Rightarrow> r
                       | None \<Rightarrow> Inl (built_in RecipientDisconnected None)) cl
               else cl
           | Finished _ \<Rightarrow> cl))"

text \<open>A timeout that elapses; a receiver that is ready wins.\<close>

definition ack_elapsed :: "string \<Rightarrow> rpc_client \<Rightarrow> rpc_client" where
  "ack_elapsed rid cl =
     (case cl_calls cl rid of
        Some c \<Rightarrow>
          if ca_phase c = AwaitAck \<and> \<not> ack_ready rid cl c
          then finish_call rid (Inl (built_in ConnectionTimeout None)) (forget_call rid cl)
          else cl
      | None \<Rightarrow> cl)"

definition response_elapsed :: "string \<Rightarrow> rpc_client \<Rightarrow> rpc_client" where
  "response_elapsed rid cl =
     (case cl_calls cl rid of
        Some c \<Rightarrow>
          if ca_phase c = AwaitResponse \<and> \<not> response_ready rid cl c
          then finish_call rid (Inl (built_in ResponseTimeout None))
                 (cl\<lparr>cl_pending_responses := cl_pending_responses cl - {rid}\<rparr>)
          else cl
      | None \<Rightarrow> cl)"

section \<open>The server\<close>

text \<open>A handler either gives a result or panics.\<close>

datatype handler_outcome = HandlerPanicked | HandlerResult "rpc_error + bytes"

record rpc_invocation =
  iv_request_id :: string
  iv_caller_identity :: string
  iv_payload :: bytes
  iv_response_timeout :: nat

type_synonym rpc_server = "string \<rightharpoonup> (rpc_invocation \<Rightarrow> handler_outcome)"

definition register_method :: "string \<Rightarrow> (rpc_invocation \<Rightarrow> handler_outcome) \<Rightarrow> rpc_server \<Rightarrow> rpc_server" where
  "register_method method handler handlers = handlers(method \<mapsto> handler)"

definition unregister_method :: "string \<Rightarrow> rpc_server \<Rightarrow> rpc_server" where
  "unregister_method method handlers = handlers(method := None)"

definition invoke_handler :: "rpc_server \<Rightarrow> string \<Rightarrow> rpc_invocation \<Rightarrow> rpc_error + bytes" where
  "invoke_handler handlers method invocation =
     (case handlers method of
        Some handler \<Rightarrow>
          (case handler invocation of
             HandlerResult result \<Rightarrow> result
           | HandlerPanicked \<Rightarrow> Inl (built_in ApplicationError None))
      | None \<Rightarrow> Inl (built_in UnsupportedMethod None))"

definition rpc_ack_packet :: "string \<Rightarrow> string \<Rightarrow> data_packet" where
  "rpc_ack_packet destination_identity request_id =
     data_packet_default\<lparr>dp_destination_identities := [destination_identity], dp_value := Some (RpcAckValue request_id)\<rparr>"

definition publish_rpc_ack :: "string \<Rightarrow> string \<Rightarrow> transport \<Rightarrow> bool \<times> transport" where
  "publish_rpc_ack destination_identity request_id tr = rpc_publish (rpc_ack_packet destination_identity request_id) tr"

text \<open>A response packet without payload and error panics.\<close>

definition rpc_response_packet :: "string \<Rightarrow> string \<Rightarrow> bytes option \<Rightarrow> proto_rpc_error option \<Rightarrow> data_packet option" where
  "rpc_response_packet destination_identity request_id body error =
     map_option (\<lambda>v. data_packet_default\<lparr>dp_destination_identities := [destination_identity],
         dp_value := Some (RpcResponseValue \<lparr>rr_request_id = request_id, rr_value = Some v\<rparr>)\<rparr>)
       (case error of Some e \<Rightarrow> Some (RpcErrorValue e) | None \<Rightarrow> map_option RpcPayload body)"

definition publish_rpc_response_packet ::
    "string \<Rightarrow> string \<Rightarrow> bytes option \<Rightarrow> proto_rpc_error option \<Rightarrow> transport \<Rightarrow> (bool \<times> transport) option" where
  "publish_rpc_response_packet destination_identity request_id body error tr =
     map_option (\<lambda>packet. rpc_publish packet tr) (rpc_response_packet destination_identity request_id body error)"

record handle_request_options =
  ho_caller_identity :: string
  ho_request_id :: string
  ho_method :: string
  ho_payload :: bytes
  ho_response_timeout :: nat
  ho_version :: u32

definition handle_v1_request :: "rpc_server \<Rightarrow> handle_request_options \<Rightarrow> transport \<Rightarrow> transport option" where
  "handle_v1_request handlers options tr =
     (let (_, tr) = publish_rpc_ack (ho_caller_identity options) (ho_request_id options) tr;
          response =
            (if ho_version options \<noteq> RPC_VERSION_V1 then Inl (built_in UnsupportedVersion None)
             else invoke_handler handlers (ho_method options)
                    \<lparr>iv_request_id = ho_request_id options, iv_caller_identity = ho_caller_identity options,
                     iv_payload = ho_payload options, iv_response_timeout = ho_response_timeout options\<rparr>);
          (body, error) =
            (case response of
               Inr r \<Rightarrow>
                 if length r \<le> MAX_V1_PAYLOAD_BYTES then (Some r, None)
                 else (None, Some (rpc_error_to_proto (built_in ResponsePayloadTooLarge None)))
             | Inl e \<Rightarrow> (None, Some (rpc_error_to_proto e)))
      in map_option snd
           (publish_rpc_response_packet (ho_caller_identity options) (ho_request_id options) body error tr))"

definition v2_response_options :: "string \<Rightarrow> string \<Rightarrow> stream_text_options" where
  "v2_response_options caller_identity request_id =
     text_options_default\<lparr>to_topic := RPC_RESPONSE_TOPIC, to_attributes := [ATTR_REQUEST_ID \<mapsto> request_id],
       to_destination_identities := [caller_identity]\<rparr>"

definition v2_response_timeout :: "attributes \<Rightarrow> nat" where
  "v2_response_timeout attrs = unwrap_or (Option.bind (attrs ATTR_RESPONSE_TIMEOUT_MS) (parse_unsigned 64)) 15000"

definition v2_version :: "attributes \<Rightarrow> nat" where
  "v2_version attrs = unwrap_or (Option.bind (attrs ATTR_VERSION) (parse_unsigned 32)) 0"

definition respond_error :: "string \<Rightarrow> string \<Rightarrow> rpc_error \<Rightarrow> transport \<Rightarrow> transport option" where
  "respond_error caller_identity request_id e tr =
     map_option snd (publish_rpc_response_packet caller_identity request_id None (Some (rpc_error_to_proto e)) tr)"

definition handle_v2_request_stream ::
    "error_texts \<Rightarrow> stream_env \<Rightarrow> string \<Rightarrow> bool \<Rightarrow> rpc_server \<Rightarrow> attributes \<Rightarrow> stream_error + bytes \<Rightarrow> string \<Rightarrow>
     transport \<Rightarrow> transport option" where
  "handle_v2_request_stream texts env uuid runtime handlers attrs result caller_identity tr =
     (let request_id = unwrap_or (attrs ATTR_REQUEST_ID) '''';
          method = unwrap_or (attrs ATTR_METHOD) '''';
          (_, tr) = publish_rpc_ack caller_identity request_id tr
      in if v2_version attrs \<noteq> RPC_VERSION_V2
         then respond_error caller_identity request_id (built_in UnsupportedVersion None) tr
         else case result of
             Inl e \<Rightarrow>
               respond_error caller_identity request_id
                 (built_in ApplicationError
                    (Some (string_bytes ''Failed to read request stream: '' @ et_stream texts e))) tr
           | Inr body \<Rightarrow>
               (case invoke_handler handlers method
                       \<lparr>iv_request_id = request_id, iv_caller_identity = caller_identity, iv_payload = body,
                        iv_response_timeout = v2_response_timeout attrs\<rparr> of
                  Inr response \<Rightarrow>
                    (case send_text env uuid runtime response (v2_response_options caller_identity request_id) tr of
                       (Inr _, tr) \<Rightarrow> Some tr
                     | (Inl e, tr) \<Rightarrow>
                         respond_error caller_identity request_id
                           (built_in RpcSendFailed (Some (et_stream texts e))) tr)
                | Inl e \<Rightarrow> respond_error caller_identity request_id e tr))"

section \<open>Truncation\<close>

lemma utf8_chars_concat: "utf8_valid bs \<Longrightarrow> concat (utf8_chars bs) = bs"
proof (induction bs rule: utf8_chars.induct)
  case (1 bs)
  show ?case
  proof (cases "utf8_char_len bs")
    case None
    with 1(2) have "bs = []" by (subst (asm) utf8_valid.simps) auto
    with None show ?thesis by (subst utf8_chars.simps) simp
  next
    case (Some n)
    from 1(2) Some utf8_char_len_le [OF Some] have "utf8_valid (drop n bs)"
      by (subst (asm) utf8_valid.simps) auto
    with 1(1) [OF Some] Some show ?thesis by (subst utf8_chars.simps) simp
  qed
qed

lemma utf8_chars_valid: "c \<in> set (utf8_chars bs) \<Longrightarrow> utf8_valid c"
proof (induction bs rule: utf8_chars.induct)
  case (1 bs)
  have unfold: "utf8_chars bs = (case utf8_char_len bs of None \<Rightarrow> [] | Some n \<Rightarrow> take n bs # utf8_chars (drop n bs))"
    by (rule utf8_chars.simps)
  with 1(2) obtain n where n: "utf8_char_len bs = Some n" "c = take n bs \<or> c \<in> set (utf8_chars (drop n bs))"
    by (cases "utf8_char_len bs") simp_all
  have "utf8_valid (take n bs)"
    using utf8_valid_step [OF utf8_char_len_take [OF n(1) order.refl]] by simp
  with 1(1) [OF n(1)] n(2) show ?case by auto
qed

lemma utf8_valid_concat: "(\<And>c. c \<in> set cs \<Longrightarrow> utf8_valid c) \<Longrightarrow> utf8_valid (concat cs)"
  by (induction cs) (auto intro: utf8_valid_append)

text \<open>What \<open>push_chars\<close> gives: as many characters as fit.\<close>

lemma push_chars_take:
  "\<exists>k \<le> length cs. push_chars m result cs = result @ concat (take k cs) \<and>
     (k < length cs \<longrightarrow> m < length (result @ concat (take (Suc k) cs)))"
proof (induction m result cs rule: push_chars.induct)
  case (2 m result c cs)
  show ?case
  proof (cases "length (result @ c) > m")
    case True
    then show ?thesis by (intro exI [of _ 0]) simp
  next
    case False
    with 2 obtain k where "k \<le> length cs" "push_chars m (result @ c) cs = (result @ c) @ concat (take k cs)"
        "k < length cs \<longrightarrow> m < length ((result @ c) @ concat (take (Suc k) cs))" by blast
    with False show ?thesis by (intro exI [of _ "Suc k"]) auto
  qed
qed simp

lemma push_chars_length: "length result \<le> m \<Longrightarrow> length (push_chars m result cs) \<le> m"
  by (induction m result cs rule: push_chars.induct) auto

text \<open>Truncating a text keeps a prefix of at most the given size that is itself a text, and cuts only where the
  next character would not fit: whatever longer prefix ends between two characters exceeds the size.\<close>

theorem truncate_bytes_spec:
  assumes "utf8_valid s"
  shows "utf8_valid (truncate_bytes s n) \<and> length (truncate_bytes s n) \<le> n \<and> prefix (truncate_bytes s n) s \<and>
    (truncate_bytes s n = s \<or>
     (\<exists>j. truncate_bytes s n = concat (take j (utf8_chars s)) \<and> n < length (concat (take (Suc j) (utf8_chars s)))))"
proof (cases "length s \<le> n")
  case True
  with assms show ?thesis by (simp add: truncate_bytes_def)
next
  case False
  obtain k where k: "k \<le> length (utf8_chars s)" "push_chars n [] (utf8_chars s) = concat (take k (utf8_chars s))"
      "k < length (utf8_chars s) \<longrightarrow> n < length (concat (take (Suc k) (utf8_chars s)))"
    using push_chars_take [of "utf8_chars s" n "[]"] by auto
  have t: "truncate_bytes s n = concat (take k (utf8_chars s))" using False k(2) by (simp add: truncate_bytes_def)
  have valid: "utf8_valid (truncate_bytes s n)"
    unfolding t by (rule utf8_valid_concat) (auto dest: in_set_takeD intro: utf8_chars_valid)
  have len: "length (truncate_bytes s n) \<le> n"
    using False push_chars_length [of "[]" n] by (simp add: truncate_bytes_def)
  have "concat (take k (utf8_chars s)) @ concat (drop k (utf8_chars s)) = s"
    using utf8_chars_concat [OF assms] by (metis append_take_drop_id concat_append)
  then have pre: "prefix (truncate_bytes s n) s" unfolding t by (rule prefixI [OF sym])
  have "k \<noteq> length (utf8_chars s)"
    using False len utf8_chars_concat [OF assms] by (auto simp: t)
  with k(1,3) t valid len pre show ?thesis by auto
qed

theorem truncate_bytes_spec_witness:
  "utf8_valid (truncate_bytes hello_wave 9) \<and> prefix (truncate_bytes hello_wave 9) hello_wave \<and>
   length (truncate_bytes hello_wave 9) = 6"
proof -
  have "length (truncate_bytes hello_wave 9) = 6" by code_simp
  with truncate_bytes_spec [OF hello_wave_valid, of 9] show ?thesis by blast
qed

section \<open>Calls are settled\<close>

datatype rpc_event =
    CallStarts rpc_env perform_rpc_data
  | AckArrives string
  | ResponseArrives string "bytes option" "proto_rpc_error option"
  | ResponseStreamArrives error_texts attributes "stream_error + bytes"
  | CallPolled string
  | AckElapses string
  | ResponseElapses string

text \<open>A panic ends the task of the caller and leaves the manager as it is.\<close>

fun rpc_client_step :: "rpc_client \<times> transport \<Rightarrow> rpc_event \<Rightarrow> rpc_client \<times> transport" where
  "rpc_client_step (cl, tr) (CallStarts ev data) =
     (case perform_rpc ev data cl tr of None \<Rightarrow> (cl, tr) | Some (_, cl, tr) \<Rightarrow> (cl, tr))"
| "rpc_client_step (cl, tr) (AckArrives rid) = (handle_incoming_rpc_ack rid cl, tr)"
| "rpc_client_step (cl, tr) (ResponseArrives rid body error) = (handle_v1_response_packet rid body error cl, tr)"
| "rpc_client_step (cl, tr) (ResponseStreamArrives texts attrs result) =
     (handle_v2_response_stream texts attrs result cl, tr)"
| "rpc_client_step (cl, tr) (CallPolled rid) = (poll_call rid cl, tr)"
| "rpc_client_step (cl, tr) (AckElapses rid) = (ack_elapsed rid cl, tr)"
| "rpc_client_step (cl, tr) (ResponseElapses rid) = (response_elapsed rid cl, tr)"

text \<open>The response that an event brings.\<close>

fun brings :: "rpc_event \<Rightarrow> (string \<times> (rpc_error + bytes)) option" where
  "brings (ResponseArrives rid body error) =
     Some (rid, case error of Some e \<Rightarrow> Inl (rpc_error_from_proto e) | None \<Rightarrow> Inr (unwrap_or body []))"
| "brings (ResponseStreamArrives texts attrs result) =
     Some (unwrap_or (attrs ATTR_REQUEST_ID) '''',
       case result of
         Inl e \<Rightarrow> Inl (built_in ApplicationError
           (Some (string_bytes ''Failed to read response stream: '' @ et_stream texts e)))
       | Inr body \<Rightarrow> Inr body)"
| "brings _ = None"

text \<open>The errors that a client gives to a call itself.\<close>

definition local_error :: "rpc_error \<Rightarrow> bool" where
  "local_error e \<longleftrightarrow> (\<exists>code d. e = built_in code d \<and> code \<in> {ConnectionTimeout, ResponseTimeout, RpcSendFailed})"

definition awaits_response :: "rpc_client \<Rightarrow> string \<Rightarrow> rpc_call \<Rightarrow> bool" where
  "awaits_response cl rid c \<longleftrightarrow> (ca_response c = None \<longleftrightarrow> rid \<in> cl_pending_responses cl)"

definition call_ok :: "rpc_event list \<Rightarrow> rpc_client \<Rightarrow> string \<Rightarrow> bool" where
  "call_ok es cl rid \<longleftrightarrow>
     (case cl_calls cl rid of
        None \<Rightarrow> rid \<notin> cl_pending_acks cl \<and> rid \<notin> cl_pending_responses cl
      | Some c \<Rightarrow>
          (\<forall>r. ca_response c = Some r \<longrightarrow> Some (rid, r) \<in> brings ` set es) \<and>
          (case ca_phase c of
             AwaitAck \<Rightarrow> (ca_acked c \<longleftrightarrow> rid \<notin> cl_pending_acks cl) \<and> awaits_response cl rid c
           | AwaitResponse \<Rightarrow> rid \<notin> cl_pending_acks cl \<and> awaits_response cl rid c
           | Finished r \<Rightarrow>
               rid \<notin> cl_pending_acks cl \<and> rid \<notin> cl_pending_responses cl \<and>
               (ca_response c = Some r \<or> (\<exists>e. r = Inl e \<and> local_error e))))"

lemma call_ok_mono: "call_ok es cl rid \<Longrightarrow> set es \<subseteq> set es' \<Longrightarrow> call_ok es' cl rid"
  unfolding call_ok_def by (cases "cl_calls cl rid") (simp_all add: image_mono subset_iff, blast)

text \<open>Operations on one call do not touch the others.\<close>

lemma call_ok_other:
  assumes "call_ok es cl rid" "cl_calls cl' rid = cl_calls cl rid"
    and "rid \<in> cl_pending_acks cl' \<longleftrightarrow> rid \<in> cl_pending_acks cl"
    and "rid \<in> cl_pending_responses cl' \<longleftrightarrow> rid \<in> cl_pending_responses cl"
  shows "call_ok es cl' rid"
  using assms unfolding call_ok_def awaits_response_def by (simp split: option.splits call_phase.splits)

definition rpc_client_inv :: "rpc_event list \<Rightarrow> rpc_client \<Rightarrow> bool" where
  "rpc_client_inv es cl \<longleftrightarrow> (\<forall>rid. call_ok es cl rid)"

lemma rpc_client_inv_update:
  assumes "rpc_client_inv es cl" "call_ok es' cl' rid" "set es \<subseteq> set es'"
    and "\<And>k. k \<noteq> rid \<Longrightarrow> cl_calls cl' k = cl_calls cl k"
    and "\<And>k. k \<noteq> rid \<Longrightarrow> k \<in> cl_pending_acks cl' \<longleftrightarrow> k \<in> cl_pending_acks cl"
    and "\<And>k. k \<noteq> rid \<Longrightarrow> k \<in> cl_pending_responses cl' \<longleftrightarrow> k \<in> cl_pending_responses cl"
  shows "rpc_client_inv es' cl'"
  unfolding rpc_client_inv_def
proof
  fix k
  show "call_ok es' cl' k"
  proof (cases "k = rid")
    case False
    with assms(1,3) have "call_ok es' cl k" by (auto simp: rpc_client_inv_def intro: call_ok_mono)
    with False show ?thesis using assms(4-6) by (auto intro: call_ok_other)
  qed (use assms(2) in simp)
qed

lemmas client_defs = set_call_def finish_call_def forget_call_def register_call_def

lemmas call_splits = option.splits call_phase.splits if_splits

lemma ack_inv:
  assumes "rpc_client_inv es cl"
  shows "rpc_client_inv (es @ [AckArrives rid]) (handle_incoming_rpc_ack rid cl)"
proof (rule rpc_client_inv_update [OF assms, where rid = rid])
  from assms have "call_ok es cl rid" by (simp add: rpc_client_inv_def)
  then show "call_ok (es @ [AckArrives rid]) (handle_incoming_rpc_ack rid cl) rid"
    by (auto simp: call_ok_def awaits_response_def handle_incoming_rpc_ack_def client_defs split: call_splits)
qed (auto simp: handle_incoming_rpc_ack_def client_defs)

lemma resolve_inv:
  assumes "rpc_client_inv es cl" "brings e = Some (rid, r)"
  shows "rpc_client_inv (es @ [e]) (resolve_response rid r cl)"
proof (rule rpc_client_inv_update [OF assms(1), where rid = rid])
  from assms have "call_ok es cl rid" by (simp add: rpc_client_inv_def)
  with assms(2) show "call_ok (es @ [e]) (resolve_response rid r cl) rid"
    by (auto simp: call_ok_def awaits_response_def resolve_response_def client_defs split: call_splits)
qed (auto simp: resolve_response_def client_defs)

lemma poll_inv:
  assumes "rpc_client_inv es cl"
  shows "rpc_client_inv (es @ [e]) (poll_call rid cl)"
proof (rule rpc_client_inv_update [OF assms, where rid = rid])
  from assms have "call_ok es cl rid" by (simp add: rpc_client_inv_def)
  then show "call_ok (es @ [e]) (poll_call rid cl) rid"
    by (auto simp: call_ok_def awaits_response_def poll_call_def ack_ready_def response_ready_def client_defs
        split: call_splits)
qed (auto simp: poll_call_def client_defs split: call_splits)

lemma local_error_built_in [simp]:
  "local_error (built_in ConnectionTimeout d)" "local_error (built_in ResponseTimeout d)"
  "local_error (built_in RpcSendFailed d)"
  by (auto simp: local_error_def)

lemma elapsed_inv:
  assumes "rpc_client_inv es cl"
  shows "rpc_client_inv (es @ [e]) (ack_elapsed rid cl)" "rpc_client_inv (es @ [e]) (response_elapsed rid cl)"
proof -
  from assms have ok: "call_ok es cl rid" by (simp add: rpc_client_inv_def)
  show "rpc_client_inv (es @ [e]) (ack_elapsed rid cl)"
  proof (rule rpc_client_inv_update [OF assms, where rid = rid])
    from ok show "call_ok (es @ [e]) (ack_elapsed rid cl) rid"
      by (auto simp: call_ok_def awaits_response_def ack_elapsed_def ack_ready_def client_defs split: call_splits)
  qed (auto simp: ack_elapsed_def client_defs split: call_splits)
  show "rpc_client_inv (es @ [e]) (response_elapsed rid cl)"
  proof (rule rpc_client_inv_update [OF assms, where rid = rid])
    from ok show "call_ok (es @ [e]) (response_elapsed rid cl) rid"
      by (auto simp: call_ok_def awaits_response_def response_elapsed_def response_ready_def client_defs
          split: call_splits)
  qed (auto simp: response_elapsed_def client_defs split: call_splits)
qed

text \<open>Starting a call leaves the client alone, registers the call, or registers and forgets it.\<close>

lemma send_v2_request_error:
  "send_v2_request texts env uuid runtime dest rid m b t tr = (Inl e, tr') \<Longrightarrow> \<exists>d. e = built_in RpcSendFailed d"
  by (auto simp: send_v2_request_def split: prod.splits sum.splits)

lemma perform_rpc_cases:
  assumes "perform_rpc ev data cl tr = Some (r, cl', tr')"
  obtains e where "r = Inl e" "cl' = cl"
    | "r = Inr ()" "cl' = register_call (rv_id ev) cl"
    | d where "r = Inl (built_in RpcSendFailed d)"
      "cl' = finish_call (rv_id ev) (Inl (built_in RpcSendFailed d)) (forget_call (rv_id ev) (register_call (rv_id ev) cl))"
  using assms that
  by (auto simp: perform_rpc_def Let_def Option.bind_eq_Some_conv dest!: send_v2_request_error
      split: if_splits sum.splits prod.splits)

lemma register_ok: "call_ok es (register_call rid cl) rid"
  by (simp add: call_ok_def awaits_response_def client_defs)

lemma start_inv:
  assumes "rpc_client_inv es cl" "perform_rpc ev data cl tr = Some (r, cl', tr')" "cl_calls cl (rv_id ev) = None"
  shows "rpc_client_inv (es @ [e]) cl'"
  using assms(2)
proof (cases rule: perform_rpc_cases)
  case 1
  with assms(1) show ?thesis by (auto simp: rpc_client_inv_def intro: call_ok_mono)
next
  case 2
  show ?thesis
    unfolding 2 by (rule rpc_client_inv_update [OF assms(1) register_ok]) (auto simp: client_defs)
next
  case (3 d)
  show ?thesis
    unfolding 3(2)
    by (rule rpc_client_inv_update [OF assms(1), where rid = "rv_id ev"])
      (auto simp: client_defs call_ok_def 3(1))
qed

definition rpc_log_step ::
    "(rpc_client \<times> transport) \<times> rpc_event list \<Rightarrow> rpc_event \<Rightarrow> (rpc_client \<times> transport) \<times> rpc_event list" where
  "rpc_log_step = (\<lambda>(s, es) e. (rpc_client_step s e, es @ [e]))"

text \<open>The random identifiers of calls are new.\<close>

fun rpc_event_ok :: "rpc_client \<times> transport \<Rightarrow> rpc_event \<Rightarrow> bool" where
  "rpc_event_ok (cl, tr) (CallStarts ev data) \<longleftrightarrow> cl_calls cl (rv_id ev) = None"
| "rpc_event_ok _ _ \<longleftrightarrow> True"

lemma rpc_client_step_inv:
  assumes inv: "rpc_client_inv es (fst s)" and ok: "rpc_event_ok s e"
  shows "rpc_client_inv (es @ [e]) (fst (rpc_client_step s e))"
proof (cases s)
  case (Pair cl tr)
  from inv Pair have inv: "rpc_client_inv es cl" by simp
  then have id: "rpc_client_inv (es @ [e]) cl" by (auto simp: rpc_client_inv_def intro: call_ok_mono)
  show ?thesis
  proof (cases e)
    case (CallStarts ev data)
    with ok Pair id start_inv [OF inv] show ?thesis by (auto split: option.splits)
  next
    case (ResponseArrives rid b err)
    with Pair show ?thesis using resolve_inv [OF inv] by (simp add: handle_v1_response_packet_def)
  next
    case (ResponseStreamArrives texts attrs result)
    with Pair id show ?thesis using resolve_inv [OF inv] by (simp add: handle_v2_response_stream_def Let_def)
  qed (use Pair inv in \<open>auto simp: ack_inv poll_inv elapsed_inv\<close>)
qed

interpretation rpc_client_actor: actor "((rpc_client_new, tr), [])" rpc_log_step "\<lambda>(s, es) e. rpc_event_ok s e"
  "\<lambda>(s, es). rpc_client_inv es (fst s)" for tr
  by unfold_locales
    (auto simp: rpc_log_step_def rpc_client_step_inv, auto simp: rpc_client_inv_def call_ok_def rpc_client_new_def)

lemma rpc_log_run:
  "actor_run rpc_log_step (s, es) es' = (actor_run rpc_client_step s es', es @ es')"
  "actor_ok rpc_log_step (\<lambda>(s, es) e. rpc_event_ok s e) (s, es) es' = actor_ok rpc_client_step rpc_event_ok s es'"
  by (induction es' arbitrary: s es) (auto simp: rpc_log_step_def)

lemma rpc_client_reachable:
  assumes "actor_ok rpc_client_step rpc_event_ok (rpc_client_new, tr) es"
  shows "rpc_client_inv es (fst (actor_run rpc_client_step (rpc_client_new, tr) es))"
  using rpc_client_actor.inv_reachable [of tr es] assms by (auto simp: rpc_log_run)

text \<open>C28. Every call ends in one way and leaves nothing behind. After any sequence of started calls,
  acknowledgements, responses and timeouts, a call that has ended has no entry left among the pending ones; its result is a
  response that arrived under its identifier, or the error for a timeout or a failed send. In particular no call ends with
  the error for a disconnected recipient unless the recipient sent that error. A call that has not ended waits for its
  acknowledgement or its response, has a pending entry for it or has received it.\<close>

theorem rpc_calls_settled:
  assumes "actor_ok rpc_client_step rpc_event_ok (rpc_client_new, tr) es"
    and "fst (actor_run rpc_client_step (rpc_client_new, tr) es) = cl" "cl_calls cl rid = Some c"
  shows "case ca_phase c of
      Finished r \<Rightarrow> rid \<notin> cl_pending_acks cl \<and> rid \<notin> cl_pending_responses cl \<and>
        (Some (rid, r) \<in> brings ` set es \<or>
         (\<exists>code d. r = Inl (built_in code d) \<and> code \<in> {ConnectionTimeout, ResponseTimeout, RpcSendFailed}))
    | AwaitAck \<Rightarrow> rid \<in> cl_pending_acks cl \<or> ca_acked c
    | AwaitResponse \<Rightarrow> rid \<in> cl_pending_responses cl \<or> (\<exists>r. ca_response c = Some r)"
proof -
  from rpc_client_reachable [OF assms(1)] assms(2) have "call_ok es cl rid" by (simp add: rpc_client_inv_def)
  with assms(3) show ?thesis
    by (auto simp: call_ok_def awaits_response_def local_error_def split: call_phase.splits)
qed

definition sample_rpc_env :: rpc_env where
  "sample_rpc_env =
     \<lparr>rv_texts = \<lparr>et_stream = (\<lambda>_. []), et_room = []\<rparr>, rv_stream = sample_env, rv_server_info = Some ''1.9.0'',
      rv_supported = (\<lambda>_. Some True), rv_protocol = (\<lambda>_. 0), rv_id = ''call'', rv_uuid = ''u'', rv_runtime = True\<rparr>"

definition sample_rpc_data :: perform_rpc_data where
  "sample_rpc_data =
     \<lparr>pr_destination_identity = ''bob'', pr_method = ''greet'', pr_payload = [1, 2], pr_response_timeout = 15000,
      pr_max_round_trip_latency = 7000\<rparr>"

definition sample_rpc_events :: "rpc_event list" where
  "sample_rpc_events =
     [CallStarts sample_rpc_env sample_rpc_data, AckArrives ''call'', CallPolled ''call'',
      ResponseArrives ''call'' (Some [3]) None, CallPolled ''call'']"

lemma perform_rpc_v1:
  assumes "server_version (rv_server_info ev) = None" "rv_protocol ev (pr_destination_identity data) < 1"
    and "length (pr_payload data) \<le> MAX_V1_PAYLOAD_BYTES" "next_outcome tr = SendAccepted"
  shows "perform_rpc ev data cl tr = Some (Inr (), register_call (rv_id ev) cl,
    snd (send_packet (v1_request_packet (pr_destination_identity data) (rv_id ev) (pr_method data) (pr_payload data)
       (effective_timeout data)) tr))"
  using assms
  by (simp add: perform_rpc_def Let_def CLIENT_PROTOCOL_DATA_STREAM_RPC_def send_v1_request_def rpc_publish_def send_packet_def)

lemma sample_call_starts:
  "perform_rpc sample_rpc_env sample_rpc_data cl open_transport = Some (Inr (), register_call ''call'' cl,
    snd (send_packet (v1_request_packet ''bob'' ''call'' ''greet'' [1, 2] 8000) open_transport))"
  using perform_rpc_v1 [of sample_rpc_env sample_rpc_data open_transport cl]
  by (simp add: sample_rpc_env_def sample_rpc_data_def server_version_def MAX_V1_PAYLOAD_BYTES_def open_transport_def
      next_outcome_def effective_timeout_def)

theorem rpc_calls_settled_witness:
  "\<exists>c. cl_calls (fst (actor_run rpc_client_step (rpc_client_new, open_transport) sample_rpc_events)) ''call'' = Some c \<and>
     ca_phase c = Finished (Inr [3]) \<and>
     ''call'' \<notin> cl_pending_responses (fst (actor_run rpc_client_step (rpc_client_new, open_transport) sample_rpc_events))"
proof -
  have ok: "actor_ok rpc_client_step rpc_event_ok (rpc_client_new, open_transport) sample_rpc_events"
    by (simp add: sample_rpc_events_def rpc_client_new_def)
  let ?cl = "fst (actor_run rpc_client_step (rpc_client_new, open_transport) sample_rpc_events)"
  obtain c where c: "cl_calls ?cl ''call'' = Some c" "ca_phase c = Finished (Inr [3])"
    by (simp add: sample_rpc_events_def sample_call_starts rpc_client_new_def client_defs handle_incoming_rpc_ack_def
        poll_call_def ack_ready_def handle_v1_response_packet_def resolve_response_def response_ready_def unwrap_or_def)
  from rpc_calls_settled [OF ok refl c(1)] c show ?thesis by simp
qed

end
