(* ===== verification/Rpc_Transfer.thy ===== *)
theory Rpc_Transfer
  imports Rpc
begin

text \<open>
  A remote procedure call from end to end: the client of one participant and the server of another, over data packets
  (version 1) and over text streams (version 2), with the dispatch of \<^verbatim>\<open>livekit/src/room/mod.rs\<close> in between.
\<close>

section \<open>Dispatch\<close>

text \<open>What the room does with an event about a remote procedure call: requests go to the server, acknowledgements and
  responses to the client. A request without caller is dropped.\<close>

fun room_rpc_request :: "session_event \<Rightarrow> handle_request_options option" where
  "room_rpc_request (SeRpcRequest caller request_id method body timeout version) =
     map_option (\<lambda>caller_identity.
       \<lparr>ho_caller_identity = caller_identity, ho_request_id = request_id, ho_method = method, ho_payload = body,
        ho_response_timeout = unat timeout, ho_version = version\<rparr>) caller"
| "room_rpc_request _ = None"

fun room_rpc_response :: "session_event \<Rightarrow> rpc_event option" where
  "room_rpc_response (SeRpcAck request_id) = Some (AckArrives request_id)"
| "room_rpc_response (SeRpcResponse request_id body error) = Some (ResponseArrives request_id body error)"
| "room_rpc_response _ = None"

text \<open>What the room does with a stream that was opened: streams on the topics of remote procedure calls go to the server
  and to the client, other streams to the application.\<close>

definition is_internal_topic :: "string \<Rightarrow> bool" where
  "is_internal_topic topic \<longleftrightarrow> topic \<in> {RPC_REQUEST_TOPIC, RPC_RESPONSE_TOPIC}"

datatype stream_route =
    RpcRequestStream attributes
  | RpcResponseStream attributes
  | ByteStreamOpened string
  | TextStreamOpened string
  | StreamIgnored

fun route_stream :: "any_stream_info \<Rightarrow> stream_route" where
  "route_stream (ByteInfo info) =
     (if is_internal_topic (bsi_topic info) then StreamIgnored else ByteStreamOpened (bsi_topic info))"
| "route_stream (TextInfo info) =
     (if tsi_topic info = RPC_REQUEST_TOPIC then RpcRequestStream (tsi_attributes info)
      else if tsi_topic info = RPC_RESPONSE_TOPIC then RpcResponseStream (tsi_attributes info)
      else if is_internal_topic (tsi_topic info) then StreamIgnored
      else TextStreamOpened (tsi_topic info))"

text \<open>The events of received packets, published by a participant.\<close>

definition arriving ::
    "'h native_cryptor \<Rightarrow> (bytes \<Rightarrow> payload_value option option) \<Rightarrow> 'h e2ee_manager option \<Rightarrow> participant_info \<Rightarrow>
     data_packet list \<Rightarrow> session_event list" where
  "arriving nc decode_payload manager info packets =
     concat (map (\<lambda>p. case dp_value p of None \<Rightarrow> []
       | Some v \<Rightarrow> emit_incoming_packet nc decode_payload manager Reliable
           (participant_sid_of (pi_sid info)) (Some (pi_identity info)) v TypeNone) packets)"

section \<open>Calls do not disturb each other\<close>

fun concerns :: "string \<Rightarrow> rpc_event \<Rightarrow> bool" where
  "concerns rid (CallStarts ev data) \<longleftrightarrow> rv_id ev = rid"
| "concerns rid (AckArrives r) \<longleftrightarrow> r = rid"
| "concerns rid (ResponseArrives r _ _) \<longleftrightarrow> r = rid"
| "concerns rid (ResponseStreamArrives _ attrs _) \<longleftrightarrow> unwrap_or (attrs ATTR_REQUEST_ID) '''' = rid"
| "concerns rid (CallPolled r) \<longleftrightarrow> r = rid"
| "concerns rid (AckElapses r) \<longleftrightarrow> r = rid"
| "concerns rid (ResponseElapses r) \<longleftrightarrow> r = rid"

definition call_view :: "string \<Rightarrow> rpc_client \<Rightarrow> bool \<times> bool \<times> rpc_call option" where
  "call_view rid cl = (rid \<in> cl_pending_acks cl, rid \<in> cl_pending_responses cl, cl_calls cl rid)"

lemmas step_defs = client_defs handle_incoming_rpc_ack_def handle_v1_response_packet_def handle_v2_response_stream_def
  resolve_response_def poll_call_def ack_elapsed_def response_elapsed_def ack_ready_def response_ready_def

lemma perform_rpc_view:
  "perform_rpc ev data cl tr = Some (r, cl', tr') \<Longrightarrow> rv_id ev \<noteq> rid \<Longrightarrow> call_view rid cl' = call_view rid cl"
  by (erule perform_rpc_cases) (auto simp: call_view_def client_defs)

lemma unconcerned_step:
  "\<not> concerns rid e \<Longrightarrow> call_view rid (fst (rpc_client_step s e)) = call_view rid (fst s)"
proof (induction s e rule: rpc_client_step.induct)
  case (1 cl tr ev data)
  then show ?case using perform_rpc_view by (auto split: option.splits)
qed (auto simp: call_view_def step_defs Let_def split: option.splits call_phase.splits sum.splits)

fun is_start :: "rpc_event \<Rightarrow> bool" where
  "is_start (CallStarts _ _) \<longleftrightarrow> True"
| "is_start _ \<longleftrightarrow> False"

lemma concerned_step:
  "concerns rid e \<Longrightarrow> \<not> is_start e \<Longrightarrow> call_view rid (fst s) = call_view rid (fst s') \<Longrightarrow>
   call_view rid (fst (rpc_client_step s e)) = call_view rid (fst (rpc_client_step s' e))"
  by (cases s; cases s'; cases e)
    (auto simp: call_view_def step_defs Let_def split: option.splits call_phase.splits sum.splits)

lemma view_run:
  assumes "list_all (\<lambda>e. \<not> is_start e) (filter (concerns rid) es)" "call_view rid (fst s) = call_view rid (fst s')"
  shows "call_view rid (fst (actor_run rpc_client_step s es)) =
    call_view rid (fst (actor_run rpc_client_step s' (filter (concerns rid) es)))"
  using assms
proof (induction es arbitrary: s s')
  case (Cons e es)
  show ?case
  proof (cases "concerns rid e")
    case True
    with Cons.prems concerned_step [of rid e s s'] Cons.IH [of "rpc_client_step s e" "rpc_client_step s' e"]
    show ?thesis by simp
  next
    case False
    with Cons.prems unconcerned_step [of rid e s] Cons.IH [of "rpc_client_step s e" s'] show ?thesis by simp
  qed
qed simp

section \<open>Version 1\<close>

lemma newly_sent_packet [simp]: "newly_sent tr (snd (send_packet p tr)) = [p]"
  by (simp add: newly_sent_def send_packet_def)

lemma newly_sent_two:
  "newly_sent tr (snd (send_packet q (snd (send_packet p tr)))) = [p, q]"
  by (simp add: newly_sent_def send_packet_def)

lemma snd_rpc_publish [simp]: "snd (rpc_publish p tr) = snd (send_packet p tr)"
  by (simp add: rpc_publish_def split_beta)

lemma arriving_simps [simp]:
  "arriving nc dec man info [] = []"
  "arriving nc dec man info (p # ps) =
     (case dp_value p of None \<Rightarrow> [] | Some v \<Rightarrow> emit_incoming_packet nc dec man Reliable
        (participant_sid_of (pi_sid info)) (Some (pi_identity info)) v TypeNone) @ arriving nc dec man info ps"
  by (simp_all add: arriving_def)

lemma emit_rpc [simp]:
  "emit_incoming_packet nc dec man kind sid identity (RpcRequestValue req) enc =
     [SeRpcRequest identity (rq_id req) (rq_method req) (rq_payload req) (rq_response_timeout_ms req) (rq_version req)]"
  "emit_incoming_packet nc dec man kind sid identity (RpcAckValue rid) enc = [SeRpcAck rid]"
  "emit_incoming_packet nc dec man kind sid identity (RpcResponseValue resp) enc =
     [SeRpcResponse (rr_request_id resp) (fst (rpc_response_parts (rr_value resp))) (snd (rpc_response_parts (rr_value resp)))]"
  by (subst emit_incoming_packet.simps, simp add: split_beta Let_def)+

text \<open>The result that the caller of a version 1 call gets for the result of the handler.\<close>

definition v1_result :: "rpc_error + bytes \<Rightarrow> rpc_error + bytes" where
  "v1_result r =
     (case r of
        Inr b \<Rightarrow>
          if length b \<le> MAX_V1_PAYLOAD_BYTES then Inr b
          else Inl (rpc_error_from_proto (rpc_error_to_proto (built_in ResponsePayloadTooLarge None)))
      | Inl e \<Rightarrow> Inl (rpc_error_from_proto (rpc_error_to_proto e)))"

definition v1_invocation :: "participant_info \<Rightarrow> string \<Rightarrow> perform_rpc_data \<Rightarrow> rpc_invocation" where
  "v1_invocation caller rid data =
     \<lparr>iv_request_id = rid, iv_caller_identity = pi_identity caller, iv_payload = pr_payload data,
      iv_response_timeout = unat (word_of_nat (effective_timeout data) :: u32)\<rparr>"

text \<open>The response that the server gives, as the client receives it.\<close>

definition v1_response_event :: "string \<Rightarrow> rpc_error + bytes \<Rightarrow> rpc_event" where
  "v1_response_event rid r =
     (case r of
        Inr b \<Rightarrow>
          if length b \<le> MAX_V1_PAYLOAD_BYTES then ResponseArrives rid (Some b) None
          else ResponseArrives rid None (Some (rpc_error_to_proto (built_in ResponsePayloadTooLarge None)))
      | Inl e \<Rightarrow> ResponseArrives rid None (Some (rpc_error_to_proto e)))"

lemma v1_response_event_step [simp]:
  "rpc_client_step (cl, tr) (v1_response_event rid r) = (resolve_response rid (v1_result r) cl, tr)"
  "\<not> is_start (v1_response_event rid r)"
  by (simp_all add: v1_response_event_def v1_result_def handle_v1_response_packet_def unwrap_or_def split: sum.splits)

lemma server_answers_v1:
  assumes version: "ho_version options = RPC_VERSION_V1"
    and r: "r = invoke_handler handlers (ho_method options)
      \<lparr>iv_request_id = ho_request_id options, iv_caller_identity = ho_caller_identity options,
       iv_payload = ho_payload options, iv_response_timeout = ho_response_timeout options\<rparr>"
  shows "\<exists>tr'. handle_v1_request handlers options tr = Some tr' \<and>
    List.map_filter room_rpc_response (arriving nc dec man callee (newly_sent tr tr')) =
      [AckArrives (ho_request_id options), v1_response_event (ho_request_id options) r]"
proof -
  let ?dest = "ho_caller_identity options" and ?rid = "ho_request_id options"
  define parts where "parts = (case r of
      Inr b \<Rightarrow> if length b \<le> MAX_V1_PAYLOAD_BYTES then (Some b, None)
              else (None, Some (rpc_error_to_proto (built_in ResponsePayloadTooLarge None)))
    | Inl e \<Rightarrow> (None, Some (rpc_error_to_proto e)))"
  obtain v where v: "rpc_response_packet ?dest ?rid (fst parts) (snd parts) =
      Some (data_packet_default\<lparr>dp_destination_identities := [?dest],
        dp_value := Some (RpcResponseValue \<lparr>rr_request_id = ?rid, rr_value = Some v\<rparr>)\<rparr>)"
      "room_rpc_response (SeRpcResponse ?rid (fst (rpc_response_parts (Some v))) (snd (rpc_response_parts (Some v)))) =
        Some (v1_response_event ?rid r)"
    by (cases r; cases "length (projr r) \<le> MAX_V1_PAYLOAD_BYTES")
      (simp_all add: parts_def rpc_response_packet_def v1_response_event_def)
  have "handle_v1_request handlers options tr = Some (snd (send_packet
      (data_packet_default\<lparr>dp_destination_identities := [?dest],
        dp_value := Some (RpcResponseValue \<lparr>rr_request_id = ?rid, rr_value = Some v\<rparr>)\<rparr>)
      (snd (send_packet (rpc_ack_packet ?dest ?rid) tr))))"
    unfolding handle_v1_request_def version r [symmetric]
    by (simp add: Let_def split_beta publish_rpc_ack_def publish_rpc_response_packet_def v(1) [unfolded parts_def])
  then show ?thesis using v(2) by (simp add: newly_sent_two rpc_ack_packet_def List.map_filter_simps)
qed

text \<open>A registered call that gets its acknowledgement and a response ends with that response, whatever happens to
  other calls in between.\<close>

lemma settle_call:
  assumes view: "call_view rid (fst s) = (True, True, Some \<lparr>ca_phase = AwaitAck, ca_acked = False, ca_response = None\<rparr>)"
    and e: "\<And>cl tr. rpc_client_step (cl, tr) e = (resolve_response rid r cl, tr)" "\<not> is_start e"
    and es: "filter (concerns rid) es = [AckArrives rid, e, CallPolled rid, CallPolled rid]"
  shows "\<exists>c. cl_calls (fst (actor_run rpc_client_step s es)) rid = Some c \<and> ca_phase c = Finished r"
proof -
  obtain cl tr where s: "s = (cl, tr)" by (cases s)
  have "call_view rid (fst (actor_run rpc_client_step s es)) =
      call_view rid (fst (actor_run rpc_client_step s [AckArrives rid, e, CallPolled rid, CallPolled rid]))"
    using view_run [of rid es s s] e(2) by (simp add: es)
  also have "snd (snd (\<dots>)) = Some \<lparr>ca_phase = Finished r, ca_acked = True, ca_response = Some r\<rparr>"
    using view by (simp add: s e(1) call_view_def step_defs)
  finally show ?thesis by (simp add: call_view_def)
qed

text \<open>C27. A version 1 call from end to end. When the call starts (no server version, the callee speaks no newer protocol,
  the payload fits and the transport accepts the request), the packet it sends makes the callee handle one request. The
  callee answers with an acknowledgement and a response. When these reach the caller in this order before the call is
  polled twice, and whatever happens to other calls in between, the call ends with the result of the handler registered for
  the method, invoked with the payload, the identifier and the identity of the caller: a payload that fits as it is, errors
  with message and data as the wire carries them, a response that is too large as the error for that.\<close>

theorem rpc_v1_round_trip:
  assumes "server_version (rv_server_info ev) = None" "rv_protocol ev (pr_destination_identity data) < 1"
    and "length (pr_payload data) \<le> MAX_V1_PAYLOAD_BYTES" "next_outcome trC = SendAccepted"
  shows "\<exists>cl' trC' options trS'.
    perform_rpc ev data cl trC = Some (Inr (), cl', trC') \<and>
    List.map_filter room_rpc_request (arriving nc dec man caller (newly_sent trC trC')) = [options] \<and>
    handle_v1_request handlers options trS = Some trS' \<and>
    (\<forall>es. filter (concerns (rv_id ev)) es =
        List.map_filter room_rpc_response (arriving nc' dec' man' callee (newly_sent trS trS')) @
        [CallPolled (rv_id ev), CallPolled (rv_id ev)] \<longrightarrow>
      (\<exists>c. cl_calls (fst (actor_run rpc_client_step (cl', trC') es)) (rv_id ev) = Some c \<and>
         ca_phase c = Finished (v1_result (invoke_handler handlers (pr_method data) (v1_invocation caller (rv_id ev) data)))))"
proof -
  define trC' where "trC' = snd (send_packet (v1_request_packet (pr_destination_identity data) (rv_id ev) (pr_method data)
     (pr_payload data) (effective_timeout data)) trC)"
  define options where "options = \<lparr>ho_caller_identity = pi_identity caller, ho_request_id = rv_id ev,
    ho_method = pr_method data, ho_payload = pr_payload data,
    ho_response_timeout = unat (word_of_nat (effective_timeout data) :: u32), ho_version = RPC_VERSION_V1\<rparr>"
  let ?r = "invoke_handler handlers (pr_method data) (v1_invocation caller (rv_id ev) data)"
  have start: "perform_rpc ev data cl trC = Some (Inr (), register_call (rv_id ev) cl, trC')"
    unfolding trC'_def by (rule perform_rpc_v1 [OF assms])
  have request: "List.map_filter room_rpc_request (arriving nc dec man caller (newly_sent trC trC')) = [options]"
    by (simp add: trC'_def v1_request_packet_def options_def List.map_filter_simps)
  obtain trS' where answer: "handle_v1_request handlers options trS = Some trS'"
      "List.map_filter room_rpc_response (arriving nc' dec' man' callee (newly_sent trS trS')) =
         [AckArrives (rv_id ev), v1_response_event (rv_id ev) ?r]"
    using server_answers_v1 [of options ?r handlers trS nc' dec' man' callee]
    by (auto simp: options_def v1_invocation_def)
  have "\<exists>c. cl_calls (fst (actor_run rpc_client_step (register_call (rv_id ev) cl, trC') es)) (rv_id ev) = Some c \<and>
      ca_phase c = Finished (v1_result ?r)"
    if "filter (concerns (rv_id ev)) es =
      [AckArrives (rv_id ev), v1_response_event (rv_id ev) ?r, CallPolled (rv_id ev), CallPolled (rv_id ev)]" for es
    using that by (intro settle_call) (simp_all add: call_view_def client_defs)
  with start request answer show ?thesis by auto
qed

section \<open>Version 2\<close>

lemma send_text_accepting:
  assumes "accepting tr" "header = text_stream_header env uuid options (Some (word_of_nat (length text)))"
    and "packets = stream_packets header (to_destination_identities options) (the (utf8_aware_chunks CHUNK_SIZE text))"
  shows "\<exists>info tr'. send_text env uuid runtime text options tr = (Inr info, tr') \<and>
    tr_requests tr' = tr_requests tr @ map (\<lambda>p. (p, SendAccepted)) packets"
proof -
  have "send_text env uuid runtime text options tr =
      finish_stream (next_outcome tr = SendAccepted) (sh_stream_id header) runtime
        (text_info_from_headers env header (text_header_of options) EncNone) (send_all packets tr)"
    using send_text_eq [of env uuid runtime "text" options tr] by (simp add: assms(2,3) Let_def)
  then show ?thesis using assms(1) by (simp add: send_all_accepting finish_stream_def)
qed

lemma emit_stream [simp]:
  "emit_incoming_packet nc dec man kind sid identity (StreamHeaderValue header) enc =
     [SeStreamHeader header (identity_or_empty identity) enc]"
  "emit_incoming_packet nc dec man kind sid identity (StreamChunkValue chunk) enc =
     [SeStreamChunk chunk (identity_or_empty identity) enc]"
  "emit_incoming_packet nc dec man kind sid identity (StreamTrailerValue trailer) enc =
     [SeStreamTrailer trailer (identity_or_empty identity)]"
  by (subst emit_incoming_packet.simps, simp)+

lemma arriving_append: "arriving nc dec man info (ps @ qs) = arriving nc dec man info ps @ arriving nc dec man info qs"
  by (simp add: arriving_def)

lemma map_filter_append': "List.map_filter f (xs @ ys) = List.map_filter f xs @ List.map_filter f ys"
  by (simp add: List.map_filter_def)

lemma no_rpc_in_stream:
  "List.map_filter room_rpc_response (arriving nc dec man info (stream_packets header dests bss)) = []"
proof -
  have "List.map_filter room_rpc_response (arriving nc dec man info (chunk_packets sid index bss)) = []" for sid index
    by (induction bss arbitrary: index) (simp_all add: create_chunk_packet_def List.map_filter_simps)
  then show ?thesis
    by (simp add: stream_packets_def arriving_append map_filter_append' create_header_packet_def create_trailer_packet_def
        List.map_filter_simps)
qed

definition v2_invocation :: "participant_info \<Rightarrow> string \<Rightarrow> perform_rpc_data \<Rightarrow> rpc_invocation" where
  "v2_invocation caller rid data =
     \<lparr>iv_request_id = rid, iv_caller_identity = pi_identity caller, iv_payload = pr_payload data,
      iv_response_timeout = effective_timeout data\<rparr>"

text \<open>The start of a version 2 call.\<close>

lemma perform_rpc_v2:
  assumes "server_version (rv_server_info ev) = None" "rv_protocol ev (pr_destination_identity data) \<ge> 1" "accepting tr"
    and "call = send_text (rv_stream ev) (rv_uuid ev) (rv_runtime ev) (pr_payload data)
      (v2_request_options (pr_destination_identity data) (rv_id ev) (pr_method data) (effective_timeout data)) tr"
  shows "perform_rpc ev data cl tr = Some (Inr (), register_call (rv_id ev) cl, snd call)"
  using assms(1,2) send_text_accepting [OF assms(3) refl refl, of "rv_stream ev" "rv_uuid ev" "rv_runtime ev" "pr_payload data"
      "v2_request_options (pr_destination_identity data) (rv_id ev) (pr_method data) (effective_timeout data)"]
  by (auto simp: assms(4) perform_rpc_def Let_def CLIENT_PROTOCOL_DATA_STREAM_RPC_def send_v2_request_def)

text \<open>The request stream as the callee sees it.\<close>

lemma request_stream_arrives:
  assumes "accepting tr" "utf8_valid (pr_payload data)" "length (pr_payload data) < 2 ^ 64"
    and "call = send_text env uuid runtime (pr_payload data)
      (v2_request_options (pr_destination_identity data) rid (pr_method data) timeout) tr"
    and "receives env' topics pre uuid (packet_events identity enc (newly_sent tr (snd call))) evs"
    and "c = received env' topics pre evs"
  shows "route_stream (sx_info c) = RpcRequestStream [ATTR_REQUEST_ID \<mapsto> rid, ATTR_METHOD \<mapsto> pr_method data,
      ATTR_RESPONSE_TIMEOUT_MS \<mapsto> decimal timeout, ATTR_VERSION \<mapsto> decimal RPC_VERSION_V2]"
    "text_read_all c = Some (Inr (pr_payload data))" "sx_identity c = identity"
  using text_stream_arrives [OF assms(1) assms(4) assms(3) assms(2) _ assms(5,6) refl]
  by (simp_all add: v2_request_options_def text_options_default_def unwrap_or_def text_info_from_headers_def
      text_stream_header_def)

lemma response_stream_arrives:
  assumes "accepting tr" "utf8_valid b" "length b < 2 ^ 64"
    and "call = send_text env uuid runtime b (v2_response_options caller rid) tr"
    and "receives env' topics pre uuid (packet_events identity enc (newly_sent tr (snd call))) evs"
    and "c = received env' topics pre evs"
  shows "route_stream (sx_info c) = RpcResponseStream [ATTR_REQUEST_ID \<mapsto> rid]" "text_read_all c = Some (Inr b)"
  using text_stream_arrives [OF assms(1) assms(4) assms(3) assms(2) _ assms(5,6) refl]
  by (simp_all add: v2_response_options_def text_options_default_def unwrap_or_def text_info_from_headers_def
      text_stream_header_def RPC_REQUEST_TOPIC_def RPC_RESPONSE_TOPIC_def)
text \<open>The answer of the callee: an acknowledgement, then a packet for an error or a stream for a result.\<close>

lemma v2_attributes:
  assumes "attrs = [ATTR_REQUEST_ID \<mapsto> rid, ATTR_METHOD \<mapsto> method, ATTR_RESPONSE_TIMEOUT_MS \<mapsto> decimal timeout,
      ATTR_VERSION \<mapsto> decimal RPC_VERSION_V2]" "timeout < 2 ^ 64"
  shows "unwrap_or (attrs ATTR_REQUEST_ID) '''' = rid" "unwrap_or (attrs ATTR_METHOD) '''' = method"
    "v2_response_timeout attrs = timeout" "v2_version attrs = RPC_VERSION_V2"
  using assms
  by (simp_all add: ATTR_REQUEST_ID_def ATTR_METHOD_def ATTR_RESPONSE_TIMEOUT_MS_def ATTR_VERSION_def unwrap_or_def
      v2_response_timeout_def v2_version_def RPC_VERSION_V2_def)

lemma server_errs_v2:
  assumes "attrs = [ATTR_REQUEST_ID \<mapsto> rid, ATTR_METHOD \<mapsto> method, ATTR_RESPONSE_TIMEOUT_MS \<mapsto> decimal timeout,
      ATTR_VERSION \<mapsto> decimal RPC_VERSION_V2]" "timeout < 2 ^ 64"
    and "invoke_handler handlers method
      \<lparr>iv_request_id = rid, iv_caller_identity = caller, iv_payload = body, iv_response_timeout = timeout\<rparr> = Inl e"
  shows "\<exists>tr'. handle_v2_request_stream texts env uuid runtime handlers attrs (Inr body) caller tr = Some tr' \<and>
    List.map_filter room_rpc_response (arriving nc dec man callee (newly_sent tr tr')) =
      [AckArrives rid, ResponseArrives rid None (Some (rpc_error_to_proto e))]"
  using assms(3)
  by (simp add: handle_v2_request_stream_def v2_attributes [OF assms(1,2)] Let_def split_beta publish_rpc_ack_def
      respond_error_def publish_rpc_response_packet_def rpc_response_packet_def newly_sent_two rpc_ack_packet_def
      List.map_filter_simps)

lemma server_answers_v2:
  assumes "attrs = [ATTR_REQUEST_ID \<mapsto> rid, ATTR_METHOD \<mapsto> method, ATTR_RESPONSE_TIMEOUT_MS \<mapsto> decimal timeout,
      ATTR_VERSION \<mapsto> decimal RPC_VERSION_V2]" "timeout < 2 ^ 64"
    and "invoke_handler handlers method
      \<lparr>iv_request_id = rid, iv_caller_identity = caller, iv_payload = body, iv_response_timeout = timeout\<rparr> = Inr b"
    and "accepting tr" and tr1: "tr1 = snd (send_packet (rpc_ack_packet caller rid) tr)"
    and call: "call = send_text env uuid runtime b (v2_response_options caller rid) tr1"
  shows "handle_v2_request_stream texts env uuid runtime handlers attrs (Inr body) caller tr = Some (snd call)"
    "accepting tr1" "packet_events identity enc (newly_sent tr (snd call)) = packet_events identity enc (newly_sent tr1 (snd call))"
    "List.map_filter room_rpc_response (arriving nc dec man callee (newly_sent tr (snd call))) = [AckArrives rid]"
proof -
  define ps where "ps = stream_packets (text_stream_header env uuid (v2_response_options caller rid) (Some (word_of_nat (length b))))
    (to_destination_identities (v2_response_options caller rid)) (the (utf8_aware_chunks CHUNK_SIZE b))"
  show acc: "accepting tr1" using assms(4) by (simp add: tr1 accepting_def send_packet_def)
  obtain info tr' where sent: "call = (Inr info, tr')" "tr_requests tr' = tr_requests tr1 @ map (\<lambda>p. (p, SendAccepted)) ps"
    using send_text_accepting [OF acc refl ps_def, of runtime] call by auto
  have sent': "newly_sent tr (snd call) = rpc_ack_packet caller rid # ps" "newly_sent tr1 (snd call) = ps"
    by (simp_all add: newly_sent_def sent tr1 send_packet_def comp_def)
  show "handle_v2_request_stream texts env uuid runtime handlers attrs (Inr body) caller tr = Some (snd call)"
    using assms(3) call [symmetric, unfolded tr1] sent(1)
    by (simp add: handle_v2_request_stream_def v2_attributes [OF assms(1,2)] Let_def split_beta publish_rpc_ack_def)
  show "packet_events identity enc (newly_sent tr (snd call)) = packet_events identity enc (newly_sent tr1 (snd call))"
    by (simp add: sent' packet_events_simps rpc_ack_packet_def)
  show "List.map_filter room_rpc_response (arriving nc dec man callee (newly_sent tr (snd call))) = [AckArrives rid]"
    by (simp add: sent' rpc_ack_packet_def List.map_filter_simps ps_def no_rpc_in_stream)
qed

lemma settle_error:
  assumes "call_view rid (fst s) = (True, True, Some \<lparr>ca_phase = AwaitAck, ca_acked = False, ca_response = None\<rparr>)"
    and "filter (concerns rid) es =
      [AckArrives rid, ResponseArrives rid None (Some e), CallPolled rid, CallPolled rid]"
  shows "\<exists>call. cl_calls (fst (actor_run rpc_client_step s es)) rid = Some call \<and>
    ca_phase call = Finished (Inl (rpc_error_from_proto e))"
  by (rule settle_call [OF assms(1) _ _ assms(2)]) (simp_all add: handle_v1_response_packet_def)

lemma settle_stream:
  assumes "call_view rid (fst s) = (True, True, Some \<lparr>ca_phase = AwaitAck, ca_acked = False, ca_response = None\<rparr>)"
    and "rid \<noteq> []"
    and "filter (concerns rid) es =
      [AckArrives rid, ResponseStreamArrives texts [ATTR_REQUEST_ID \<mapsto> rid] (Inr b), CallPolled rid, CallPolled rid]"
  shows "\<exists>call. cl_calls (fst (actor_run rpc_client_step s es)) rid = Some call \<and> ca_phase call = Finished (Inr b)"
  by (rule settle_call [OF assms(1) _ _ assms(3)]) (simp_all add: handle_v2_response_stream_def unwrap_or_def assms(2))

text \<open>C26. A version 2 call from end to end. The call starts (no server version, the callee speaks the protocol with
  streams, the transport of the caller accepts everything; the payload is a text of any size) by sending a text stream. When
  its packets reach the callee in order, interleaved with whatever else the callee receives, the stream is routed to the
  server, which reads the whole payload and invokes the handler for the method with the identity of the caller, the
  identifier and the timeout of the call. If the handler fails, the packets that the callee sends are an acknowledgement and
  the error; once they reach the caller the call ends with that error. If the handler gives a text, then the callee sends it
  as a stream that the caller routes to its client and reads completely, and the call ends with exactly that text. Events of
  other calls may come at any point.\<close>

theorem rpc_v2_round_trip:
  assumes "server_version (rv_server_info ev) = None" "rv_protocol ev (pr_destination_identity data) \<ge> 1"
    and "accepting trC" "utf8_valid (pr_payload data)" "length (pr_payload data) < 2 ^ 64"
    and "effective_timeout data < 2 ^ 64" "rv_id ev \<noteq> ''''" "accepting trS"
    and start: "perform_rpc ev data cl trC = Some (started, cl', trC')"
    and "receives env' topics pre (rv_uuid ev) (packet_events (pi_identity caller) enc (newly_sent trC trC')) evs"
    and "c = received env' topics pre evs"
    and "r = invoke_handler handlers (pr_method data) (v2_invocation caller (rv_id ev) data)"
  shows "started = Inr () \<and> (\<exists>attrs body trS'.
    route_stream (sx_info c) = RpcRequestStream attrs \<and> text_read_all c = Some body \<and>
    handle_v2_request_stream texts env uuid runtime handlers attrs body (sx_identity c) trS = Some trS' \<and>
    (case r of
       Inl e \<Rightarrow>
         (\<forall>es. filter (concerns (rv_id ev)) es =
              List.map_filter room_rpc_response (arriving nc dec man callee (newly_sent trS trS')) @
              [CallPolled (rv_id ev), CallPolled (rv_id ev)] \<longrightarrow>
            (\<exists>call. cl_calls (fst (actor_run rpc_client_step (cl', trC') es)) (rv_id ev) = Some call \<and>
               ca_phase call = Finished (Inl (rpc_error_from_proto (rpc_error_to_proto e)))))
     | Inr b \<Rightarrow>
         utf8_valid b \<longrightarrow> length b < 2 ^ 64 \<longrightarrow>
         (\<forall>evs'. receives env'' topics' pre' uuid (packet_events (pi_identity callee) enc' (newly_sent trS trS')) evs' \<longrightarrow>
            (\<exists>attrs' body'. route_stream (sx_info (received env'' topics' pre' evs')) = RpcResponseStream attrs' \<and>
               text_read_all (received env'' topics' pre' evs') = Some body' \<and>
               (\<forall>es. filter (concerns (rv_id ev)) es =
                    List.map_filter room_rpc_response (arriving nc dec man callee (newly_sent trS trS')) @
                    [ResponseStreamArrives texts' attrs' body', CallPolled (rv_id ev), CallPolled (rv_id ev)] \<longrightarrow>
                  (\<exists>call. cl_calls (fst (actor_run rpc_client_step (cl', trC') es)) (rv_id ev) = Some call \<and>
                     ca_phase call = Finished (Inr b)))))))"
proof -
  define attrs where "attrs = [ATTR_REQUEST_ID \<mapsto> rv_id ev, ATTR_METHOD \<mapsto> pr_method data,
    ATTR_RESPONSE_TIMEOUT_MS \<mapsto> decimal (effective_timeout data), ATTR_VERSION \<mapsto> decimal RPC_VERSION_V2]"
  note begun = perform_rpc_v2 [OF assms(1-3) refl, of cl, unfolded start]
  have started: "started = Inr ()" "cl' = register_call (rv_id ev) cl"
      "trC' = snd (send_text (rv_stream ev) (rv_uuid ev) (rv_runtime ev) (pr_payload data)
        (v2_request_options (pr_destination_identity data) (rv_id ev) (pr_method data) (effective_timeout data)) trC)"
    using begun by simp_all
  note request = request_stream_arrives [OF assms(3-5) refl assms(10) [unfolded started(3)] assms(11), folded attrs_def]
  have view: "call_view (rv_id ev) (fst (cl', trC')) = (True, True, Some \<lparr>ca_phase = AwaitAck, ca_acked = False, ca_response = None\<rparr>)"
    by (simp add: started call_view_def client_defs)
  show ?thesis
  proof (cases r)
    case (Inl e)
    obtain trS' where trS': "handle_v2_request_stream texts env uuid runtime handlers attrs (Inr (pr_payload data)) (pi_identity caller) trS = Some trS'"
        "List.map_filter room_rpc_response (arriving nc dec man callee (newly_sent trS trS')) =
           [AckArrives (rv_id ev), ResponseArrives (rv_id ev) None (Some (rpc_error_to_proto e))]"
      using server_errs_v2 [OF attrs_def assms(6) assms(12) [unfolded Inl v2_invocation_def, symmetric],
        of texts env uuid runtime trS nc dec man callee] by blast
    with settle_error [OF view] started(1) request Inl show ?thesis by auto
  next
    case (Inr b)
    define tr1 where "tr1 = snd (send_packet (rpc_ack_packet (pi_identity caller) (rv_id ev)) trS)"
    define answer where "answer = send_text env uuid runtime b (v2_response_options (pi_identity caller) (rv_id ev)) tr1"
    note server = server_answers_v2 [OF attrs_def assms(6) assms(12) [unfolded Inr v2_invocation_def, symmetric] assms(8)
      tr1_def answer_def]
    have reply: "route_stream (sx_info (received env'' topics' pre' evs')) = RpcResponseStream [ATTR_REQUEST_ID \<mapsto> rv_id ev]"
        "text_read_all (received env'' topics' pre' evs') = Some (Inr b)"
      if "utf8_valid b" "length b < 2 ^ 64"
        "receives env'' topics' pre' uuid (packet_events (pi_identity callee) enc' (newly_sent trS (snd answer))) evs'" for evs'
      using response_stream_arrives [OF server(2) that(1,2) answer_def that(3) [unfolded server(3)] refl] by auto
    moreover note settle_stream [OF view assms(7)] server(1) [of texts] server(4) [of nc dec man callee]
    ultimately show ?thesis using started(1) request reply Inr by auto
  qed
qed

section \<open>The version of the server\<close>

text \<open>C35. The check of the server version is inverted. \<open>server_version\<close> keeps the version exactly when it is empty, so a
  server with a version is never checked, whatever its version: the call goes as if the server had told none, and the error
  for an unsupported server never arises. A server that reports an empty version makes the call panic, since the empty string
  is no version.\<close>

theorem version_check_inverted:
  assumes "rv_supported ev '''' = None"
  shows "perform_rpc ev data cl tr =
    (if rv_server_info ev = Some '''' then None else perform_rpc (ev\<lparr>rv_server_info := None\<rparr>) data cl tr)"
  by (cases "rv_server_info ev") (auto simp: perform_rpc_def server_version_def assms Let_def split_beta split: sum.split)

section \<open>Examples\<close>

text \<open>A server of a version that the parser rejects as too old.\<close>

theorem version_check_inverted_witness:
  "\<exists>cl' tr'. perform_rpc (sample_rpc_env\<lparr>rv_server_info := Some ''1.0.0'',
       rv_supported := (\<lambda>v. if v = '''' then None else Some (v \<noteq> ''1.0.0''))\<rparr>) sample_rpc_data rpc_client_new open_transport =
     Some (Inr (), cl', tr')"
  using version_check_inverted [of "sample_rpc_env\<lparr>rv_server_info := Some ''1.0.0'',
       rv_supported := (\<lambda>v. if v = '''' then None else Some (v \<noteq> ''1.0.0''))\<rparr>" sample_rpc_data rpc_client_new open_transport]
    perform_rpc_v1 [of "sample_rpc_env\<lparr>rv_server_info := None,
       rv_supported := (\<lambda>v. if v = '''' then None else Some (v \<noteq> ''1.0.0''))\<rparr>" sample_rpc_data open_transport rpc_client_new]
  by (simp add: sample_rpc_env_def sample_rpc_data_def server_version_def MAX_V1_PAYLOAD_BYTES_def open_transport_def
      next_outcome_def)

definition echo_handlers :: rpc_server where
  "echo_handlers = register_method ''greet'' (\<lambda>iv. HandlerResult (Inr (iv_payload iv))) Map.empty"

definition alice_info :: participant_info where "alice_info = \<lparr>pi_sid = ''PA_a'', pi_identity = ''alice''\<rparr>"
definition bob_info :: participant_info where "bob_info = \<lparr>pi_sid = ''PA_b'', pi_identity = ''bob''\<rparr>"

theorem rpc_v1_round_trip_witness:
  "\<exists>cl' trC' options trS'.
     perform_rpc sample_rpc_env sample_rpc_data rpc_client_new open_transport = Some (Inr (), cl', trC') \<and>
     List.map_filter room_rpc_request (arriving mask_cryptor sample_unpayload None alice_info
       (newly_sent open_transport trC')) = [options] \<and>
     handle_v1_request echo_handlers options open_transport = Some trS' \<and>
     (\<exists>c. cl_calls (fst (actor_run rpc_client_step (cl', trC')
         (AckArrives ''other'' # List.map_filter room_rpc_response (arriving mask_cryptor sample_unpayload None bob_info
            (newly_sent open_transport trS')) @ [CallPolled ''call'', CallPolled ''call'']))) ''call'' = Some c \<and>
        ca_phase c = Finished (Inr [1, 2]))"
proof -
  have hyps: "server_version (rv_server_info sample_rpc_env) = None"
      "rv_protocol sample_rpc_env (pr_destination_identity sample_rpc_data) < 1"
      "length (pr_payload sample_rpc_data) \<le> MAX_V1_PAYLOAD_BYTES" "next_outcome open_transport = SendAccepted"
    by (simp_all add: sample_rpc_env_def sample_rpc_data_def server_version_def MAX_V1_PAYLOAD_BYTES_def
        open_transport_def next_outcome_def)
  have rid: "rv_id sample_rpc_env = ''call''" by (simp add: sample_rpc_env_def)
  have result: "v1_result (invoke_handler echo_handlers (pr_method sample_rpc_data)
      (v1_invocation alice_info ''call'' sample_rpc_data)) = Inr [1, 2]"
    by (simp add: v1_result_def invoke_handler_def echo_handlers_def register_method_def sample_rpc_data_def
        v1_invocation_def MAX_V1_PAYLOAD_BYTES_def)
  obtain cl' trC' options trS' where *: "perform_rpc sample_rpc_env sample_rpc_data rpc_client_new open_transport = Some (Inr (), cl', trC')"
      "List.map_filter room_rpc_request (arriving mask_cryptor sample_unpayload None alice_info
         (newly_sent open_transport trC')) = [options]"
      "handle_v1_request echo_handlers options open_transport = Some trS'"
      "\<And>es. filter (concerns ''call'') es =
          List.map_filter room_rpc_response (arriving mask_cryptor sample_unpayload None bob_info
            (newly_sent open_transport trS')) @ [CallPolled ''call'', CallPolled ''call''] \<Longrightarrow>
        \<exists>c. cl_calls (fst (actor_run rpc_client_step (cl', trC') es)) ''call'' = Some c \<and> ca_phase c = Finished (Inr [1, 2])"
    using rpc_v1_round_trip [OF hyps, where cl = rpc_client_new and nc = mask_cryptor and dec = sample_unpayload
        and man = None and caller = alice_info and handlers = echo_handlers and trS = open_transport and nc' = mask_cryptor
        and dec' = sample_unpayload and man' = None and callee = bob_info] unfolding rid result by blast
  have options: "ho_request_id options = ''call'' \<and> ho_version options = RPC_VERSION_V1"
    using *(1,2) by (auto simp: sample_call_starts v1_request_packet_def List.map_filter_simps)
  with server_answers_v1 [of options _ echo_handlers open_transport mask_cryptor sample_unpayload None bob_info] *(3)
  have "filter (concerns ''call'') (List.map_filter room_rpc_response (arriving mask_cryptor sample_unpayload None bob_info
      (newly_sent open_transport trS'))) = List.map_filter room_rpc_response (arriving mask_cryptor sample_unpayload None bob_info
      (newly_sent open_transport trS'))"
    by (auto simp: v1_response_event_def split: sum.splits)
  then have "filter (concerns ''call'') (AckArrives ''other'' # List.map_filter room_rpc_response (arriving mask_cryptor
      sample_unpayload None bob_info (newly_sent open_transport trS')) @ [CallPolled ''call'', CallPolled ''call'']) =
      List.map_filter room_rpc_response (arriving mask_cryptor sample_unpayload None bob_info
        (newly_sent open_transport trS')) @ [CallPolled ''call'', CallPolled ''call'']" by simp
  from *(1-3) *(4) [OF this] show ?thesis by blast
qed

definition sample_v2_env :: rpc_env where
  "sample_v2_env = sample_rpc_env\<lparr>rv_protocol := (\<lambda>_. 1), rv_uuid := ''s''\<rparr>"

definition sample_v2_data :: perform_rpc_data where
  "sample_v2_data = sample_rpc_data\<lparr>pr_payload := hello_wave\<rparr>"

lemma sent_stream_received:
  assumes "accepting tr" "call = send_text env ''s'' runtime text options tr" "to_id options = None"
  shows "receives env' topics [] ''s'' (packet_events identity enc (newly_sent tr (snd call)))
    (with_stray_chunk (packet_events identity enc (newly_sent tr (snd call))))"
proof -
  let ?header = "text_stream_header env ''s'' options (Some (word_of_nat (length text)))"
  have "newly_sent tr (snd call) =
      stream_packets ?header (to_destination_identities options) (the (utf8_aware_chunks CHUNK_SIZE text))"
    using send_text_accepting [OF assms(1) refl refl, of env "''s''" runtime "text" options]
    by (auto simp: assms(2) newly_sent_def comp_def)
  moreover have "sh_stream_id ?header = ''s''" using assms(3) by (simp add: text_stream_header_def unwrap_or_def)
  ultimately show ?thesis using receives_with_stray_chunk by simp
qed

theorem rpc_v2_round_trip_witness:
  "\<exists>cl' trC' trS' attrs body attrs' body' c.
     perform_rpc sample_v2_env sample_v2_data rpc_client_new open_transport = Some (Inr (), cl', trC') \<and>
     route_stream (sx_info (received sample_env [] [] (with_stray_chunk (packet_events ''alice'' TypeNone
       (newly_sent open_transport trC'))))) = RpcRequestStream attrs \<and>
     handle_v2_request_stream \<lparr>et_stream = \<lambda>_. [], et_room = []\<rparr> sample_env ''s'' True echo_handlers attrs body ''alice''
       open_transport = Some trS' \<and>
     route_stream (sx_info (received sample_env [] [] (with_stray_chunk (packet_events ''bob'' TypeNone
       (newly_sent open_transport trS'))))) = RpcResponseStream attrs' \<and>
     cl_calls (fst (actor_run rpc_client_step (cl', trC')
       (List.map_filter room_rpc_response (arriving mask_cryptor sample_unpayload None bob_info (newly_sent open_transport trS')) @
        [ResponseStreamArrives \<lparr>et_stream = \<lambda>_. [], et_room = []\<rparr> attrs' body', CallPolled ''call'', CallPolled ''call''])))
       ''call'' = Some c \<and> ca_phase c = Finished (Inr hello_wave)"
proof -
  define call where "call = send_text (rv_stream sample_v2_env) ''s'' (rv_runtime sample_v2_env) hello_wave
    (v2_request_options ''bob'' ''call'' ''greet'' (effective_timeout sample_v2_data)) open_transport"
  have sample: "server_version (rv_server_info sample_v2_env) = None" "rv_protocol sample_v2_env (pr_destination_identity sample_v2_data) \<ge> 1"
      "pr_payload sample_v2_data = hello_wave" "effective_timeout sample_v2_data < 2 ^ 64" "rv_id sample_v2_env = ''call''"
      "rv_uuid sample_v2_env = ''s''" "pr_destination_identity sample_v2_data = ''bob''" "pr_method sample_v2_data = ''greet''"
      "length hello_wave < 2 ^ 64"
    by (simp_all add: sample_v2_env_def sample_v2_data_def sample_rpc_env_def sample_rpc_data_def server_version_def
        effective_timeout_def hello_wave_def)
  have start: "perform_rpc sample_v2_env sample_v2_data rpc_client_new open_transport =
      Some (Inr (), register_call ''call'' rpc_client_new, snd call)"
    using perform_rpc_v2 [OF sample(1,2) accepting_open_transport refl] by (simp add: sample call_def)
  have evs: "receives sample_env [] [] ''s'' (packet_events ''alice'' TypeNone (newly_sent open_transport (snd call)))
      (with_stray_chunk (packet_events ''alice'' TypeNone (newly_sent open_transport (snd call))))"
    by (rule sent_stream_received [OF accepting_open_transport call_def])
      (simp add: v2_request_options_def text_options_default_def)
  have result: "invoke_handler echo_handlers ''greet'' (v2_invocation alice_info ''call'' sample_v2_data) = Inr hello_wave"
    by (simp add: invoke_handler_def echo_handlers_def register_method_def v2_invocation_def sample)
  have alice: "pi_identity alice_info = ''alice''" "pi_identity bob_info = ''bob''" by (simp_all add: alice_info_def bob_info_def)
  let ?rx = "received sample_env [] [] (with_stray_chunk (packet_events ''alice'' TypeNone (newly_sent open_transport (snd call))))"
  let ?texts = "\<lparr>et_stream = \<lambda>_. [], et_room = []\<rparr> :: error_texts"
  define tr1 where "tr1 = snd (send_packet (rpc_ack_packet ''alice'' ''call'') open_transport)"
  define answer where "answer = send_text sample_env ''s'' True hello_wave (v2_response_options ''alice'' ''call'') tr1"
  note request = request_stream_arrives [OF accepting_open_transport hello_wave_valid [folded sample(3)] sample(9) [folded sample(3)]
    call_def [folded sample(3,7,8)] evs refl]
  note server = server_answers_v2 [OF refl sample(4) result [unfolded v2_invocation_def alice] accepting_open_transport
    tr1_def answer_def]
  have evs': "receives sample_env [] [] ''s'' (packet_events ''bob'' TypeNone (newly_sent open_transport (snd answer)))
      (with_stray_chunk (packet_events ''bob'' TypeNone (newly_sent open_transport (snd answer))))"
    unfolding server(3)
    by (rule sent_stream_received [OF server(2) answer_def]) (simp add: v2_response_options_def text_options_default_def)
  have small: "length hello_wave < 18446744073709551616" using sample(9) by simp
  note trip = rpc_v2_round_trip [OF sample(1,2) accepting_open_transport hello_wave_valid [folded sample(3)] sample(9) [folded sample(3)] sample(4)
       _ accepting_open_transport start evs [folded alice sample(6)] refl refl, where handlers = echo_handlers and texts = ?texts and
      env = sample_env and uuid = "''s''" and runtime = True and callee = bob_info and nc = mask_cryptor and dec = sample_unpayload
      and man = None and texts' = ?texts and env'' = sample_env and topics' = "[]" and pre' = "[]" and enc' = TypeNone,
      unfolded sample result sum.case alice, simplified request [unfolded sample] hello_wave_valid, simplified, simplified server(1) [unfolded sample] small server(4), simplified, rule_format, OF evs']
  let ?es = "[AckArrives ''call'', ResponseStreamArrives ?texts [ATTR_REQUEST_ID \<mapsto> ''call''] (Inr hello_wave), CallPolled ''call'',
    CallPolled ''call'']"
  note reply = response_stream_arrives [OF server(2) hello_wave_valid sample(9) answer_def evs' [unfolded server(3)] refl, folded server(3)]
  have "filter (concerns ''call'') ?es = ?es" by (simp add: unwrap_or_def)
  then obtain c where "cl_calls (fst (actor_run rpc_client_step (register_call ''call'' rpc_client_new, snd call) ?es)) ''call'' = Some c"
      "ca_phase c = Finished (Inr hello_wave)"
    using trip [simplified reply, simplified, simplified server(4), rule_format, of ?es] by (auto simp del: actor_run.simps)
  then have settled: "cl_calls (fst (actor_run rpc_client_step (register_call ''call'' rpc_client_new, snd call)
       (List.map_filter room_rpc_response (arriving mask_cryptor sample_unpayload None bob_info (newly_sent open_transport (snd answer))) @
        [ResponseStreamArrives ?texts [ATTR_REQUEST_ID \<mapsto> ''call''] (Inr hello_wave), CallPolled ''call'', CallPolled ''call'']))) ''call'' = Some c"
      "ca_phase c = Finished (Inr hello_wave)"
    by (simp_all only: server(4) append.simps)
  show ?thesis
    by (rule exI [of _ "register_call ''call'' rpc_client_new"], rule exI [of _ "snd call"], rule exI [of _ "snd answer"],
        rule exI, rule exI, rule exI [of _ "[ATTR_REQUEST_ID \<mapsto> ''call'']"], rule exI [of _ "Inr hello_wave"], rule exI [of _ c],
        intro conjI, rule start, rule request(1) [unfolded sample], rule server(1) [of ?texts], rule reply(1), rule settled(1), rule settled(2))
qed

end
