(* ===== verification/Dc_Sender.thy ===== *)
theory Dc_Sender
  imports Prelude "HOL-Library.Sublist"
begin

text \<open>
  \<^verbatim>\<open>livekit/src/rtc_engine/dc_sender.rs\<close>: the task that sends the frames of data tracks over their data
  channel. Producers put whole frames (the list of the frame's packets) into a bounded queue that drops the
  oldest frame; the task takes a frame when the channel's buffer is low and hands its packets to the channel
  one by one, pausing while more than the threshold is buffered.

  The data channel is not part of the sources: the packets handed to it are recorded in the order of the
  calls (the code ignores the result of a call), and its reports of bytes sent are events. Waiting on an
  empty queue, and the wake-up of the waiter, is the step that takes a frame not being enabled. The number of
  buffered bytes is kept at its width of 64 bits, and is taken not to reach its end.
\<close>

type_synonym dt_frame_packets = "bytes list"

section \<open>The send queue\<close>

record send_queue =
  sq_queue :: "dt_frame_packets list"
  sq_capacity :: nat

definition send_queue_new :: "nat \<Rightarrow> send_queue" where
  "send_queue_new capacity = \<lparr>sq_queue = [], sq_capacity = capacity\<rparr>"

definition send_queue_send :: "dt_frame_packets \<Rightarrow> send_queue \<Rightarrow> send_queue \<times> dt_frame_packets option" where
  "send_queue_send packets q =
     (if packets = [] then (q, None)
      else if length (sq_queue q) \<ge> sq_capacity q
      then (case sq_queue q of
              [] \<Rightarrow> (q\<lparr>sq_queue := [packets]\<rparr>, None)
            | old # rest \<Rightarrow> (q\<lparr>sq_queue := rest @ [packets]\<rparr>, Some old))
      else (q\<lparr>sq_queue := sq_queue q @ [packets]\<rparr>, None))"

definition try_pop :: "send_queue \<Rightarrow> send_queue \<times> dt_frame_packets option" where
  "try_pop q = (case sq_queue q of [] \<Rightarrow> (q, None) | f # fs \<Rightarrow> (q\<lparr>sq_queue := fs\<rparr>, Some f))"

definition send_queue_drain :: "send_queue \<Rightarrow> send_queue \<times> dt_frame_packets list" where
  "send_queue_drain q = (q\<lparr>sq_queue := []\<rparr>, sq_queue q)"

section \<open>The sender task\<close>

record dc_sender =
  ds_queue :: send_queue
  ds_in_flight :: "bytes list"
  ds_low_buffer_threshold :: u64
  ds_buffered_amount :: u64
  ds_running :: bool
  ds_calls :: "bytes list"

definition QUEUE_CAPACITY :: nat where
  "QUEUE_CAPACITY = 1"

definition dc_sender_new :: "u64 \<Rightarrow> dc_sender" where
  "dc_sender_new low_buffer_threshold =
     \<lparr>ds_queue = send_queue_new QUEUE_CAPACITY, ds_in_flight = [],
      ds_low_buffer_threshold = low_buffer_threshold, ds_buffered_amount = 0, ds_running = True,
      ds_calls = []\<rparr>"

definition dispatch :: "bytes \<Rightarrow> dc_sender \<Rightarrow> dc_sender" where
  "dispatch payload s =
     s\<lparr>ds_buffered_amount := ds_buffered_amount s + word_of_nat (length payload),
       ds_calls := ds_calls s @ [payload]\<rparr>"

function drain_in_flight :: "dc_sender \<Rightarrow> dc_sender" where
  "drain_in_flight s =
     (if ds_buffered_amount s \<le> ds_low_buffer_threshold s
      then (case ds_in_flight s of
              [] \<Rightarrow> s
            | packet # rest \<Rightarrow> drain_in_flight (dispatch packet (s\<lparr>ds_in_flight := rest\<rparr>)))
      else s)"
  by pat_completeness auto
termination
  by (relation "measure (\<lambda>s. length (ds_in_flight s))") (auto simp: dispatch_def)

declare drain_in_flight.simps [simp del]

definition handle_bytes_sent :: "u64 \<Rightarrow> dc_sender \<Rightarrow> dc_sender" where
  "handle_bytes_sent bytes_sent s =
     (if ds_buffered_amount s < bytes_sent then s\<lparr>ds_buffered_amount := 0\<rparr>
      else s\<lparr>ds_buffered_amount := ds_buffered_amount s - bytes_sent\<rparr>)"

text \<open>The events: a producer sends a frame, the channel reports bytes sent, the task takes a frame from
  the queue (the branch of \<open>select!\<close> with its guard), the task is closed.\<close>

datatype dc_sender_event = Produce dt_frame_packets | BytesSent u64 | TakeFrame | CloseSender

definition can_take :: "dc_sender \<Rightarrow> bool" where
  "can_take s \<longleftrightarrow> ds_in_flight s = [] \<and> ds_buffered_amount s \<le> ds_low_buffer_threshold s"

definition dc_sender_step :: "dc_sender \<Rightarrow> dc_sender_event \<Rightarrow> dc_sender" where
  "dc_sender_step s e =
     (case e of
        Produce packets \<Rightarrow> s\<lparr>ds_queue := fst (send_queue_send packets (ds_queue s))\<rparr>
      | BytesSent n \<Rightarrow> if ds_running s then drain_in_flight (handle_bytes_sent n s) else s
      | TakeFrame \<Rightarrow>
          if ds_running s \<and> can_take s
          then (case try_pop (ds_queue s) of
                  (_, None) \<Rightarrow> s
                | (q, Some packets) \<Rightarrow>
                    drain_in_flight (s\<lparr>ds_queue := q, ds_in_flight := ds_in_flight s @ packets\<rparr>))
          else s
      | CloseSender \<Rightarrow>
          if ds_running s
          then s\<lparr>ds_queue := fst (send_queue_drain (ds_queue s)), ds_running := False\<rparr> else s)"

abbreviation dc_sender_run :: "u64 \<Rightarrow> dc_sender_event list \<Rightarrow> dc_sender" where
  "dc_sender_run threshold es \<equiv> actor_run dc_sender_step (dc_sender_new threshold) es"

section \<open>Draining\<close>

lemma drain_unfold:
  "drain_in_flight s =
     (if ds_buffered_amount s \<le> ds_low_buffer_threshold s \<and> ds_in_flight s \<noteq> []
      then drain_in_flight (dispatch (hd (ds_in_flight s)) (s\<lparr>ds_in_flight := tl (ds_in_flight s)\<rparr>))
      else s)"
  by (subst drain_in_flight.simps) (auto split: list.splits)

lemma drain_keeps [simp]:
  "ds_queue (drain_in_flight s) = ds_queue s"
  "ds_low_buffer_threshold (drain_in_flight s) = ds_low_buffer_threshold s"
  "ds_running (drain_in_flight s) = ds_running s"
  by (induction s rule: drain_in_flight.induct; subst drain_in_flight.simps;
      auto simp: dispatch_def split: list.splits)+

lemma drain_order:
  "ds_calls (drain_in_flight s) @ ds_in_flight (drain_in_flight s) = ds_calls s @ ds_in_flight s"
  by (induction s rule: drain_in_flight.induct; subst (1 2) drain_in_flight.simps;
      auto simp: dispatch_def split: list.splits)

lemma drain_stops:
  "ds_in_flight (drain_in_flight s) \<noteq> [] \<Longrightarrow>
   ds_low_buffer_threshold s < ds_buffered_amount (drain_in_flight s)"
proof (induction s rule: drain_in_flight.induct)
  case (1 s)
  then show ?case
    by (subst drain_in_flight.simps, subst (asm) drain_in_flight.simps)
      (auto simp: dispatch_def not_le split: list.splits if_splits)
qed

lemma drain_length_le: "length (ds_in_flight (drain_in_flight s)) \<le> length (ds_in_flight s)"
proof (induction s rule: drain_in_flight.induct)
  case (1 s)
  show ?case
  proof (cases "ds_buffered_amount s \<le> ds_low_buffer_threshold s \<and> ds_in_flight s \<noteq> []")
    case True
    then obtain p rest where "ds_in_flight s = p # rest" by (auto simp: neq_Nil_conv)
    with 1 [of p rest] True show ?thesis by (subst drain_unfold) (simp add: dispatch_def)
  next
    case False
    then show ?thesis by (subst drain_unfold) auto
  qed
qed

lemma drain_progress:
  assumes "ds_buffered_amount s \<le> ds_low_buffer_threshold s" "ds_in_flight s \<noteq> []"
  shows "length (ds_in_flight (drain_in_flight s)) < length (ds_in_flight s)"
proof -
  obtain p rest where in_flight: "ds_in_flight s = p # rest" using assms(2) by (auto simp: neq_Nil_conv)
  with assms(1) have "drain_in_flight s = drain_in_flight (dispatch p (s\<lparr>ds_in_flight := rest\<rparr>))"
    by (subst drain_unfold) simp
  with drain_length_le [of "dispatch p (s\<lparr>ds_in_flight := rest\<rparr>)"] in_flight show ?thesis
    by (simp add: dispatch_def)
qed

section \<open>Frames stay whole\<close>

text \<open>The frames that were produced, and the state together with the events so far. Empty frames are
  not queued.\<close>

fun produced :: "dc_sender_event list \<Rightarrow> dt_frame_packets list" where
  "produced [] = []"
| "produced (Produce packets # es) = (if packets = [] then produced es else packets # produced es)"
| "produced (_ # es) = produced es"

lemma produced_append [simp]: "produced (xs @ ys) = produced xs @ produced ys"
  by (induction xs rule: produced.induct) auto

definition logged_step :: "dc_sender \<times> dc_sender_event list \<Rightarrow> dc_sender_event \<Rightarrow> dc_sender \<times> dc_sender_event list"
  where "logged_step = (\<lambda>(s, es) e. (dc_sender_step s e, es @ [e]))"

lemma logged_run: "actor_run logged_step (s, xs) es = (actor_run dc_sender_step s es, xs @ es)"
  by (induction es arbitrary: s xs) (auto simp: logged_step_def)

text \<open>The frames taken from the queue are some of the frames produced, in the order of production; the
  newest frame produced is the last one taken or queued; nothing waits in flight while the buffer is low.\<close>

definition newest_kept :: "dt_frame_packets list \<Rightarrow> dt_frame_packets list \<Rightarrow> bool" where
  "newest_kept fs ps \<longleftrightarrow> ps \<noteq> [] \<longrightarrow> fs \<noteq> [] \<and> last fs = last ps"

definition dc_sender_inv :: "u64 \<Rightarrow> dc_sender \<times> dc_sender_event list \<Rightarrow> bool" where
  "dc_sender_inv threshold = (\<lambda>(s, es).
     sq_capacity (ds_queue s) = 1 \<and> length (sq_queue (ds_queue s)) \<le> 1 \<and>
     ds_low_buffer_threshold s = threshold \<and>
     (ds_in_flight s \<noteq> [] \<longrightarrow> threshold < ds_buffered_amount s) \<and>
     (\<exists>fs. ds_calls s @ ds_in_flight s = concat fs \<and>
        subseq fs (produced es) \<and>
        (ds_running s \<longrightarrow> subseq (fs @ sq_queue (ds_queue s)) (produced es) \<and>
           newest_kept (fs @ sq_queue (ds_queue s)) (produced es))))"

lemma subseq_append_right: "subseq xs ys \<Longrightarrow> subseq xs (ys @ zs)"
  by (rule subseq_order.trans [of _ ys]) auto

lemma subseq_replace_last: "subseq (xs @ [y]) ys \<Longrightarrow> subseq (xs @ [z]) (ys @ [z])"
  using subseq_order.trans [of xs "xs @ [y]" ys] by (auto intro: list_emb_append_mono)

lemma queue_cases:
  assumes "length (xs :: 'a list) \<le> 1"
  obtains "xs = []" | x where "xs = [x]"
  using assms by (cases xs) auto

lemma produced_other [simp]:
  "produced [BytesSent n] = []" "produced [TakeFrame] = []" "produced [CloseSender] = []"
  by auto

lemma dc_sender_inv_other:
  "produced [e] = [] \<Longrightarrow> dc_sender_inv t (s, es @ [e]) = dc_sender_inv t (s, es)"
  by (simp add: dc_sender_inv_def)

lemma produce_inv:
  assumes "dc_sender_inv t (s, es)"
  shows "dc_sender_inv t (dc_sender_step s (Produce packets), es @ [Produce packets])"
proof (cases "packets = []")
  case True
  then have "dc_sender_step s (Produce packets) = s" by (simp add: dc_sender_step_def send_queue_send_def)
  with True assms show ?thesis by (simp add: dc_sender_inv_other)
next
  case False
  from assms obtain fs where fs: "ds_calls s @ ds_in_flight s = concat fs" "subseq fs (produced es)"
      "ds_running s \<Longrightarrow> subseq (fs @ sq_queue (ds_queue s)) (produced es)"
    by (auto simp: dc_sender_inv_def)
  have new: "sq_queue (fst (send_queue_send packets (ds_queue s))) = [packets]"
      "sq_capacity (fst (send_queue_send packets (ds_queue s))) = 1"
    using assms False by (cases "sq_queue (ds_queue s)"; simp add: dc_sender_inv_def send_queue_send_def)+
  from fs(2) have "subseq (fs @ [packets]) (produced es @ [packets])" by (rule list_emb_append_mono) simp
  with assms False fs new show ?thesis
    by (auto simp: dc_sender_inv_def dc_sender_step_def newest_kept_def subseq_append_right)
qed

lemma drain_inv:
  assumes "dc_sender_inv t (s, es)" "ds_running s"
    and "s' = drain_in_flight (s\<lparr>ds_buffered_amount := b\<rparr>)"
  shows "dc_sender_inv t (s', es)"
  using assms drain_order [of "s\<lparr>ds_buffered_amount := b\<rparr>"] drain_stops [of "s\<lparr>ds_buffered_amount := b\<rparr>"]
  by (simp add: dc_sender_inv_def)

lemma take_inv:
  assumes inv: "dc_sender_inv t (s, es)" and running: "ds_running s" and "can_take s"
    and queue: "sq_queue (ds_queue s) = [f]"
  shows "dc_sender_inv t
     (drain_in_flight (s\<lparr>ds_queue := (ds_queue s)\<lparr>sq_queue := []\<rparr>, ds_in_flight := f\<rparr>), es)" (is "dc_sender_inv t (?s', es)")
proof -
  let ?s = "s\<lparr>ds_queue := (ds_queue s)\<lparr>sq_queue := []\<rparr>, ds_in_flight := f\<rparr>"
  from inv running queue \<open>can_take s\<close> obtain fs where
    fs: "ds_calls s = concat fs" "subseq (fs @ [f]) (produced es)" "newest_kept (fs @ [f]) (produced es)"
    by (auto simp: dc_sender_inv_def can_take_def)
  then have "ds_calls ?s' @ ds_in_flight ?s' = concat (fs @ [f])" using drain_order [of ?s] by simp
  with fs(2,3) inv running queue drain_stops [of ?s] show ?thesis
    unfolding dc_sender_inv_def prod.case by (intro conjI exI [of _ "fs @ [f]"]) auto
qed

lemma dc_sender_step_inv:
  assumes inv: "dc_sender_inv t (s, es)"
  shows "dc_sender_inv t (dc_sender_step s e, es @ [e])"
proof (cases e)
  case (Produce packets)
  with produce_inv [OF inv] show ?thesis by simp
next
  case (BytesSent n)
  have "\<exists>b. handle_bytes_sent n s = s\<lparr>ds_buffered_amount := b\<rparr>"
    unfolding handle_bytes_sent_def by auto
  with BytesSent inv drain_inv [OF inv] show ?thesis
    by (auto simp: dc_sender_inv_other dc_sender_step_def)
next
  case TakeFrame
  from inv have "length (sq_queue (ds_queue s)) \<le> 1" by (simp add: dc_sender_inv_def)
  then show ?thesis
    by (cases rule: queue_cases)
      (use inv TakeFrame take_inv [OF inv] in
        \<open>auto simp: dc_sender_inv_other dc_sender_step_def try_pop_def can_take_def\<close>)
next
  case CloseSender
  with inv show ?thesis
    by (auto simp: dc_sender_inv_other dc_sender_step_def)
      (auto simp: dc_sender_inv_def send_queue_drain_def)
qed

interpretation dc_sender_actor: actor "(dc_sender_new t, [])" logged_step "\<lambda>_ _. True" "dc_sender_inv t" for t
  by unfold_locales
    (auto simp: logged_step_def dc_sender_step_inv, auto simp: dc_sender_inv_def dc_sender_new_def
      send_queue_new_def QUEUE_CAPACITY_def newest_kept_def intro!: exI [of _ "[]"])

lemma dc_sender_inv_run: "dc_sender_inv t (dc_sender_run t es, es)"
  using dc_sender_actor.inv_reachable [of t es] by (simp add: logged_run)

text \<open>A closed task hands nothing over any more, also not what it has in flight.\<close>

lemma closed_silent:
  "\<not> ds_running s \<Longrightarrow> ds_calls (actor_run dc_sender_step s es) = ds_calls s"
proof (induction es arbitrary: s)
  case (Cons e es)
  from Cons.prems have "\<not> ds_running (dc_sender_step s e) \<and> ds_calls (dc_sender_step s e) = ds_calls s"
    by (cases e) (simp_all add: dc_sender_step_def)
  with Cons.IH [of "dc_sender_step s e"] show ?case by simp
qed simp

text \<open>C31. For every sequence of events, the packets handed to the data channel, followed by those still
  in flight, are the packets of whole frames: frames that producers sent, in the order they sent them, so
  that packets of different frames are never interleaved and a dropped frame is dropped with all of its
  packets. At most one frame waits in the queue. While the task runs, the newest frame that was produced
  is the one queued or the last one taken, and packets wait in flight only when more than the threshold is
  buffered. Once the task is closed no further packet is handed over, so that a frame that is in flight then
  stays incomplete on the wire.\<close>

theorem frames_whole:
  "length (sq_queue (ds_queue (dc_sender_run t es))) \<le> 1 \<and>
   (ds_in_flight (dc_sender_run t es) = [] \<or> t < ds_buffered_amount (dc_sender_run t es)) \<and>
   (\<exists>fs. ds_calls (dc_sender_run t es) @ ds_in_flight (dc_sender_run t es) = concat fs \<and>
      subseq fs (produced es) \<and>
      (if ds_running (dc_sender_run t es) \<and> produced es \<noteq> []
       then last (fs @ sq_queue (ds_queue (dc_sender_run t es))) = last (produced es)
       else True)) \<and>
   (if ds_running (dc_sender_run t es) then True
    else \<forall>later. ds_calls (dc_sender_run t (es @ later)) = ds_calls (dc_sender_run t es))"
proof -
  let ?s = "dc_sender_run t es"
  from dc_sender_inv_run [of t es] obtain fs where
    fs: "ds_calls ?s @ ds_in_flight ?s = concat fs" "subseq fs (produced es)"
      "ds_running ?s \<Longrightarrow> newest_kept (fs @ sq_queue (ds_queue ?s)) (produced es)"
    by (auto simp: dc_sender_inv_def)
  then have "if ds_running ?s \<and> produced es \<noteq> []
      then last (fs @ sq_queue (ds_queue ?s)) = last (produced es) else True"
    by (simp add: newest_kept_def)
  moreover have "if ds_running ?s then True else \<forall>later. ds_calls (dc_sender_run t (es @ later)) = ds_calls ?s"
    using closed_silent [of ?s] by (simp add: actor_run_append)
  ultimately show ?thesis
    using fs dc_sender_inv_run [of t es] unfolding dc_sender_inv_def prod.case by blast
qed

section \<open>Everything is sent\<close>

text \<open>The data channel sends what it has buffered and reports it, and the task takes the next frame if it
  can: \<open>n\<close> rounds of this.\<close>

fun settle :: "nat \<Rightarrow> dc_sender \<Rightarrow> dc_sender" where
  "settle 0 s = s"
| "settle (Suc n) s =
     settle n (dc_sender_step (dc_sender_step s (BytesSent (ds_buffered_amount s))) TakeFrame)"

lemma settle_add: "settle (m + n) s = settle n (settle m s)"
  by (induction m arbitrary: s) auto

definition drained :: "dc_sender \<Rightarrow> bool" where
  "drained s \<longleftrightarrow> ds_in_flight s = [] \<and> sq_queue (ds_queue s) = []"

definition pending_packets :: "dc_sender \<Rightarrow> bytes list" where
  "pending_packets s = ds_calls s @ ds_in_flight s @ concat (sq_queue (ds_queue s))"

definition pending_work :: "dc_sender \<Rightarrow> nat" where
  "pending_work s = length (ds_in_flight s) + sum_list (map (\<lambda>f. Suc (length f)) (sq_queue (ds_queue s)))"

text \<open>A round is a report of all buffered bytes, which lets at least one packet in flight go out, and
  taking a frame.\<close>

definition reported :: "dc_sender \<Rightarrow> dc_sender" where
  "reported s = drain_in_flight (s\<lparr>ds_buffered_amount := 0\<rparr>)"

lemma report_step: "ds_running s \<Longrightarrow> dc_sender_step s (BytesSent (ds_buffered_amount s)) = reported s"
  by (simp add: dc_sender_step_def handle_bytes_sent_def reported_def)

lemma reported_empty: "ds_in_flight s = [] \<Longrightarrow> reported s = s\<lparr>ds_buffered_amount := 0\<rparr>"
  unfolding reported_def by (subst drain_unfold) simp

lemma reported_work:
  "ds_running (reported s) = ds_running s" "pending_packets (reported s) = pending_packets s"
  "pending_work (reported s) \<le> pending_work s"
  "ds_in_flight s \<noteq> [] \<Longrightarrow> pending_work (reported s) < pending_work s"
  using drain_order [of "s\<lparr>ds_buffered_amount := 0\<rparr>"] drain_length_le [of "s\<lparr>ds_buffered_amount := 0\<rparr>"]
    drain_progress [of "s\<lparr>ds_buffered_amount := 0\<rparr>"]
  by (simp_all add: reported_def pending_packets_def pending_work_def flip: append_assoc)

lemma take_work:
  assumes "ds_running s"
  shows "ds_running (dc_sender_step s TakeFrame)"
    and "pending_packets (dc_sender_step s TakeFrame) = pending_packets s"
    and "pending_work (dc_sender_step s TakeFrame) \<le> pending_work s"
    and "can_take s \<Longrightarrow> sq_queue (ds_queue s) \<noteq> [] \<Longrightarrow>
      pending_work (dc_sender_step s TakeFrame) < pending_work s"
proof -
  have "ds_running (dc_sender_step s TakeFrame) \<and>
      pending_packets (dc_sender_step s TakeFrame) = pending_packets s \<and>
      pending_work (dc_sender_step s TakeFrame) \<le> pending_work s \<and>
      (can_take s \<and> sq_queue (ds_queue s) \<noteq> [] \<longrightarrow>
        pending_work (dc_sender_step s TakeFrame) < pending_work s)"
  proof (cases "can_take s \<and> sq_queue (ds_queue s) \<noteq> []")
    case True
    then obtain f fs where queue: "sq_queue (ds_queue s) = f # fs" by (auto simp: neq_Nil_conv)
    let ?s = "s\<lparr>ds_queue := (ds_queue s)\<lparr>sq_queue := fs\<rparr>, ds_in_flight := f\<rparr>"
    from True queue assms have "dc_sender_step s TakeFrame = drain_in_flight ?s" "ds_in_flight s = []"
      by (auto simp: dc_sender_step_def try_pop_def can_take_def)
    with queue assms drain_order [of ?s] drain_length_le [of ?s] show ?thesis
      by (simp add: pending_packets_def pending_work_def flip: append_assoc)
  next
    case False
    then have "dc_sender_step s TakeFrame = s"
      by (auto simp: dc_sender_step_def try_pop_def split: list.splits)
    with assms False show ?thesis by auto
  qed
  then show "ds_running (dc_sender_step s TakeFrame)"
    "pending_packets (dc_sender_step s TakeFrame) = pending_packets s"
    "pending_work (dc_sender_step s TakeFrame) \<le> pending_work s"
    "can_take s \<Longrightarrow> sq_queue (ds_queue s) \<noteq> [] \<Longrightarrow>
      pending_work (dc_sender_step s TakeFrame) < pending_work s"
    by auto
qed

lemma settle_round:
  assumes "ds_running s"
  defines "s' \<equiv> dc_sender_step (dc_sender_step s (BytesSent (ds_buffered_amount s))) TakeFrame"
  shows "ds_running s'" "pending_packets s' = pending_packets s"
    and "drained s \<or> pending_work s' < pending_work s" "drained s \<Longrightarrow> drained s'"
proof -
  have eq: "s' = dc_sender_step (reported s) TakeFrame" by (simp add: s'_def report_step assms(1))
  note step = take_work [of "reported s"] reported_work [of s]
  from assms(1) step show "ds_running s'" "pending_packets s' = pending_packets s" by (simp_all add: eq)
  show "drained s \<Longrightarrow> drained s'"
    using reported_empty [of s] by (simp add: eq drained_def dc_sender_step_def try_pop_def)
  show "drained s \<or> pending_work s' < pending_work s"
  proof (cases "ds_in_flight s = []")
    case True
    then have "reported s = s\<lparr>ds_buffered_amount := 0\<rparr>" by (rule reported_empty)
    with True step(4) assms(1) show ?thesis
      by (auto simp: eq drained_def can_take_def pending_work_def)
  next
    case False
    with step assms(1) show ?thesis by (simp add: eq)
  qed
qed

lemma suffix_last_concat: "gs \<noteq> [] \<Longrightarrow> suffix (last gs) (concat gs)"
  by (cases gs rule: rev_cases) (auto simp: suffix_def)

lemma settle_drained:
  "ds_running s \<Longrightarrow> pending_work s \<le> n \<Longrightarrow>
   drained (settle n s) \<and> ds_calls (settle n s) = pending_packets s"
proof (induction n arbitrary: s)
  case 0
  then show ?case by (simp add: pending_work_def drained_def pending_packets_def)
next
  case (Suc n)
  let ?s' = "dc_sender_step (dc_sender_step s (BytesSent (ds_buffered_amount s))) TakeFrame"
  note round = settle_round [OF Suc.prems(1)]
  have "pending_work ?s' \<le> n"
    using round(3,4) Suc.prems(2) by (auto simp: drained_def pending_work_def)
  with Suc.IH [OF round(1)] round(2) show ?case by simp
qed

text \<open>C30. After any sequence of events that does not close the task, rounds in which the channel sends and reports what
  it has buffered and the task takes the next frame hand over every packet that was in flight or queued, in order,
  ending with the newest frame produced. As many rounds are enough as there are packets in flight and in the queue, and
  one more for each queued frame.\<close>

theorem sender_live:
  assumes "ds_running (dc_sender_run t es)" "pending_work (dc_sender_run t es) \<le> n"
  shows "drained (settle n (dc_sender_run t es)) \<and>
    ds_calls (settle n (dc_sender_run t es)) =
      ds_calls (dc_sender_run t es) @ ds_in_flight (dc_sender_run t es) @
      concat (sq_queue (ds_queue (dc_sender_run t es))) \<and>
    (produced es = [] \<or> suffix (last (produced es)) (ds_calls (settle n (dc_sender_run t es))))"
proof -
  let ?s = "dc_sender_run t es"
  from dc_sender_inv_run [of t es] assms(1) obtain fs where
    fs: "ds_calls ?s @ ds_in_flight ?s = concat fs" "newest_kept (fs @ sq_queue (ds_queue ?s)) (produced es)"
    by (auto simp: dc_sender_inv_def)
  have all: "drained (settle n ?s)" "ds_calls (settle n ?s) = concat (fs @ sq_queue (ds_queue ?s))"
    using settle_drained [OF assms] fs(1) by (simp_all add: pending_packets_def flip: append_assoc)
  have "produced es = [] \<or> suffix (last (produced es)) (ds_calls (settle n ?s))"
    using fs(2) suffix_last_concat [of "fs @ sq_queue (ds_queue ?s)"]
    unfolding all(2) newest_kept_def by argo
  with all fs(1) show ?thesis by (simp flip: append_assoc)
qed

theorem sender_live_witness:
  "drained (settle 3 (dc_sender_run 1 [Produce [[1, 1]], TakeFrame, Produce [[2], [3]]]))"
proof -
  let ?es = "[Produce [[1, 1]], TakeFrame, Produce [[2], [3]]]"
  have "ds_running (dc_sender_run 1 ?es)" "pending_work (dc_sender_run 1 ?es) \<le> 3" by code_simp+
  from sender_live [OF this] show ?thesis by blast
qed

end
