(* ===== verification/Rtp_Packet.thy ===== *)
theory Rtp_Packet
  imports Prelude
begin

text \<open>
  RTP packets: \<^verbatim>\<open>rtc-patched/rtc-rtp/src/header.rs\<close> and \<^verbatim>\<open>packet/mod.rs\<close>, with the provided method \<open>marshal\<close> of
  \<^verbatim>\<open>rtc-patched/rtc-shared/src/marshal/mod.rs\<close>.

  \<open>None\<close> is a panic: reading past the end of the input, writing past the end of the output, or an overflow of the unsigned
  arithmetic, which the build checks.
\<close>

section \<open>Headers\<close>

definition HEADER_LENGTH :: nat where "HEADER_LENGTH = 4"
definition CSRC_OFFSET :: nat where "CSRC_OFFSET = 12"
definition CSRC_LENGTH :: nat where "CSRC_LENGTH = 4"
definition EXTENSION_PROFILE_ONE_BYTE :: u16 where "EXTENSION_PROFILE_ONE_BYTE = 0xBEDE"
definition EXTENSION_PROFILE_TWO_BYTE :: u16 where "EXTENSION_PROFILE_TWO_BYTE = 0x1000"
definition EXTENSION_ID_RESERVED :: u8 where "EXTENSION_ID_RESERVED = 0xF"

datatype rtp_error =
    ErrHeaderSizeInsufficient
  | ErrHeaderSizeInsufficientForExtension
  | ErrShortPacket
  | ErrBufferTooSmall
  | HeaderExtensionPayloadNot32BitWords
  | ErrRfc3550headerIdrange
  | ErrRfc8285oneByteHeaderIdrange
  | ErrRfc8285oneByteHeaderSize
  | ErrRfc8285twoByteHeaderIdrange
  | ErrRfc8285twoByteHeaderSize
  | ErrHeaderExtensionNotFound
  | ErrHeaderExtensionsNotEnabled
  | StapASizeLargerThanBuffer nat nat
  | NaluTypeIsNotHandled u8
  | MarshalSizeMismatch nat nat

record rtp_extension =
  xe_id :: u8
  xe_payload :: bytes

record rtp_header =
  rh_version :: u8
  rh_padding :: bool
  rh_extension :: bool
  rh_marker :: bool
  rh_payload_type :: u8
  rh_sequence_number :: u16
  rh_timestamp :: u32
  rh_ssrc :: u32
  rh_csrc :: "u32 list"
  rh_extension_profile :: u16
  rh_extensions :: "rtp_extension list"
  rh_extensions_padding :: nat

section \<open>Reading\<close>

text \<open>What is read: the error, or the value and the rest of the input.\<close>

type_synonym 'a reading = "(rtp_error + 'a \<times> bytes) option"

fun get_byte :: "bytes \<Rightarrow> (u8 \<times> bytes) option" where
  "get_byte [] = None"
| "get_byte (b # bs) = Some (b, bs)"

definition get_be16 :: "bytes \<Rightarrow> (u16 \<times> bytes) option" where
  "get_be16 bs = (if length bs < 2 then None else Some (get_u16 bs, drop 2 bs))"

definition get_be32 :: "bytes \<Rightarrow> (u32 \<times> bytes) option" where
  "get_be32 bs = (if length bs < 4 then None else Some (get_u32 bs, drop 4 bs))"

fun get_csrcs :: "nat \<Rightarrow> bytes \<Rightarrow> (u32 list \<times> bytes) option" where
  "get_csrcs 0 bs = Some ([], bs)"
| "get_csrcs (Suc n) bs = do { (c, bs) \<leftarrow> get_be32 bs; (cs, bs) \<leftarrow> get_csrcs n bs; Some (c # cs, bs) }"

text \<open>The two loops over header extensions, with the offset in the packet and the end of the extensions.\<close>

function one_byte_loop ::
    "nat \<Rightarrow> nat \<Rightarrow> rtp_extension list \<Rightarrow> nat \<Rightarrow> bytes \<Rightarrow> (rtp_extension list \<times> nat) reading" where
  "one_byte_loop curr_offset end_offset extensions extensions_padding bs =
     (if curr_offset < end_offset then
        (case get_byte bs of
           None \<Rightarrow> None
         | Some (b, bs) \<Rightarrow>
             if b = 0 then one_byte_loop (curr_offset + 1) end_offset extensions (extensions_padding + 1) bs
             else
               let extid = drop_bit 4 b; len = unat ((b AND (0xFF XOR 0xF0)) + 1)
               in if extid = EXTENSION_ID_RESERVED then Some (Inr ((extensions, extensions_padding), bs))
                  else if len > length bs then Some (Inl ErrHeaderSizeInsufficientForExtension)
                  else one_byte_loop (curr_offset + 1 + len) end_offset
                         (extensions @ [\<lparr>xe_id = extid, xe_payload = take len bs\<rparr>]) extensions_padding (drop len bs))
      else Some (Inr ((extensions, extensions_padding), bs)))"
  by pat_completeness auto
termination
  by (relation "measure (\<lambda>(_, _, _, _, bs). length bs)") (auto elim: get_byte.elims)

function two_byte_loop ::
    "nat \<Rightarrow> nat \<Rightarrow> rtp_extension list \<Rightarrow> nat \<Rightarrow> bytes \<Rightarrow> (rtp_extension list \<times> nat) reading" where
  "two_byte_loop curr_offset end_offset extensions extensions_padding bs =
     (if curr_offset < end_offset then
        (case get_byte bs of
           None \<Rightarrow> None
         | Some (b, bs) \<Rightarrow>
             if b = 0 then two_byte_loop (curr_offset + 1) end_offset extensions (extensions_padding + 1) bs
             else if curr_offset + 1 \<ge> end_offset then Some (Inl ErrHeaderSizeInsufficientForExtension)
             else
               (case get_byte bs of
                  None \<Rightarrow> None
                | Some (l, bs) \<Rightarrow>
                    if unat l > length bs then Some (Inl ErrHeaderSizeInsufficientForExtension)
                    else two_byte_loop (curr_offset + 2 + unat l) end_offset
                           (extensions @ [\<lparr>xe_id = b, xe_payload = take (unat l) bs\<rparr>]) extensions_padding
                           (drop (unat l) bs)))
      else Some (Inr ((extensions, extensions_padding), bs)))"
  by pat_completeness auto
termination
  by (relation "measure (\<lambda>(_, _, _, _, bs). length bs)") (auto elim!: get_byte.elims)

declare one_byte_loop.simps [simp del] two_byte_loop.simps [simp del]

definition unmarshal_extensions ::
    "nat \<Rightarrow> nat \<Rightarrow> bytes \<Rightarrow> (u16 \<times> rtp_extension list \<times> nat) reading" where
  "unmarshal_extensions raw_packet_len curr_offset bs =
     (if raw_packet_len < curr_offset + 4 then Some (Inl ErrHeaderSizeInsufficientForExtension)
      else do {
        (profile, bs) \<leftarrow> get_be16 bs;
        (words, bs) \<leftarrow> get_be16 bs;
        let extension_length = unat words * 4;
            curr_offset = curr_offset + 4;
            add_profile = map_sum id (\<lambda>(r, bs). ((profile, r), bs))
        in if raw_packet_len < curr_offset + extension_length then Some (Inl ErrHeaderSizeInsufficientForExtension)
           else if profile = EXTENSION_PROFILE_ONE_BYTE
           then map_option add_profile (one_byte_loop curr_offset (curr_offset + extension_length) [] 0 bs)
           else if profile = EXTENSION_PROFILE_TWO_BYTE
           then map_option add_profile (two_byte_loop curr_offset (curr_offset + extension_length) [] 0 bs)
           else if length bs < extension_length then None
           else Some (Inr ((profile, [\<lparr>xe_id = 0, xe_payload = take extension_length bs\<rparr>], 0), drop extension_length bs)) })"

definition header_unmarshal :: "bytes \<Rightarrow> rtp_header reading" where
  "header_unmarshal bs =
     (let raw_packet_len = length bs
      in if raw_packet_len < HEADER_LENGTH then Some (Inl ErrHeaderSizeInsufficient)
         else do {
           (b0, bs) \<leftarrow> get_byte bs;
           let cc = unat (b0 AND 0xF);
               curr_offset = CSRC_OFFSET + cc * CSRC_LENGTH
           in if raw_packet_len < curr_offset then Some (Inl ErrHeaderSizeInsufficient)
              else do {
                (b1, bs) \<leftarrow> get_byte bs;
                (sequence_number, bs) \<leftarrow> get_be16 bs;
                (timestamp, bs) \<leftarrow> get_be32 bs;
                (ssrc, bs) \<leftarrow> get_be32 bs;
                (csrc, bs) \<leftarrow> get_csrcs cc bs;
                let extension = drop_bit 4 b0 AND 1 > 0
                in map_option (map_sum id (\<lambda>((profile, extensions, pad), bs).
                     (\<lparr>rh_version = drop_bit 6 b0 AND 3, rh_padding = drop_bit 5 b0 AND 1 > 0, rh_extension = extension,
                       rh_marker = drop_bit 7 b1 AND 1 > 0, rh_payload_type = b1 AND 0x7F,
                       rh_sequence_number = sequence_number, rh_timestamp = timestamp, rh_ssrc = ssrc, rh_csrc = csrc,
                       rh_extension_profile = profile, rh_extensions = extensions, rh_extensions_padding = pad\<rparr>, bs)))
                     (if extension then unmarshal_extensions raw_packet_len curr_offset bs
                      else Some (Inr ((0, [], 0), bs))) } })"

section \<open>Writing\<close>

definition extension_profile_len :: "u16 \<Rightarrow> nat" where
  "extension_profile_len profile =
     (if profile = EXTENSION_PROFILE_ONE_BYTE then 1 else if profile = EXTENSION_PROFILE_TWO_BYTE then 2 else 0)"

definition get_extension_payload_len :: "rtp_header \<Rightarrow> nat" where
  "get_extension_payload_len h =
     sum_list (map (\<lambda>e. length (xe_payload e)) (rh_extensions h)) +
     length (rh_extensions h) * extension_profile_len (rh_extension_profile h)"

definition header_marshal_size :: "rtp_header \<Rightarrow> nat" where
  "header_marshal_size h =
     12 + length (rh_csrc h) * CSRC_LENGTH +
     (if rh_extension h
      then 4 + div_ceil (get_extension_payload_len h + rh_extensions_padding h) 4 * 4
      else 0)"

text \<open>Writing one extension; the length byte of a one-byte extension is one less than the length.\<close>

definition put_one_byte :: "rtp_extension \<Rightarrow> bufmut \<Rightarrow> bufmut option" where
  "put_one_byte e b =
     (let len = (word_of_nat (length (xe_payload e)) :: u8)
      in if len = 0 then None
         else do { b \<leftarrow> put_slice [push_bit 4 (xe_id e) OR (len - 1)] b; put_slice (xe_payload e) b })"

definition put_two_byte :: "rtp_extension \<Rightarrow> bufmut \<Rightarrow> bufmut option" where
  "put_two_byte e b =
     do { b \<leftarrow> put_slice [xe_id e] b;
          b \<leftarrow> put_slice [word_of_nat (length (xe_payload e))] b;
          put_slice (xe_payload e) b }"

fun put_extensions :: "(rtp_extension \<Rightarrow> bufmut \<Rightarrow> bufmut option) \<Rightarrow> rtp_extension list \<Rightarrow> bufmut \<Rightarrow> bufmut option" where
  "put_extensions put [] b = Some b"
| "put_extensions put (e # es) b = do { b \<leftarrow> put e b; put_extensions put es b }"

definition marshal_extensions :: "rtp_header \<Rightarrow> bufmut \<Rightarrow> (rtp_error + bufmut) option" where
  "marshal_extensions h b =
     do { b \<leftarrow> put_slice (put_u16 (rh_extension_profile h)) b;
          let profile = rh_extension_profile h;
              extension_payload_len = get_extension_payload_len h;
              extension_payload_size = div_ceil (extension_payload_len mod 2 ^ 16) 4;
              padding = (\<lambda>b. map_option Inr (put_slice (replicate (extension_payload_size * 4 - extension_payload_len) 0) b))
          in if profile \<noteq> EXTENSION_PROFILE_ONE_BYTE \<and> profile \<noteq> EXTENSION_PROFILE_TWO_BYTE \<and> extension_payload_len mod 4 \<noteq> 0
             then Some (Inl HeaderExtensionPayloadNot32BitWords)
             else do {
               b \<leftarrow> put_slice (put_u16 (word_of_nat extension_payload_size)) b;
               if profile = EXTENSION_PROFILE_ONE_BYTE
               then do { b \<leftarrow> put_extensions put_one_byte (rh_extensions h) b; padding b }
               else if profile = EXTENSION_PROFILE_TWO_BYTE
               then do { b \<leftarrow> put_extensions put_two_byte (rh_extensions h) b; padding b }
               else
                 (case rh_extensions h of
                    [e] \<Rightarrow>
                      if length (xe_payload e) mod 4 \<noteq> 0 then Some (Inl HeaderExtensionPayloadNot32BitWords)
                      else do { b \<leftarrow> put_slice (xe_payload e) b; padding b }
                  | _ \<Rightarrow> Some (Inl ErrRfc3550headerIdrange)) } }"

definition first_byte :: "rtp_header \<Rightarrow> u8" where
  "first_byte h =
     (let b0 = push_bit 6 (rh_version h) OR word_of_nat (length (rh_csrc h));
          b0 = (if rh_padding h then b0 OR push_bit 5 1 else b0)
      in if rh_extension h then b0 OR push_bit 4 1 else b0)"

definition second_byte :: "rtp_header \<Rightarrow> u8" where
  "second_byte h = (if rh_marker h then rh_payload_type h OR push_bit 7 1 else rh_payload_type h)"

text \<open>The number of bytes written is returned with the buffer.\<close>

definition header_marshal_to :: "rtp_header \<Rightarrow> bufmut \<Rightarrow> (rtp_error + nat \<times> bufmut) option" where
  "header_marshal_to h buf =
     (if remaining_mut buf < header_marshal_size h then Some (Inl ErrBufferTooSmall)
      else do {
        b \<leftarrow> put_slice [first_byte h] buf;
        b \<leftarrow> put_slice [second_byte h] b;
        b \<leftarrow> put_slice (put_u16 (rh_sequence_number h)) b;
        b \<leftarrow> put_slice (put_u32 (rh_timestamp h)) b;
        b \<leftarrow> put_slice (put_u32 (rh_ssrc h)) b;
        b \<leftarrow> put_slice (concat (map put_u32 (rh_csrc h))) b;
        r \<leftarrow> (if rh_extension h then marshal_extensions h b else Some (Inr b));
        Some (map_sum id (\<lambda>b. (remaining_mut buf - remaining_mut b, b)) r) })"

section \<open>Packets\<close>

record rtp_packet =
  rp_header :: rtp_header
  rp_payload :: bytes

definition packet_unmarshal :: "bytes \<Rightarrow> (rtp_error + rtp_packet) option" where
  "packet_unmarshal bs =
     (case header_unmarshal bs of
        None \<Rightarrow> None
      | Some (Inl e) \<Rightarrow> Some (Inl e)
      | Some (Inr (header, body)) \<Rightarrow>
          let payload_len = length body
          in if rh_padding header
             then
               if payload_len > 0
               then
                 let padding_len = unat (last body)
                 in if padding_len \<le> payload_len
                    then Some (Inr \<lparr>rp_header = header, rp_payload = take (payload_len - padding_len) body\<rparr>)
                    else Some (Inl ErrShortPacket)
               else Some (Inl ErrShortPacket)
             else Some (Inr \<lparr>rp_header = header, rp_payload = body\<rparr>))"

definition get_padding :: "nat \<Rightarrow> nat" where
  "get_padding len = (if len mod 4 = 0 then 0 else 4 - len mod 4)"

definition packet_padding :: "rtp_packet \<Rightarrow> nat" where
  "packet_padding p =
     (if rh_padding (rp_header p)
      then let padding_len = get_padding (length (rp_payload p)) in if padding_len = 0 then 4 else padding_len
      else 0)"

definition packet_marshal_size :: "rtp_packet \<Rightarrow> nat" where
  "packet_marshal_size p = header_marshal_size (rp_header p) + length (rp_payload p) + packet_padding p"

definition padding_bytes :: "nat \<Rightarrow> bytes" where
  "padding_bytes n = map (\<lambda>i. if i \<noteq> n - 1 then 0 else word_of_nat n) [0..<n]"

definition packet_marshal_to :: "rtp_packet \<Rightarrow> bufmut \<Rightarrow> (rtp_error + nat \<times> bufmut) option" where
  "packet_marshal_to p buf =
     (if remaining_mut buf < packet_marshal_size p then Some (Inl ErrBufferTooSmall)
      else case header_marshal_to (rp_header p) buf of
          None \<Rightarrow> None
        | Some (Inl e) \<Rightarrow> Some (Inl e)
        | Some (Inr (n, b)) \<Rightarrow> do {
            b \<leftarrow> put_slice (rp_payload p) b;
            b \<leftarrow> put_slice (padding_bytes (packet_padding p)) b;
            Some (Inr (n + length (rp_payload p) + packet_padding p, b)) })"

text \<open>The provided method \<open>marshal\<close>: a zeroed buffer of the announced size, which must be filled exactly.\<close>

definition marshal_with :: "nat \<Rightarrow> (bufmut \<Rightarrow> (rtp_error + nat \<times> bufmut) option) \<Rightarrow> (rtp_error + bytes) option" where
  "marshal_with l marshal_to =
     (case marshal_to \<lparr>written = [], remaining_mut = l\<rparr> of
        None \<Rightarrow> None
      | Some (Inl e) \<Rightarrow> Some (Inl e)
      | Some (Inr (n, b)) \<Rightarrow>
          Some (if n \<noteq> l then Inl (MarshalSizeMismatch n l) else Inr (written b @ replicate (remaining_mut b) 0)))"

definition packet_marshal :: "rtp_packet \<Rightarrow> (rtp_error + bytes) option" where
  "packet_marshal p = marshal_with (packet_marshal_size p) (packet_marshal_to p)"

section \<open>Header extensions\<close>

fun find_extension :: "u8 \<Rightarrow> rtp_extension list \<Rightarrow> rtp_extension option" where
  "find_extension i [] = None"
| "find_extension i (e # es) = (if xe_id e = i then Some e else find_extension i es)"

fun replace_extension :: "u8 \<Rightarrow> bytes \<Rightarrow> rtp_extension list \<Rightarrow> rtp_extension list" where
  "replace_extension i body [] = []"
| "replace_extension i body (e # es) =
     (if xe_id e = i then e\<lparr>xe_payload := body\<rparr> # es else e # replace_extension i body es)"

fun remove_extension :: "u8 \<Rightarrow> rtp_extension list \<Rightarrow> rtp_extension list" where
  "remove_extension i [] = []"
| "remove_extension i (e # es) = (if xe_id e = i then es else e # remove_extension i es)"

definition check_extension :: "u16 \<Rightarrow> u8 \<Rightarrow> nat \<Rightarrow> rtp_error + nat" where
  "check_extension profile i payload_len =
     (if profile = EXTENSION_PROFILE_ONE_BYTE then
        if \<not> (1 \<le> i \<and> i \<le> 14) then Inl ErrRfc8285oneByteHeaderIdrange
        else if payload_len > 16 then Inl ErrRfc8285oneByteHeaderSize
        else Inr 1
      else if profile = EXTENSION_PROFILE_TWO_BYTE then
        if i < 1 then Inl ErrRfc8285twoByteHeaderIdrange
        else if payload_len > 255 then Inl ErrRfc8285twoByteHeaderSize
        else Inr 2
      else if i \<noteq> 0 then Inl ErrRfc3550headerIdrange
      else Inr 0)"

text \<open>How the padding changes when the extensions grow or shrink by \<open>delta\<close> bytes. \<open>rem\<close> of Rust rounds towards zero; here
  both operands are not negative.\<close>

definition adjust_padding :: "nat \<Rightarrow> int \<Rightarrow> nat" where
  "adjust_padding pad delta =
     (if delta < 0 then nat ((int pad - delta) mod 4)
      else if delta > 0 then
        let extension_padding = nat (delta mod 4)
        in if pad < extension_padding then pad + 4 - extension_padding else pad - extension_padding
      else pad)"

definition set_extension :: "u8 \<Rightarrow> bytes \<Rightarrow> rtp_header \<Rightarrow> rtp_error + rtp_header" where
  "set_extension i body h =
     (let payload_len = length body
      in if rh_extension h then
           (case check_extension (rh_extension_profile h) i payload_len of
              Inl e \<Rightarrow> Inl e
            | Inr profile_len \<Rightarrow>
                (case find_extension i (rh_extensions h) of
                   Some e \<Rightarrow>
                     Inr (h\<lparr>rh_extensions := replace_extension i body (rh_extensions h),
                            rh_extensions_padding := adjust_padding (rh_extensions_padding h)
                              (int payload_len - int (length (xe_payload e)))\<rparr>)
                 | None \<Rightarrow>
                     Inr (h\<lparr>rh_extensions := rh_extensions h @ [\<lparr>xe_id = i, xe_payload = body\<rparr>],
                            rh_extensions_padding := adjust_padding (rh_extensions_padding h)
                              (int payload_len + int profile_len)\<rparr>)))
         else
           let profile = (if payload_len \<le> 16 then EXTENSION_PROFILE_ONE_BYTE
                          else if payload_len \<le> 255 then EXTENSION_PROFILE_TWO_BYTE
                          else rh_extension_profile h);
               profile_len = (if payload_len \<le> 16 then 1 else if payload_len \<le> 255 then 2 else 0);
               extension_padding = (payload_len + profile_len) mod 4
           in Inr (h\<lparr>rh_extension := True, rh_extension_profile := profile,
                     rh_extensions := rh_extensions h @ [\<lparr>xe_id = i, xe_payload = body\<rparr>],
                     rh_extensions_padding :=
                       (if rh_extensions_padding h < extension_padding
                        then rh_extensions_padding h + 4 - extension_padding
                        else rh_extensions_padding h - extension_padding)\<rparr>))"

definition get_extension_ids :: "rtp_header \<Rightarrow> u8 list" where
  "get_extension_ids h = (if rh_extension h then map xe_id (rh_extensions h) else [])"

definition get_extension :: "u8 \<Rightarrow> rtp_header \<Rightarrow> bytes option" where
  "get_extension i h = (if rh_extension h then map_option xe_payload (find_extension i (rh_extensions h)) else None)"

definition del_extension :: "u8 \<Rightarrow> rtp_header \<Rightarrow> rtp_error + rtp_header" where
  "del_extension i h =
     (if rh_extension h then
        (case find_extension i (rh_extensions h) of
           Some e \<Rightarrow>
             let extension_padding = (length (xe_payload e) + extension_profile_len (rh_extension_profile h)) mod 4
             in Inr (h\<lparr>rh_extensions := remove_extension i (rh_extensions h),
                       rh_extensions_padding := (rh_extensions_padding h + extension_padding) mod 4\<rparr>)
         | None \<Rightarrow> Inl ErrHeaderExtensionNotFound)
      else Inl ErrHeaderExtensionsNotEnabled)"

section \<open>Encoding\<close>

text \<open>What the writer requires of a header so that a reader gets it back.\<close>

definition extension_wf :: "u16 \<Rightarrow> rtp_extension \<Rightarrow> bool" where
  "extension_wf profile e \<longleftrightarrow>
     (if profile = EXTENSION_PROFILE_ONE_BYTE
      then 1 \<le> unat (xe_id e) \<and> unat (xe_id e) \<le> 14 \<and> 1 \<le> length (xe_payload e) \<and> length (xe_payload e) \<le> 16
      else if profile = EXTENSION_PROFILE_TWO_BYTE then xe_id e \<noteq> 0 \<and> length (xe_payload e) \<le> 255
      else xe_id e = 0 \<and> length (xe_payload e) mod 4 = 0)"

definition rtp_header_wf :: "rtp_header \<Rightarrow> bool" where
  "rtp_header_wf h \<longleftrightarrow>
     unat (rh_version h) < 4 \<and> unat (rh_payload_type h) < 128 \<and> length (rh_csrc h) < 16 \<and>
     (if rh_extension h
      then list_all (extension_wf (rh_extension_profile h)) (rh_extensions h) \<and>
        (extension_profile_len (rh_extension_profile h) = 0 \<longrightarrow> length (rh_extensions h) = 1) \<and>
        get_extension_payload_len h < 2 ^ 16 \<and> rh_extensions_padding h = get_padding (get_extension_payload_len h)
      else rh_extension_profile h = 0 \<and> rh_extensions h = [] \<and> rh_extensions_padding h = 0)"

fun extension_bytes :: "nat \<Rightarrow> rtp_extension \<Rightarrow> bytes" where
  "extension_bytes n e =
     (if n = 1 then [push_bit 4 (xe_id e) OR word_of_nat (length (xe_payload e) - 1)]
      else if n = 2 then [xe_id e, word_of_nat (length (xe_payload e))]
      else []) @ xe_payload e"

definition extension_block :: "rtp_header \<Rightarrow> bytes" where
  "extension_block h =
     concat (map (extension_bytes (extension_profile_len (rh_extension_profile h))) (rh_extensions h)) @
     replicate (rh_extensions_padding h) 0"

definition rtp_header_bytes :: "rtp_header \<Rightarrow> bytes" where
  "rtp_header_bytes h =
     [first_byte h, second_byte h] @ put_u16 (rh_sequence_number h) @ put_u32 (rh_timestamp h) @ put_u32 (rh_ssrc h) @
     concat (map put_u32 (rh_csrc h)) @
     (if rh_extension h
      then put_u16 (rh_extension_profile h) @ put_u16 (word_of_nat (length (extension_block h) div 4)) @ extension_block h
      else [])"

lemma extension_profile_len_cases:
  "extension_profile_len p = 1 \<and> p = EXTENSION_PROFILE_ONE_BYTE \<or>
   extension_profile_len p = 2 \<and> p = EXTENSION_PROFILE_TWO_BYTE \<or>
   extension_profile_len p = 0 \<and> p \<noteq> EXTENSION_PROFILE_ONE_BYTE \<and> p \<noteq> EXTENSION_PROFILE_TWO_BYTE"
  by (simp add: extension_profile_len_def EXTENSION_PROFILE_ONE_BYTE_def EXTENSION_PROFILE_TWO_BYTE_def)

lemma length_extension_bytes:
  "length (concat (map (extension_bytes (extension_profile_len (rh_extension_profile h))) (rh_extensions h))) =
     get_extension_payload_len h"
proof -
  have "length (concat (map (extension_bytes n) es)) =
      sum_list (map (\<lambda>e. length (xe_payload e)) es) + length es * n" if "n \<le> 2" for n es
    using that by (induction es) (auto simp: le_Suc_eq numeral_2_eq_2)
  then show ?thesis
    using extension_profile_len_cases [of "rh_extension_profile h"] by (auto simp: get_extension_payload_len_def)
qed

lemma get_padding_spec: "(n + get_padding n) mod 4 = 0" "get_padding n < 4" "div_ceil n 4 * 4 = n + get_padding n"
    "div_ceil (n + get_padding n) 4 * 4 = n + get_padding n"
proof -
  define q r where "q = n div 4" and "r = n mod 4"
  have n: "n = 4 * q + r" and "r < 4" by (simp_all add: q_def r_def)
  then have "r \<in> {0, 1, 2, 3}" by auto
  then show "(n + get_padding n) mod 4 = 0" "get_padding n < 4" "div_ceil n 4 * 4 = n + get_padding n"
    "div_ceil (n + get_padding n) 4 * 4 = n + get_padding n"
    unfolding n by (auto simp: get_padding_def div_ceil_def)
qed

lemma put_slice_Nil' [simp]: "put_slice [] b = Some b"
  by (simp add: put_slice_def)

lemma put_extensions_eq:
  assumes "\<And>e b. e \<in> set es \<Longrightarrow> put e b = put_slice (enc e) b"
  shows "put_extensions put es b = put_slice (concat (map enc es)) b"
  using assms
proof (induction es arbitrary: b)
  case (Cons e es)
  then have "put_extensions put es = put_slice (concat (map enc es))" by auto
  with Cons.prems show ?case by (simp add: put_slice_append)
qed simp

lemma put_one_byte_eq:
  assumes "extension_wf EXTENSION_PROFILE_ONE_BYTE e"
  shows "put_one_byte e b = put_slice (extension_bytes 1 e) b"
proof -
  have "1 \<le> length (xe_payload e)" "length (xe_payload e) \<le> 16" using assms by (simp_all add: extension_wf_def)
  then have len: "(word_of_nat (length (xe_payload e)) :: u8) \<noteq> 0"
      "word_of_nat (length (xe_payload e)) - (1 :: u8) = word_of_nat (length (xe_payload e) - 1)"
    by (auto simp: word_of_nat_eq_0_iff of_nat_diff dest: dvd_imp_le)
  show ?thesis
    unfolding put_one_byte_def Let_def len(2) if_not_P [OF len(1)] by (simp add: put_slice_append)
qed

lemma put_two_byte_eq: "put_two_byte e b = put_slice (extension_bytes 2 e) b"
  by (simp add: put_two_byte_def put_slice_append put_slice_bind)

lemma put_slice_Inr:
  "Option.bind (put_slice xs b) (\<lambda>b. map_option f (put_slice ys b)) = map_option f (put_slice (xs @ ys) b)"
  by (auto simp: put_slice_def)

lemma marshal_extensions_eq:
  assumes "rtp_header_wf h" "rh_extension h"
  shows "marshal_extensions h b = map_option Inr (put_slice (put_u16 (rh_extension_profile h) @
    put_u16 (word_of_nat (length (extension_block h) div 4)) @ extension_block h) b)"
proof -
  let ?n = "get_extension_payload_len h"
  have wf: "list_all (extension_wf (rh_extension_profile h)) (rh_extensions h)" "?n < 2 ^ 16"
      "rh_extensions_padding h = get_padding ?n"
      "extension_profile_len (rh_extension_profile h) = 0 \<Longrightarrow> length (rh_extensions h) = 1"
    using assms by (simp_all add: rtp_header_wf_def)
  have small: "?n mod 65536 = ?n" using wf(2) by simp
  have total: "length (extension_block h) = div_ceil ?n 4 * 4"
    by (simp add: extension_block_def length_extension_bytes wf(3) get_padding_spec(3))
  have size1: "div_ceil (?n mod 65536) 4 * 4 - ?n = rh_extensions_padding h"
    unfolding small wf(3) by (simp add: get_padding_spec(3))
  have size2: "length (extension_block h) div 4 = div_ceil (?n mod 65536) 4" unfolding small total by simp
  note eqs = marshal_extensions_def Let_def size1 extension_block_def put_slice_bind put_slice_Inr
  consider "rh_extension_profile h = EXTENSION_PROFILE_ONE_BYTE" | "rh_extension_profile h = EXTENSION_PROFILE_TWO_BYTE"
    | "extension_profile_len (rh_extension_profile h) = 0" using extension_profile_len_cases [of "rh_extension_profile h"] by argo
  then show ?thesis
  proof cases
    case 1
    have "put_extensions put_one_byte (rh_extensions h) b = put_slice (concat (map (extension_bytes 1) (rh_extensions h))) b" for b
      using wf(1) by (intro put_extensions_eq put_one_byte_eq) (simp add: 1 list_all_iff)
    then show ?thesis unfolding size2
      by (simp add: 1 eqs extension_profile_len_def del: extension_bytes.simps)
  next
    case 2
    have "put_extensions put_two_byte (rh_extensions h) b = put_slice (concat (map (extension_bytes 2) (rh_extensions h))) b" for b
      by (intro put_extensions_eq put_two_byte_eq)
    then show ?thesis unfolding size2
      by (simp add: 2 eqs extension_profile_len_def EXTENSION_PROFILE_TWO_BYTE_def EXTENSION_PROFILE_ONE_BYTE_def del: extension_bytes.simps)
  next
    case 3
    then obtain e where e: "rh_extensions h = [e]" using wf(4) by (auto simp: length_Suc_conv)
    with 3 wf(1) have "?n mod 4 = 0" "length (xe_payload e) mod 4 = 0"
      using extension_profile_len_cases [of "rh_extension_profile h"]
      by (auto simp: extension_wf_def get_extension_payload_len_def)
    with 3 show ?thesis unfolding size2
      using extension_profile_len_cases [of "rh_extension_profile h"] by (auto simp: eqs e)
  qed
qed

lemma length_concat_put_u32: "length (concat (map put_u32 xs)) = 4 * length xs"
  by (induction xs) simp_all

lemma length_extension_block:
  assumes "rtp_header_wf h" "rh_extension h"
  shows "length (extension_block h) = get_extension_payload_len h + rh_extensions_padding h"
    "length (extension_block h) mod 4 = 0" "length (extension_block h) < 2 ^ 17"
  using assms get_padding_spec(1,2) [of "get_extension_payload_len h"]
  by (simp_all add: extension_block_def length_extension_bytes rtp_header_wf_def)

lemma length_rtp_header_bytes:
  assumes "rtp_header_wf h"
  shows "length (rtp_header_bytes h) = header_marshal_size h"
proof (cases "rh_extension h")
  case True
  have "div_ceil (get_extension_payload_len h + rh_extensions_padding h) 4 * 4 = length (extension_block h)"
    using assms True get_padding_spec(4) [of "get_extension_payload_len h"]
    by (simp add: length_extension_block rtp_header_wf_def)
  with True show ?thesis
    by (simp add: rtp_header_bytes_def header_marshal_size_def length_concat_put_u32 CSRC_LENGTH_def)
qed (simp add: rtp_header_bytes_def header_marshal_size_def length_concat_put_u32 CSRC_LENGTH_def)

lemma header_marshal_to_eq:
  assumes "rtp_header_wf h" "header_marshal_size h \<le> remaining_mut buf"
  shows "header_marshal_to h buf = Some (Inr (header_marshal_size h,
    buf\<lparr>written := written buf @ rtp_header_bytes h, remaining_mut := remaining_mut buf - header_marshal_size h\<rparr>))"
proof -
  have "header_marshal_to h buf =
      map_option (\<lambda>b. Inr (remaining_mut buf - remaining_mut b, b)) (put_slice (rtp_header_bytes h) buf)"
    using assms(2) marshal_extensions_eq [OF assms(1)]
    by (cases "rh_extension h")
      (simp_all add: header_marshal_to_def rtp_header_bytes_def put_slice_bind put_slice_append map_option_case
        put_slice_Inr split: option.splits, auto simp: put_slice_def split: if_splits)
  then show ?thesis
    using assms length_rtp_header_bytes [OF assms(1)] by (simp add: put_slice_def)
qed

section \<open>Decoding what was encoded\<close>

text \<open>Facts about single bytes, by enumeration.\<close>

lemma all_below: "list_all P [0..<k] \<Longrightarrow> n < k \<Longrightarrow> P n"
  by (simp add: list_all_iff)

lemma word_of_unat: "word_of_nat (unat (a :: u8)) = a"
  by simp

lemma all_bools: "list_all P [True, False] \<Longrightarrow> P b"
  by (cases b) simp_all

lemma nibbles:
  assumes "unat (a :: u8) < 16" "n < 16"
  shows "drop_bit 4 (push_bit 4 a OR word_of_nat n) = a" "(push_bit 4 a OR word_of_nat n) AND 15 = word_of_nat n"
proof -
  have "list_all (\<lambda>x. list_all (\<lambda>y. drop_bit 4 (push_bit 4 (word_of_nat x) OR word_of_nat y) = (word_of_nat x :: u8) \<and>
      (push_bit 4 (word_of_nat x) OR word_of_nat y) AND 15 = (word_of_nat y :: u8)) [0..<16]) [0..<16]"
    by code_simp
  from all_below [OF all_below [OF this assms(1)] assms(2)]
  show "drop_bit 4 (push_bit 4 a OR word_of_nat n) = a" "(push_bit 4 a OR word_of_nat n) AND 15 = word_of_nat n"
    unfolding word_of_unat by argo+
qed

lemma first_byte_fields:
  assumes "unat (rh_version h) < 4" "length (rh_csrc h) < 16"
  shows "drop_bit 6 (first_byte h) AND 3 = rh_version h" "0 < drop_bit 5 (first_byte h) AND 1 \<longleftrightarrow> rh_padding h"
    "0 < drop_bit 4 (first_byte h) AND 1 \<longleftrightarrow> rh_extension h" "unat (first_byte h AND 15) = length (rh_csrc h)"
proof -
  define f where "f v n p x = (let b = push_bit 6 (word_of_nat v :: u8) OR word_of_nat n;
      b = (if p then b OR push_bit 5 1 else b) in if x then b OR push_bit 4 1 else b)" for v n :: nat and p x
  have enum: "list_all (\<lambda>v. list_all (\<lambda>n. list_all (\<lambda>p. list_all (\<lambda>x.
      drop_bit 6 (f v n p x) AND 3 = word_of_nat v \<and> (0 < drop_bit 5 (f v n p x) AND 1 \<longleftrightarrow> p) \<and>
      (0 < drop_bit 4 (f v n p x) AND 1 \<longleftrightarrow> x) \<and> unat (f v n p x AND 15) = n) [True, False]) [True, False]) [0..<16]) [0..<4]"
    unfolding f_def by code_simp
  have eq: "first_byte h = f (unat (rh_version h)) (length (rh_csrc h)) (rh_padding h) (rh_extension h)"
    by (simp add: first_byte_def f_def)
  from all_bools [OF all_bools [OF all_below [OF all_below [OF enum assms(1)] assms(2)]], of "rh_padding h" "rh_extension h"]
  show "drop_bit 6 (first_byte h) AND 3 = rh_version h" "0 < drop_bit 5 (first_byte h) AND 1 \<longleftrightarrow> rh_padding h"
    "0 < drop_bit 4 (first_byte h) AND 1 \<longleftrightarrow> rh_extension h" "unat (first_byte h AND 15) = length (rh_csrc h)"
    by (auto simp: eq)
qed

lemma second_byte_fields:
  assumes "unat (rh_payload_type h) < 128"
  shows "second_byte h AND 127 = rh_payload_type h" "0 < drop_bit 7 (second_byte h) AND 1 \<longleftrightarrow> rh_marker h"
proof -
  have "list_all (\<lambda>v. word_of_nat v AND 127 = (word_of_nat v :: u8) \<and> (word_of_nat v OR push_bit 7 1) AND 127 = (word_of_nat v :: u8) \<and>
      drop_bit 7 (word_of_nat v :: u8) AND 1 = 0 \<and> drop_bit 7 (word_of_nat v OR push_bit 7 1 :: u8) AND 1 = 1) [0..<128]"
    by code_simp
  from all_below [OF this assms] show "second_byte h AND 127 = rh_payload_type h" "0 < drop_bit 7 (second_byte h) AND 1 \<longleftrightarrow> rh_marker h"
    by (simp_all add: second_byte_def)
qed
lemma get_csrcs_eq: "get_csrcs (length cs) (concat (map put_u32 cs) @ rest) = Some (cs, rest)"
  by (induction cs) (simp_all add: get_be32_def)

lemma one_byte_loop_padding:
  "one_byte_loop c (c + n) es k (replicate n 0 @ rest) = Some (Inr ((es, k + n), rest))"
proof (induction n arbitrary: c k)
  case (Suc n)
  show ?case by (subst one_byte_loop.simps) (use Suc [of "Suc c" "Suc k"] in simp)
qed (simp add: one_byte_loop.simps)

lemma two_byte_loop_padding:
  "two_byte_loop c (c + n) es k (replicate n 0 @ rest) = Some (Inr ((es, k + n), rest))"
proof (induction n arbitrary: c k)
  case (Suc n)
  show ?case by (subst two_byte_loop.simps) (use Suc [of "Suc c" "Suc k"] in simp)
qed (simp add: two_byte_loop.simps)

lemma one_byte_loop_extension:
  assumes "extension_wf EXTENSION_PROFILE_ONE_BYTE e"
  shows "one_byte_loop c (c + length (extension_bytes 1 e) + n) es k (extension_bytes 1 e @ rest) =
    one_byte_loop (c + length (extension_bytes 1 e)) (c + length (extension_bytes 1 e) + n) (es @ [e]) k rest"
proof -
  define b where "b = (push_bit 4 (xe_id e) OR word_of_nat (length (xe_payload e) - 1) :: u8)"
  have e: "1 \<le> unat (xe_id e)" "unat (xe_id e) \<le> 14" "1 \<le> length (xe_payload e)" "length (xe_payload e) \<le> 16"
    using assms by (simp_all add: extension_wf_def)
  then have "unat (xe_id e) < 16" "length (xe_payload e) - 1 < 16" by auto
  note fields = nibbles [OF this, folded b_def]
  have "unat ((b AND 15) + 1) = length (xe_payload e)" using e unfolding fields by (simp add: unat_word_ariths unat_of_nat)
  moreover have "b \<noteq> 0"
  proof
    assume "b = 0"
    with fields(1) have "xe_id e = 0" by simp
    with e(1) show False by simp
  qed
  moreover have "xe_id e \<noteq> EXTENSION_ID_RESERVED" using e(2) by (auto simp: EXTENSION_ID_RESERVED_def)
  moreover have "extension_bytes 1 e = b # xe_payload e" by (simp add: b_def)
  ultimately show ?thesis
    by (subst one_byte_loop.simps) (simp add: fields(1) Let_def del: extension_bytes.simps, cases e, simp)
qed

lemma two_byte_loop_extension:
  assumes "extension_wf EXTENSION_PROFILE_TWO_BYTE e"
  shows "two_byte_loop c (c + length (extension_bytes 2 e) + n) es k (extension_bytes 2 e @ rest) =
    two_byte_loop (c + length (extension_bytes 2 e)) (c + length (extension_bytes 2 e) + n) (es @ [e]) k rest"
proof -
  have e: "xe_id e \<noteq> 0" "length (xe_payload e) \<le> 255"
    using assms by (simp_all add: extension_wf_def EXTENSION_PROFILE_TWO_BYTE_def EXTENSION_PROFILE_ONE_BYTE_def)
  then have "unat (word_of_nat (length (xe_payload e)) :: u8) = length (xe_payload e)" by (simp add: unat_of_nat)
  with e(1) show ?thesis by (subst two_byte_loop.simps) (cases e, simp)
qed

lemma loop_extensions:
  assumes step: "\<And>e c n es k rest. e \<in> set xs \<Longrightarrow>
      loop c (c + length (enc e) + n) es k (enc e @ rest) = loop (c + length (enc e)) (c + length (enc e) + n) (es @ [e]) k rest"
    and padding: "\<And>c n es k rest. loop c (c + n) es k (replicate n 0 @ rest) = Some (Inr ((es, k + n), rest))"
  shows "loop c (c + length (concat (map enc xs)) + n) es k (concat (map enc xs) @ replicate n (0 :: u8) @ rest) =
    Some (Inr ((es @ xs, k + n), rest))"
  using step
proof (induction xs arbitrary: c es)
  case (Cons e xs)
  have "loop c (c + length (enc e) + (length (concat (map enc xs)) + n)) es k
      (enc e @ concat (map enc xs) @ replicate n 0 @ rest) =
    loop (c + length (enc e)) (c + length (enc e) + length (concat (map enc xs)) + n) (es @ [e]) k
      (concat (map enc xs) @ replicate n 0 @ rest)"
    using Cons.prems by (simp add: add.assoc)
  with Cons.IH [of "c + length (enc e)" "es @ [e]"] Cons.prems show ?case by (simp add: add.assoc)
qed (simp add: padding)

lemma unmarshal_extensions_eq:
  assumes wf: "rtp_header_wf h" "rh_extension h"
    and len: "c + 4 + length (extension_block h) \<le> n"
  shows "unmarshal_extensions n c (put_u16 (rh_extension_profile h) @
      put_u16 (word_of_nat (length (extension_block h) div 4)) @ extension_block h @ rest) =
    Some (Inr ((rh_extension_profile h, rh_extensions h, rh_extensions_padding h), rest))"
proof -
  let ?p = "rh_extension_profile h"
  let ?enc = "extension_bytes (extension_profile_len ?p)"
  have exts: "list_all (extension_wf ?p) (rh_extensions h)"
      "extension_profile_len ?p = 0 \<Longrightarrow> length (rh_extensions h) = 1" "rh_extensions_padding h = get_padding (get_extension_payload_len h)"
    using wf by (simp_all add: rtp_header_wf_def)
  have block: "extension_block h = concat (map ?enc (rh_extensions h)) @ replicate (rh_extensions_padding h) 0"
    by (simp add: extension_block_def)
  have words: "unat (word_of_nat (length (extension_block h) div 4) :: u16) * 4 = length (extension_block h)"
    using length_extension_block [OF wf] by (simp add: unat_of_nat) presburger
  consider "?p = EXTENSION_PROFILE_ONE_BYTE" "extension_profile_len ?p = 1"
    | "?p = EXTENSION_PROFILE_TWO_BYTE" "extension_profile_len ?p = 2" "?p \<noteq> EXTENSION_PROFILE_ONE_BYTE"
    | "extension_profile_len ?p = 0" "?p \<noteq> EXTENSION_PROFILE_ONE_BYTE" "?p \<noteq> EXTENSION_PROFILE_TWO_BYTE"
    using extension_profile_len_cases [of ?p] by (auto simp: EXTENSION_PROFILE_ONE_BYTE_def EXTENSION_PROFILE_TWO_BYTE_def)
  then show ?thesis
  proof cases
    case 1
    have "one_byte_loop (c + 4) (c + 4 + length (extension_block h)) [] 0 (extension_block h @ rest) =
        Some (Inr ((rh_extensions h, rh_extensions_padding h), rest))"
      using loop_extensions [where loop = one_byte_loop and enc = "extension_bytes 1" and xs = "rh_extensions h" and c = "c + 4"
          and n = "rh_extensions_padding h" and es = "[]" and k = 0 and rest = rest] one_byte_loop_extension one_byte_loop_padding exts(1)
      by (simp add: block [unfolded 1(2)] 1(1) list_all_iff add.assoc del: extension_bytes.simps)
    with len show ?thesis by (simp add: unmarshal_extensions_def get_be16_def words 1(1) Let_def)
  next
    case 2
    have "two_byte_loop (c + 4) (c + 4 + length (extension_block h)) [] 0 (extension_block h @ rest) =
        Some (Inr ((rh_extensions h, rh_extensions_padding h), rest))"
      using loop_extensions [where loop = two_byte_loop and enc = "extension_bytes 2" and xs = "rh_extensions h" and c = "c + 4"
          and n = "rh_extensions_padding h" and es = "[]" and k = 0 and rest = rest] two_byte_loop_extension two_byte_loop_padding exts(1)
      by (simp add: block [unfolded 2(2)] 2(1) list_all_iff add.assoc del: extension_bytes.simps)
    with len show ?thesis using 2(1,3) by (simp add: unmarshal_extensions_def get_be16_def words Let_def)
  next
    case 3
    then obtain e where e: "rh_extensions h = [e]" using exts(2) by (auto simp: length_Suc_conv)
    with 3 exts(1) have id0: "xe_id e = 0" and "length (xe_payload e) mod 4 = 0" by (simp_all add: extension_wf_def)
    then have pad: "rh_extensions_padding h = 0"
      using exts(3) by (simp add: get_padding_def get_extension_payload_len_def e 3(1))
    have eb: "extension_block h = xe_payload e" by (simp add: block e 3(1) pad)
    have "\<lparr>xe_id = 0, xe_payload = xe_payload e\<rparr> = e" using id0 by (cases e) simp
    with len words show ?thesis
      unfolding eb by (simp add: unmarshal_extensions_def get_be16_def Let_def 3(2,3) e pad)
  qed
qed

lemma header_unmarshal_bytes:
  assumes "rtp_header_wf h"
  shows "header_unmarshal (rtp_header_bytes h @ rest) = Some (Inr (h, rest))"
proof -
  have h: "unat (rh_version h) < 4" "unat (rh_payload_type h) < 128" "length (rh_csrc h) < 16"
    using assms by (simp_all add: rtp_header_wf_def)
  note fields = first_byte_fields [OF h(1,3)] second_byte_fields [OF h(2)]
  define tail where "tail = (if rh_extension h then put_u16 (rh_extension_profile h) @
      put_u16 (word_of_nat (length (extension_block h) div 4)) @ extension_block h else [])"
  have bytes: "rtp_header_bytes h = first_byte h # second_byte h # put_u16 (rh_sequence_number h) @ put_u32 (rh_timestamp h) @
      put_u32 (rh_ssrc h) @ concat (map put_u32 (rh_csrc h)) @ tail"
    by (simp add: rtp_header_bytes_def tail_def)
  define n where "n = length (rtp_header_bytes h @ rest)"
  have ext: "(if rh_extension h then unmarshal_extensions n (12 + length (rh_csrc h) * 4) (tail @ rest) else Some (Inr ((0, [], 0), tail @ rest))) =
      Some (Inr ((rh_extension_profile h, rh_extensions h, rh_extensions_padding h), rest))"
    using assms unmarshal_extensions_eq [OF assms, of "12 + length (rh_csrc h) * 4" n rest]
    by (auto simp: n_def tail_def bytes length_concat_put_u32 rtp_header_wf_def)
  have len: "\<not> n < 12 + length (rh_csrc h) * 4" "\<not> n < 4" by (simp_all add: n_def bytes length_concat_put_u32)
  show ?thesis
    unfolding header_unmarshal_def Let_def HEADER_LENGTH_def CSRC_OFFSET_def CSRC_LENGTH_def n_def [symmetric] if_not_P [OF len(2)]
    by (simp add: bytes fields get_be16_def get_be32_def if_not_P [OF len(1)] get_csrcs_eq ext cong: if_cong)
qed

section \<open>Packets\<close>

lemma padding_bytes_spec:
  assumes "0 < n" "n < 256"
  shows "length (padding_bytes n) = n" "last (xs @ padding_bytes n) = word_of_nat n"
    "unat (last (xs @ padding_bytes n)) = n"
  using assms by (simp_all add: padding_bytes_def last_map unat_of_nat)

lemma packet_padding_bounds:
  "rh_padding (rp_header p) \<Longrightarrow> 0 < packet_padding p" "packet_padding p < 256" "packet_padding p \<le> 4"
  using get_padding_spec(2) [of "length (rp_payload p)"] by (simp_all add: packet_padding_def Let_def)

lemma packet_marshal_eq:
  assumes "rtp_header_wf (rp_header p)"
  shows "packet_marshal p = Some (Inr (rtp_header_bytes (rp_header p) @ rp_payload p @ padding_bytes (packet_padding p)))"
proof -
  have "length (padding_bytes n) = n" for n by (simp add: padding_bytes_def)
  then show ?thesis
    using header_marshal_to_eq [OF assms, of "\<lparr>written = [], remaining_mut = packet_marshal_size p\<rparr>"]
    by (simp add: packet_marshal_def marshal_with_def packet_marshal_to_def packet_marshal_size_def put_slice_def)
qed

lemma packet_unmarshal_bytes:
  assumes "rtp_header_wf (rp_header p)"
  shows "packet_unmarshal (rtp_header_bytes (rp_header p) @ rp_payload p @ padding_bytes (packet_padding p)) = Some (Inr p)"
proof (cases "rh_padding (rp_header p)")
  case True
  have len: "length (padding_bytes n) = n" for n by (simp add: padding_bytes_def)
  note pad = padding_bytes_spec(3) [OF packet_padding_bounds(1) [OF True] packet_padding_bounds(2)]
  have "padding_bytes (packet_padding p) \<noteq> []"
    using packet_padding_bounds(1) [OF True] by (simp add: padding_bytes_def)
  then show ?thesis
    by (simp add: packet_unmarshal_def header_unmarshal_bytes [OF assms] Let_def True pad [of "[]", simplified] len)
next
  case False
  then show ?thesis
    by (simp add: packet_unmarshal_def header_unmarshal_bytes [OF assms] packet_padding_def padding_bytes_def)
qed

text \<open>C36. Writing an RTP packet whose header is well formed never fails and fills exactly the size announced, and reading
  what was written gives the packet back: fixed fields, contributing sources, header extensions of all three profiles, and
  the payload without its padding.\<close>

theorem rtp_packet_roundtrip:
  assumes "rtp_header_wf (rp_header p)"
  shows "\<exists>bs. packet_marshal p = Some (Inr bs) \<and> length bs = packet_marshal_size p \<and> packet_unmarshal bs = Some (Inr p)"
proof -
  have "length (padding_bytes n) = n" for n by (simp add: padding_bytes_def)
  then show ?thesis
    using packet_marshal_eq [OF assms] packet_unmarshal_bytes [OF assms] length_rtp_header_bytes [OF assms]
    by (simp add: packet_marshal_size_def)
qed

definition sample_rtp_packet :: rtp_packet where
  "sample_rtp_packet =
     \<lparr>rp_header = \<lparr>rh_version = 2, rh_padding = True, rh_extension = True, rh_marker = True, rh_payload_type = 96,
        rh_sequence_number = 65535, rh_timestamp = 90000, rh_ssrc = 0xDEADBEEF, rh_csrc = [7],
        rh_extension_profile = EXTENSION_PROFILE_ONE_BYTE,
        rh_extensions = [\<lparr>xe_id = 1, xe_payload = [5, 0, 6]\<rparr>, \<lparr>xe_id = 14, xe_payload = [9]\<rparr>],
        rh_extensions_padding = 2\<rparr>,
      rp_payload = [1, 2, 3]\<rparr>"

theorem rtp_packet_roundtrip_witness:
  "\<exists>bs. packet_marshal sample_rtp_packet = Some (Inr bs) \<and> length bs = 32 \<and> packet_unmarshal bs = Some (Inr sample_rtp_packet)"
proof -
  have "rtp_header_wf (rp_header sample_rtp_packet)"
    by (simp add: sample_rtp_packet_def rtp_header_wf_def extension_wf_def get_extension_payload_len_def
        extension_profile_len_def get_padding_def)
  moreover have "packet_marshal_size sample_rtp_packet = 32" by code_simp
  ultimately show ?thesis using rtp_packet_roundtrip [of sample_rtp_packet] by simp
qed

section \<open>Reading never panics\<close>

lemma one_byte_loop_total: "e \<le> c + length bs \<Longrightarrow> one_byte_loop c e es k bs \<noteq> None"
proof (induction c e es k bs rule: one_byte_loop.induct)
  case (1 c e es k bs)
  show ?case
  proof (cases "c < e")
    case True
    with 1(3) obtain b bs' where bs: "bs = b # bs'" by (cases bs) auto
    show ?thesis
      using 1 True by (subst one_byte_loop.simps) (auto simp: bs Let_def)
  qed (simp add: one_byte_loop.simps)
qed

lemma two_byte_loop_total: "e \<le> c + length bs \<Longrightarrow> two_byte_loop c e es k bs \<noteq> None"
proof (induction c e es k bs rule: two_byte_loop.induct)
  case (1 c e es k bs)
  show ?case
  proof (cases "c < e")
    case True
    with 1(3) obtain b bs' where bs: "bs = b # bs'" by (cases bs) auto
    show ?thesis
    proof (cases "b = 0 \<or> e \<le> c + 1")
      case True
      with \<open>c < e\<close> 1 show ?thesis by (subst two_byte_loop.simps) (auto simp: bs)
    next
      case False
      with 1(3) obtain l bs'' where "bs' = l # bs''" by (cases bs') (auto simp: bs)
      with False \<open>c < e\<close> 1 show ?thesis by (subst two_byte_loop.simps) (auto simp: bs)
    qed
  qed (simp add: two_byte_loop.simps)
qed

lemma get_csrcs_total: "4 * n \<le> length bs \<Longrightarrow> \<exists>cs. get_csrcs n bs = Some (cs, drop (4 * n) bs)"
proof (induction n arbitrary: bs)
  case (Suc n)
  then have "4 * n \<le> length (drop 4 bs)" by simp
  from Suc.IH [OF this] obtain cs where "get_csrcs n (drop 4 bs) = Some (cs, drop (4 * n) (drop 4 bs))" by blast
  with Suc.prems show ?case by (simp add: get_be32_def add.commute)
qed simp

lemma unmarshal_extensions_total:
  "length bs + c = n \<Longrightarrow> unmarshal_extensions n c bs \<noteq> None"
  using one_byte_loop_total [of _ "c + 4" "drop 4 bs"] two_byte_loop_total [of _ "c + 4" "drop 4 bs"]
  by (auto simp: unmarshal_extensions_def get_be16_def Let_def)

text \<open>Whatever bytes arrive, reading an RTP packet ends without a panic, with a packet or an error.\<close>

theorem rtp_unmarshal_total: "packet_unmarshal bs \<noteq> None"
proof -
  have "header_unmarshal bs \<noteq> None"
  proof (cases "length bs < 4")
    case False
    then obtain b0 rest where bs: "bs = b0 # rest" by (cases bs) auto
    let ?c = "12 + unat (b0 AND 15) * 4"
    show ?thesis
    proof (cases "length bs < ?c")
      case False
      with bs obtain b1 rest' where rest: "rest = b1 # rest'" by (cases rest) auto
      from False have "4 * unat (b0 AND 15) \<le> length (drop 10 rest')" by (simp add: bs rest)
      then obtain cs where "get_csrcs (unat (b0 AND 15)) (drop 10 rest') = Some (cs, drop (4 * unat (b0 AND 15)) (drop 10 rest'))"
        using get_csrcs_total by blast
      moreover have "unmarshal_extensions (length bs) ?c (drop (4 * unat (b0 AND 15)) (drop 10 rest')) \<noteq> None"
        using False by (intro unmarshal_extensions_total) (simp add: bs rest)
      moreover have "\<not> length rest' < 2" "\<not> length (drop 2 rest') < 4" "\<not> length (drop 4 (drop 2 rest')) < 4"
        using False by (simp_all add: bs rest)
      ultimately show ?thesis
        using False \<open>\<not> length bs < 4\<close>
        unfolding header_unmarshal_def Let_def HEADER_LENGTH_def CSRC_OFFSET_def CSRC_LENGTH_def bs rest
        by (simp add: get_be16_def get_be32_def split del: if_split cong: if_cong) simp
    qed (simp add: header_unmarshal_def bs Let_def HEADER_LENGTH_def CSRC_OFFSET_def CSRC_LENGTH_def)
  qed (simp add: header_unmarshal_def Let_def HEADER_LENGTH_def)
  then show ?thesis
    by (auto simp: packet_unmarshal_def Let_def split: option.splits sum.splits)
qed

section \<open>Setting and deleting extensions\<close>

lemma get_padding_unique: "r < 4 \<Longrightarrow> (n + r) mod 4 = 0 \<Longrightarrow> get_padding n = r"
  unfolding get_padding_def by presburger

lemma int_mod_add: "(int m + int r) mod 4 = int ((m + r) mod 4)"
  by (simp add: zmod_int)

lemma adjust_padding_eq:
  assumes "int m = int n + delta"
  shows "adjust_padding (get_padding n) delta = get_padding m"
proof -
  define r where "r = adjust_padding (get_padding n) delta"
  have pad: "get_padding n < 4" "(n + get_padding n) mod 4 = 0" by (rule get_padding_spec)+
  have ipad: "(int n + int (get_padding n)) mod 4 = 0" using pad(2) by (simp add: int_mod_add)
  consider "delta < 0" | "delta = 0" | "delta > 0" by linarith
  then have "r < 4 \<and> (int m + int r) mod 4 = 0"
  proof cases
    case 1
    have "(int m + (int (get_padding n) - delta) mod 4) mod 4 = (int n + int (get_padding n)) mod 4"
      unfolding assms by (simp add: mod_simps)
    with 1 ipad show ?thesis by (simp add: r_def adjust_padding_def nat_less_iff)
  next
    case 2
    with assms pad(1) ipad show ?thesis by (simp add: r_def adjust_padding_def)
  next
    case 3
    define d where "d = nat (delta mod 4)"
    have d: "d < 4" "int d = delta mod 4" by (simp_all add: d_def)
    have r: "int r = (if int (get_padding n) < delta mod 4 then int (get_padding n) + 4 - delta mod 4 else int (get_padding n) - delta mod 4)"
      using 3 d pad(1) by (auto simp: r_def adjust_padding_def Let_def d_def)
    have "(int m + int r) mod 4 = (int n + int (get_padding n)) mod 4"
    proof -
      have "int m + int r = int n + int (get_padding n) + 4 * (delta div 4 + (if int (get_padding n) < delta mod 4 then 1 else 0))"
        unfolding assms r by (simp add: minus_mod_eq_mult_div)
      then show ?thesis by (simp only: mod_mult_self2)
    qed
    moreover have "int r < 4" using r d pad(1) by (auto split: if_splits)
    ultimately show ?thesis using ipad by simp
  qed
  then have "(m + r) mod 4 = 0" "r < 4" by (simp_all add: int_mod_add)
  from get_padding_unique [OF this(2,1)] show ?thesis unfolding r_def by (rule sym)
qed

lemma find_extension_Some: "find_extension i es = Some e \<Longrightarrow> e \<in> set es \<and> xe_id e = i"
  by (induction es) (auto split: if_splits)

lemma find_extension_update:
  "find_extension i es = Some e \<Longrightarrow>
     find_extension j (replace_extension i body es) = (if j = i then Some (e\<lparr>xe_payload := body\<rparr>) else find_extension j es)"
  "find_extension i es = None \<Longrightarrow>
     find_extension j (es @ [\<lparr>xe_id = i, xe_payload = body\<rparr>]) =
       (if j = i then Some \<lparr>xe_id = i, xe_payload = body\<rparr> else find_extension j es)"
  by (induction es) (auto split: if_splits)

lemma replace_extension_sizes:
  assumes "find_extension i es = Some e"
  shows "length (replace_extension i body es) = length es"
    "int (sum_list (map (\<lambda>e. length (xe_payload e)) (replace_extension i body es))) =
       int (sum_list (map (\<lambda>e. length (xe_payload e)) es)) + (int (length body) - int (length (xe_payload e)))"
    "x \<in> set (replace_extension i body es) \<Longrightarrow> x \<in> set es \<or> x = e\<lparr>xe_payload := body\<rparr>"
  using assms by (induction es) (auto split: if_splits)

lemma remove_extension_sizes:
  assumes "find_extension i es = Some e"
  shows "length es = Suc (length (remove_extension i es))"
    "sum_list (map (\<lambda>e. length (xe_payload e)) es) =
       sum_list (map (\<lambda>e. length (xe_payload e)) (remove_extension i es)) + length (xe_payload e)"
    "x \<in> set (remove_extension i es) \<Longrightarrow> x \<in> set es"
  using assms by (induction es) (auto split: if_splits)

lemma set_extension_cases:
  assumes "set_extension i body h = Inr h'"
  obtains (replace) e n where "rh_extension h" "check_extension (rh_extension_profile h) i (length body) = Inr n"
      "find_extension i (rh_extensions h) = Some e"
      "h' = h\<lparr>rh_extensions := replace_extension i body (rh_extensions h), rh_extensions_padding :=
        adjust_padding (rh_extensions_padding h) (int (length body) - int (length (xe_payload e)))\<rparr>"
    | (append) n where "rh_extension h" "check_extension (rh_extension_profile h) i (length body) = Inr n"
      "find_extension i (rh_extensions h) = None"
      "h' = h\<lparr>rh_extensions := rh_extensions h @ [\<lparr>xe_id = i, xe_payload = body\<rparr>], rh_extensions_padding :=
        adjust_padding (rh_extensions_padding h) (int (length body) + int n)\<rparr>"
    | (first) "\<not> rh_extension h"
proof (cases "rh_extension h")
  case True
  then obtain n where n: "check_extension (rh_extension_profile h) i (length body) = Inr n"
    using assms by (cases "check_extension (rh_extension_profile h) i (length body)") (simp_all add: set_extension_def Let_def)
  show ?thesis
  proof (cases "find_extension i (rh_extensions h)")
    case None
    with True n assms show ?thesis by (intro append [of n]) (simp_all add: set_extension_def)
  next
    case (Some e)
    with True n assms show ?thesis by (intro replace [of n e]) (simp_all add: set_extension_def)
  qed
qed (rule first)

lemma check_extension_wf:
  assumes "check_extension p i (length body) = Inr n" "body \<noteq> []" "extension_profile_len p \<noteq> 0"
  shows "extension_wf p \<lparr>xe_id = i, xe_payload = body\<rparr>" "n = extension_profile_len p"
proof -
  have i: "1 \<le> i \<and> i \<le> 14 \<longleftrightarrow> 1 \<le> unat i \<and> unat i \<le> 14" "i < 1 \<longleftrightarrow> i = 0"
    by (simp_all add: word_le_nat_alt word_less_nat_alt unat_eq_0)
  from assms show "extension_wf p \<lparr>xe_id = i, xe_payload = body\<rparr>" "n = extension_profile_len p"
    unfolding check_extension_def i
    by (auto simp: extension_wf_def extension_profile_len_def Suc_le_eq split: if_splits)
qed

text \<open>A new value for an extension: the header stays well formed, the value is found under its identifier, and the other
  extensions are as before. \<open>set_extension\<close> checks neither that the value is not empty nor, for the first extension of a
  header, its identifier.\<close>

lemma set_extension_wf:
  assumes wf: "rtp_header_wf h" and set: "set_extension i body h = Inr h'" and body: "body \<noteq> []"
    and i: "rh_extension h \<or> 1 \<le> unat i \<and> unat i \<le> 14 \<and> length body \<le> 255"
    and profile: "rh_extension h \<Longrightarrow> extension_profile_len (rh_extension_profile h) \<noteq> 0"
    and small: "get_extension_payload_len h' < 2 ^ 16"
  shows "rtp_header_wf h'" "get_extension i h' = Some body" "j \<noteq> i \<Longrightarrow> get_extension j h' = get_extension j h"
proof -
  have other: "rtp_header_wf h' \<and> get_extension i h' = Some body \<and> (j \<noteq> i \<longrightarrow> get_extension j h' = get_extension j h)"
    using set
  proof (cases rule: set_extension_cases)
    case (replace e n)
    let ?p = "rh_extension_profile h" and ?n = "get_extension_payload_len h"
    note p = profile [OF replace(1)]
    have e: "e \<in> set (rh_extensions h)" "xe_id e = i" using find_extension_Some [OF replace(3)] by auto
    have wfe: "extension_wf ?p (e\<lparr>xe_payload := body\<rparr>)"
      using check_extension_wf(1) [OF replace(2) body p] e(2) by (cases e) simp
    have "int (get_extension_payload_len h') = int ?n + (int (length body) - int (length (xe_payload e)))"
      using replace_extension_sizes(1,2) [OF replace(3)] by (simp add: get_extension_payload_len_def replace(4))
    note pad = adjust_padding_eq [OF this]
    have "list_all (extension_wf ?p) (rh_extensions h')"
      using wf replace(1) wfe replace_extension_sizes(3) [OF replace(3)] by (auto simp: rtp_header_wf_def list_all_iff replace(4))
    then show ?thesis
      using wf replace(1) p pad small find_extension_update(1) [OF replace(3)]
      by (auto simp: rtp_header_wf_def get_extension_def replace(4))
  next
    case (append n)
    let ?p = "rh_extension_profile h" and ?n = "get_extension_payload_len h"
    note p = profile [OF append(1)]
    note new = check_extension_wf [OF append(2) body p]
    have "int (get_extension_payload_len h') = int ?n + (int (length body) + int n)"
      using new(2) by (simp add: get_extension_payload_len_def append(4))
    note pad = adjust_padding_eq [OF this]
    show ?thesis
      using wf append(1) p pad small new(1) find_extension_update(2) [OF append(3)]
      by (auto simp: rtp_header_wf_def get_extension_def append(4))
  next
    case first
    define p where "p = (if length body \<le> 16 then EXTENSION_PROFILE_ONE_BYTE else EXTENSION_PROFILE_TWO_BYTE)"
    have h': "h' = h\<lparr>rh_extension := True, rh_extension_profile := p, rh_extensions := [\<lparr>xe_id = i, xe_payload = body\<rparr>],
        rh_extensions_padding := get_padding (length body + extension_profile_len p)\<rparr>"
      using set wf i first
      by (auto simp: set_extension_def Let_def p_def rtp_header_wf_def get_padding_def extension_profile_len_def
          EXTENSION_PROFILE_ONE_BYTE_def EXTENSION_PROFILE_TWO_BYTE_def)
    have "extension_wf p \<lparr>xe_id = i, xe_payload = body\<rparr>"
      using i first body by (auto simp: p_def extension_wf_def Suc_le_eq EXTENSION_PROFILE_ONE_BYTE_def
          EXTENSION_PROFILE_TWO_BYTE_def split: if_splits)
    with wf first small show ?thesis
      by (auto simp: h' rtp_header_wf_def get_extension_def get_extension_payload_len_def)
  qed
  then show "rtp_header_wf h'" "get_extension i h' = Some body" "j \<noteq> i \<Longrightarrow> get_extension j h' = get_extension j h" by auto
qed

lemma mod_shift: "(a + (p + x mod 4) mod 4) mod 4 = (a + x + p) mod (4 :: nat)"
  by (metis add.assoc add.commute mod_add_right_eq)

lemma del_extension_wf:
  assumes wf: "rtp_header_wf h" and del: "del_extension i h = Inr h'"
    and profile: "extension_profile_len (rh_extension_profile h) \<noteq> 0"
  shows "rtp_header_wf h'" "get_extension_payload_len h' < get_extension_payload_len h"
proof -
  let ?n = "extension_profile_len (rh_extension_profile h)"
  from del obtain e where ext: "rh_extension h" and e: "find_extension i (rh_extensions h) = Some e"
      and h': "h' = h\<lparr>rh_extensions := remove_extension i (rh_extensions h),
        rh_extensions_padding := (rh_extensions_padding h + (length (xe_payload e) + ?n) mod 4) mod 4\<rparr>"
    by (auto simp: del_extension_def Let_def split: if_splits option.splits)
  have len: "get_extension_payload_len h = get_extension_payload_len h' + (length (xe_payload e) + ?n)"
    using remove_extension_sizes(1,2) [OF e] by (simp add: get_extension_payload_len_def h')
  with profile show "get_extension_payload_len h' < get_extension_payload_len h" by simp
  have "(get_extension_payload_len h' + rh_extensions_padding h') mod 4 = (get_extension_payload_len h + rh_extensions_padding h) mod 4"
    unfolding len by (simp add: h' mod_shift)
  also have "\<dots> = 0" using wf ext get_padding_spec(1) by (simp add: rtp_header_wf_def)
  finally have "get_padding (get_extension_payload_len h') = rh_extensions_padding h'"
    by (intro get_padding_unique) (simp_all add: h')
  then show "rtp_header_wf h'"
    using wf ext profile len remove_extension_sizes(3) [OF e]
    by (auto simp: rtp_header_wf_def h' list_all_iff)
qed

text \<open>The identifier 15 is not rejected for the first extension of a header. A reader then stops at it without skipping
  the rest of the extension block, which becomes the beginning of the payload.\<close>

definition plain_rtp_header :: rtp_header where
  "plain_rtp_header =
     \<lparr>rh_version = 2, rh_padding = False, rh_extension = False, rh_marker = False, rh_payload_type = 96,
      rh_sequence_number = 1, rh_timestamp = 2, rh_ssrc = 3, rh_csrc = [], rh_extension_profile = 0,
      rh_extensions = [], rh_extensions_padding = 0\<rparr>"

lemma reserved_extension_leaks:
  "set_extension 15 [1, 2, 3] plain_rtp_header =
     Inr (plain_rtp_header\<lparr>rh_extension := True, rh_extension_profile := EXTENSION_PROFILE_ONE_BYTE,
       rh_extensions := [\<lparr>xe_id = 15, xe_payload = [1, 2, 3]\<rparr>]\<rparr>)"
  "packet_unmarshal [0x90, 96, 0, 1, 0, 0, 0, 2, 0, 0, 0, 3, 0xBE, 0xDE, 0, 1, 0xF2, 1, 2, 3, 9] =
     Some (Inr \<lparr>rp_header = plain_rtp_header\<lparr>rh_extension := True, rh_extension_profile := EXTENSION_PROFILE_ONE_BYTE\<rparr>,
       rp_payload = [1, 2, 3, 9]\<rparr>)"
  by (simp_all add: set_extension_def packet_unmarshal_def header_unmarshal_def HEADER_LENGTH_def CSRC_OFFSET_def
      CSRC_LENGTH_def get_be16_def get_be32_def get_u16_def get_u32_def be_decode_def unmarshal_extensions_def
      one_byte_loop.simps EXTENSION_PROFILE_ONE_BYTE_def EXTENSION_ID_RESERVED_def plain_rtp_header_def)

end
