(* ===== verification/Rtp_H264.thy ===== *)
theory Rtp_H264
  imports Rtp_Packet
begin

text \<open>
  H.264 over RTP: \<^verbatim>\<open>rtc-patched/rtc-rtp/src/codec/h264/mod.rs\<close>. The payloader cuts an Annex B byte stream into RTP payloads,
  with the parameter sets aggregated (STAP-A) and large units fragmented (FU-A); the depacketizer puts them together again.

  \<open>None\<close> is a panic.
\<close>

section \<open>Constants\<close>

definition STAPA_NALU_TYPE :: u8 where "STAPA_NALU_TYPE = 24"
definition FUA_NALU_TYPE :: u8 where "FUA_NALU_TYPE = 28"
definition FUB_NALU_TYPE :: u8 where "FUB_NALU_TYPE = 29"
definition SPS_NALU_TYPE :: u8 where "SPS_NALU_TYPE = 7"
definition PPS_NALU_TYPE :: u8 where "PPS_NALU_TYPE = 8"
definition AUD_NALU_TYPE :: u8 where "AUD_NALU_TYPE = 9"
definition FILLER_NALU_TYPE :: u8 where "FILLER_NALU_TYPE = 12"
definition FUA_HEADER_SIZE :: nat where "FUA_HEADER_SIZE = 2"
definition STAPA_HEADER_SIZE :: nat where "STAPA_HEADER_SIZE = 1"
definition STAPA_NALU_LENGTH_SIZE :: nat where "STAPA_NALU_LENGTH_SIZE = 2"
definition NALU_TYPE_BITMASK :: u8 where "NALU_TYPE_BITMASK = 0x1F"
definition NALU_REF_IDC_BITMASK :: u8 where "NALU_REF_IDC_BITMASK = 0x60"
definition FU_START_BITMASK :: u8 where "FU_START_BITMASK = 0x80"
definition FU_END_BITMASK :: u8 where "FU_END_BITMASK = 0x40"
definition OUTPUT_STAP_AHEADER :: u8 where "OUTPUT_STAP_AHEADER = 0x78"
definition ANNEXB_NALUSTART_CODE :: bytes where "ANNEXB_NALUSTART_CODE = [0, 0, 0, 1]"

section \<open>The payloader\<close>

record h264_payloader =
  sps_nalu :: "bytes option"
  pps_nalu :: "bytes option"

definition h264_payloader_default :: h264_payloader where
  "h264_payloader_default = \<lparr>sps_nalu = None, pps_nalu = None\<rparr>"

text \<open>The start and the length of the next start code.\<close>

fun next_ind_loop :: "nat \<Rightarrow> nat \<Rightarrow> bytes \<Rightarrow> (nat \<times> nat) option" where
  "next_ind_loop zero_count pos [] = None"
| "next_ind_loop zero_count pos (b # bs) =
     (if b = 0 then next_ind_loop (zero_count + 1) (pos + 1) bs
      else if b = 1 \<and> zero_count \<ge> 2 then Some (pos - zero_count, zero_count + 1)
      else next_ind_loop 0 (pos + 1) bs)"

definition next_ind :: "bytes \<Rightarrow> nat \<Rightarrow> (nat \<times> nat) option" where
  "next_ind nalu start = next_ind_loop 0 start (drop start nalu)"

text \<open>The loop over the fragments of a unit: what remains and how much of it was sent.\<close>

function fua_loop :: "nat \<Rightarrow> u8 \<Rightarrow> u8 \<Rightarrow> bool \<Rightarrow> bytes \<Rightarrow> bytes list" where
  "fua_loop max_fragment_size nalu_ref_idc nalu_type first remaining =
     (if remaining = [] \<or> max_fragment_size = 0 then []
      else
        let current_fragment_size = min max_fragment_size (length remaining);
            b0 = FUA_NALU_TYPE OR nalu_ref_idc;
            b1 = (if first then nalu_type OR push_bit 7 1
                  else if length remaining - current_fragment_size = 0 then nalu_type OR push_bit 6 1
                  else nalu_type)
        in (b0 # b1 # take current_fragment_size remaining) #
           fua_loop max_fragment_size nalu_ref_idc nalu_type False (drop current_fragment_size remaining))"
  by pat_completeness auto
termination
  by (relation "measure (\<lambda>(_, _, _, _, remaining). length remaining)") auto

declare fua_loop.simps [simp del]

definition stap_a :: "bytes \<Rightarrow> bytes \<Rightarrow> bytes" where
  "stap_a sps pps =
     [OUTPUT_STAP_AHEADER] @ put_u16 (word_of_nat (length sps)) @ sps @ put_u16 (word_of_nat (length pps)) @ pps"

definition h264_emit :: "bytes \<Rightarrow> nat \<Rightarrow> h264_payloader \<Rightarrow> bytes list \<times> h264_payloader" where
  "h264_emit nalu mtu p =
     (if nalu = [] then ([], p)
      else
        let nalu_type = hd nalu AND NALU_TYPE_BITMASK;
            nalu_ref_idc = hd nalu AND NALU_REF_IDC_BITMASK
        in if nalu_type = AUD_NALU_TYPE \<or> nalu_type = FILLER_NALU_TYPE then ([], p)
           else if nalu_type = SPS_NALU_TYPE then ([], p\<lparr>sps_nalu := Some nalu\<rparr>)
           else if nalu_type = PPS_NALU_TYPE then ([], p\<lparr>pps_nalu := Some nalu\<rparr>)
           else
             let parameter_sets =
                   (case (sps_nalu p, pps_nalu p) of
                      (Some sps, Some pps) \<Rightarrow> if length (stap_a sps pps) \<le> mtu then [stap_a sps pps] else []
                    | _ \<Rightarrow> []);
                 p = (if sps_nalu p \<noteq> None \<and> pps_nalu p \<noteq> None then p\<lparr>sps_nalu := None, pps_nalu := None\<rparr> else p)
             in if length nalu \<le> mtu then (parameter_sets @ [nalu], p)
                else (parameter_sets @ fua_loop (mtu - FUA_HEADER_SIZE) nalu_ref_idc nalu_type True (tl nalu), p))"

lemma next_ind_loop_bounds:
  "next_ind_loop z pos bs = Some (start, len) \<Longrightarrow> z \<le> pos \<Longrightarrow>
     pos - z \<le> start \<and> 3 \<le> len \<and> start + len \<le> pos + length bs"
  by (induction z pos bs rule: next_ind_loop.induct) (fastforce split: if_splits)+

lemma next_ind_bounds:
  assumes "next_ind nalu start = Some (s, len)"
  shows "start \<le> s" "3 \<le> len" "s + len \<le> length nalu"
proof -
  have "start \<le> s \<and> 3 \<le> len \<and> s + len \<le> start + length (drop start nalu)"
    using next_ind_loop_bounds [of 0 start "drop start nalu" s len] assms by (simp add: next_ind_def)
  then show "start \<le> s" "3 \<le> len" "s + len \<le> length nalu" by auto
qed

lemma next_ind_less: "next_ind nalu start = Some (s, len) \<Longrightarrow> length nalu - (s + len) < length nalu - start"
  by (frule next_ind_bounds(1), frule next_ind_bounds(2), drule next_ind_bounds(3)) linarith

text \<open>The loop over the start codes, from the end of one.\<close>

function h264_payload_loop :: "bytes \<Rightarrow> nat \<Rightarrow> nat \<Rightarrow> h264_payloader \<Rightarrow> bytes list \<times> h264_payloader" where
  "h264_payload_loop body mtu prev_start p =
     (case next_ind body prev_start of
        Some (start, len) \<Rightarrow>
          let (out, p) = h264_emit (take (start - prev_start) (drop prev_start body)) mtu p;
              (rest, p) = h264_payload_loop body mtu (start + len) p
          in (out @ rest, p)
      | None \<Rightarrow> h264_emit (drop prev_start body) mtu p)"
  by pat_completeness auto
termination
  by (relation "measure (\<lambda>(body, mtu, prev_start, p). length body - prev_start)") (auto intro: next_ind_less)

declare h264_payload_loop.simps [simp del]

definition h264_payload :: "nat \<Rightarrow> bytes \<Rightarrow> h264_payloader \<Rightarrow> bytes list \<times> h264_payloader" where
  "h264_payload mtu body p =
     (if body = [] \<or> mtu = 0 then ([], p)
      else case next_ind body 0 of
          None \<Rightarrow> h264_emit body mtu p
        | Some (start, len) \<Rightarrow> h264_payload_loop body mtu (start + len) p)"

section \<open>The depacketizer\<close>

record h264_packet =
  is_avc :: bool
  fua_buffer :: "bytes option"

definition h264_packet_default :: h264_packet where
  "h264_packet_default = \<lparr>is_avc = False, fua_buffer = None\<rparr>"

definition unit_prefix :: "bool \<Rightarrow> nat \<Rightarrow> bytes" where
  "unit_prefix avc len = (if avc then put_u32 (word_of_nat len) else ANNEXB_NALUSTART_CODE)"

function stapa_loop :: "bool \<Rightarrow> bytes \<Rightarrow> nat \<Rightarrow> bytes \<Rightarrow> (rtp_error + bytes) option" where
  "stapa_loop avc packet curr_offset payload =
     (if curr_offset < length packet then
        if curr_offset + 1 \<ge> length packet then None
        else
          let nalu_size = unat (packet ! curr_offset) * 256 + unat (packet ! (curr_offset + 1));
              curr_offset = curr_offset + STAPA_NALU_LENGTH_SIZE
          in if length packet < curr_offset + nalu_size
             then Some (Inl (StapASizeLargerThanBuffer nalu_size (length packet - curr_offset)))
             else stapa_loop avc packet (curr_offset + nalu_size)
                    (payload @ unit_prefix avc nalu_size @ take nalu_size (drop curr_offset packet))
      else Some (Inr payload))"
  by pat_completeness auto
termination
  by (relation "measure (\<lambda>(_, packet, curr_offset, _). length packet - curr_offset)")
    (auto simp: STAPA_NALU_LENGTH_SIZE_def)

declare stapa_loop.simps [simp del]

definition h264_depacketize :: "bytes \<Rightarrow> h264_packet \<Rightarrow> ((rtp_error + bytes) \<times> h264_packet) option" where
  "h264_depacketize packet p =
     (if length packet \<le> 1 then Some (Inl ErrShortPacket, p)
      else
        let b0 = packet ! 0; nalu_type = b0 AND NALU_TYPE_BITMASK
        in if length packet \<le> 2 \<and> nalu_type \<noteq> AUD_NALU_TYPE then Some (Inl ErrShortPacket, p)
           else if 1 \<le> nalu_type \<and> nalu_type \<le> 23
           then Some (Inr (unit_prefix (is_avc p) (length packet) @ packet), p)
           else if nalu_type = STAPA_NALU_TYPE
           then map_option (\<lambda>r. (r, p)) (stapa_loop (is_avc p) packet STAPA_HEADER_SIZE [])
           else if nalu_type = FUA_NALU_TYPE then
             if length packet < FUA_HEADER_SIZE then Some (Inl ErrShortPacket, p)
             else
               let buffer = (case fua_buffer p of None \<Rightarrow> [] | Some b \<Rightarrow> b) @ drop FUA_HEADER_SIZE packet;
                   b1 = packet ! 1
               in if b1 AND FU_END_BITMASK \<noteq> 0
                  then
                    let nalu_ref_idc = b0 AND NALU_REF_IDC_BITMASK;
                        fragmented_nalu_type = b1 AND NALU_TYPE_BITMASK
                    in Some (Inr (unit_prefix (is_avc p) (length buffer + 1) @
                              [nalu_ref_idc OR fragmented_nalu_type] @ buffer), p\<lparr>fua_buffer := None\<rparr>)
                  else Some (Inr [], p\<lparr>fua_buffer := Some buffer\<rparr>)
           else Some (Inl (NaluTypeIsNotHandled nalu_type), p))"

definition h264_is_partition_head :: "bytes \<Rightarrow> bool" where
  "h264_is_partition_head payload \<longleftrightarrow>
     length payload \<ge> 2 \<and>
     (if payload ! 0 AND NALU_TYPE_BITMASK = FUA_NALU_TYPE \<or> payload ! 0 AND NALU_TYPE_BITMASK = FUB_NALU_TYPE
      then payload ! 1 AND FU_START_BITMASK \<noteq> 0 else True)"

definition h264_is_partition_tail :: "bool \<Rightarrow> bytes \<Rightarrow> bool" where
  "h264_is_partition_tail marker payload = marker"

section \<open>Reassembly\<close>

fun h264_depacketize_all :: "bytes list \<Rightarrow> h264_packet \<Rightarrow> ((rtp_error + bytes) list \<times> h264_packet) option" where
  "h264_depacketize_all [] p = Some ([], p)"
| "h264_depacketize_all (packet # packets) p =
     do { (r, p) \<leftarrow> h264_depacketize packet p; (rs, p) \<leftarrow> h264_depacketize_all packets p; Some (r # rs, p) }"

lemma h264_depacketize_all_append:
  "h264_depacketize_all (xs @ ys) p =
     do { (rs, p) \<leftarrow> h264_depacketize_all xs p; (rs', p) \<leftarrow> h264_depacketize_all ys p; Some (rs @ rs', p) }"
  by (induction xs arbitrary: p) (auto simp: split_beta split: Option.bind_splits)

lemmas nalu_masks = NALU_TYPE_BITMASK_def NALU_REF_IDC_BITMASK_def FU_START_BITMASK_def FU_END_BITMASK_def
lemmas nalu_types = STAPA_NALU_TYPE_def FUA_NALU_TYPE_def FUB_NALU_TYPE_def SPS_NALU_TYPE_def PPS_NALU_TYPE_def
  AUD_NALU_TYPE_def FILLER_NALU_TYPE_def

text \<open>The header byte of a unit from its reference number and type, the first bit being zero.\<close>

lemma nalu_header_split:
  assumes "(h :: u8) AND 0x80 = 0"
  shows "(h AND 0x60) OR (h AND 0x1F) = h"
proof -
  have "(0x80 OR 0x60 OR 0x1F :: u8) = - 1" by simp
  then have "h = h AND (0x80 OR 0x60 OR 0x1F)" by (simp only: and.right_neutral)
  also have "\<dots> = (h AND 0x80) OR (h AND 0x60) OR (h AND 0x1F)" by (simp only: bit.conj_disj_distrib)
  finally show ?thesis using assms by simp
qed

definition fua_fragment :: "u8 \<Rightarrow> bool \<Rightarrow> bytes \<Rightarrow> bool" where
  "fua_fragment h is_last f \<longleftrightarrow>
     3 \<le> length f \<and> f ! 0 AND 0x1F = 28 \<and> f ! 0 AND 0x60 = h AND 0x60 \<and> f ! 1 AND 0x1F = h AND 0x1F \<and>
     (f ! 1 AND 0x40 \<noteq> 0 \<longleftrightarrow> is_last)"

lemma depacketize_fragment:
  assumes "fua_fragment h is_last f"
  shows "h264_depacketize f p =
    (let buffer = (case fua_buffer p of None \<Rightarrow> [] | Some b \<Rightarrow> b) @ drop 2 f
     in Some (if is_last
        then (Inr (unit_prefix (is_avc p) (length buffer + 1) @ [(h AND 0x60) OR (h AND 0x1F)] @ buffer), p\<lparr>fua_buffer := None\<rparr>)
        else (Inr [], p\<lparr>fua_buffer := Some buffer\<rparr>)))"
  using assms by (auto simp: h264_depacketize_def fua_fragment_def nalu_masks nalu_types FUA_HEADER_SIZE_def Let_def)

text \<open>What a fragmentation of units promises, and what the depacketizer makes of its fragments.\<close>

locale fua_fragmenter =
  fixes fragments :: "bytes \<Rightarrow> bytes list"
    and good :: "bytes \<Rightarrow> bool"
  assumes fragments_nonempty: "good nalu \<Longrightarrow> nalu \<noteq> [] \<and> fragments nalu \<noteq> []"
    and fragments_inner: "good nalu \<Longrightarrow> f \<in> set (butlast (fragments nalu)) \<Longrightarrow> fua_fragment (hd nalu) False f"
    and fragments_last: "good nalu \<Longrightarrow> fua_fragment (hd nalu) True (last (fragments nalu))"
    and fragments_body: "good nalu \<Longrightarrow> concat (map (drop 2) (fragments nalu)) = tl nalu"
begin

lemma collect_fragments:
  assumes "fs \<noteq> []" "\<And>f. f \<in> set (butlast fs) \<Longrightarrow> fua_fragment h False f" "fua_fragment h True (last fs)"
    and "buffer = (case fua_buffer p of None \<Rightarrow> [] | Some b \<Rightarrow> b) @ concat (map (drop 2) fs)"
  shows "h264_depacketize_all fs p = Some (replicate (length fs - 1) (Inr []) @
    [Inr (unit_prefix (is_avc p) (length buffer + 1) @ [(h AND 0x60) OR (h AND 0x1F)] @ buffer)], p\<lparr>fua_buffer := None\<rparr>)"
  using assms
proof (induction fs arbitrary: p)
  case (Cons f fs)
  show ?case
  proof (cases "fs = []")
    case True
    with Cons.prems show ?thesis by (simp add: depacketize_fragment)
  next
    case False
    then have f: "fua_fragment h False f" and fs: "\<And>f. f \<in> set (butlast fs) \<Longrightarrow> fua_fragment h False f" "fua_fragment h True (last fs)"
      using Cons.prems(2,3) by auto
    let ?p = "p\<lparr>fua_buffer := Some ((case fua_buffer p of None \<Rightarrow> [] | Some b \<Rightarrow> b) @ drop 2 f)\<rparr>"
    have "length (f # fs) - 1 = Suc (length fs - 1)" using False by (cases fs) auto
    with Cons.IH [of ?p, OF False fs] Cons.prems(4) show ?thesis
      by (simp add: depacketize_fragment [OF f]) (metis replicate_Suc)
  qed
qed simp

lemma reassembled:
  assumes "good nalu" "hd nalu AND 0x80 = 0" "fua_buffer p = None"
  shows "h264_depacketize_all (fragments nalu) p =
    Some (replicate (length (fragments nalu) - 1) (Inr []) @ [Inr (unit_prefix (is_avc p) (length nalu) @ nalu)], p)"
proof -
  have "hd nalu # tl nalu = nalu" using fragments_nonempty [OF assms(1)] by simp
  then show ?thesis
    using collect_fragments [OF _ fragments_inner [OF assms(1)] fragments_last [OF assms(1)], of "tl nalu" p]
      fragments_nonempty [OF assms(1)] fragments_body [OF assms(1)] nalu_header_split [OF assms(2)] assms(3)
    by simp
qed

end

section \<open>Fragments of the payloader\<close>

lemma fua_loop_rest:
  assumes "0 < n" "h AND 0x1F = t" "h AND 0x60 = r" "bs \<noteq> []"
  shows "fua_loop n r t False bs \<noteq> []" "concat (map (drop 2) (fua_loop n r t False bs)) = bs"
    "\<And>f. f \<in> set (butlast (fua_loop n r t False bs)) \<Longrightarrow> fua_fragment h False f"
    "fua_fragment h True (last (fua_loop n r t False bs))"
proof -
  have "fua_loop n r t False bs \<noteq> [] \<and> concat (map (drop 2) (fua_loop n r t False bs)) = bs \<and>
      (\<forall>f \<in> set (butlast (fua_loop n r t False bs)). fua_fragment h False f) \<and>
      fua_fragment h True (last (fua_loop n r t False bs))"
    using assms(4)
  proof (induction "length bs" arbitrary: bs rule: less_induct)
    case less
    have bits: "(FUA_NALU_TYPE OR r) AND 0x1F = 28" "(FUA_NALU_TYPE OR r) AND 0x60 = h AND 0x60" "t AND 0x1F = h AND 0x1F"
        "t AND 0x40 = 0" "(t OR 0x40) AND 0x1F = h AND 0x1F" "(t OR 0x40) AND 0x40 = 0x40"
      by (simp_all add: FUA_NALU_TYPE_def bit.conj_disj_distrib2 and.assoc flip: assms(2,3))
    show ?case
    proof (cases "length bs \<le> n")
      case True
      then have "fua_loop n r t False bs = [(FUA_NALU_TYPE OR r) # (t OR 0x40) # bs]"
        using less.prems assms(1) by (subst fua_loop.simps) (simp add: Let_def fua_loop.simps [of _ _ _ _ "[]"])
      with bits less.prems show ?thesis by (cases bs) (simp_all add: fua_fragment_def)
    next
      case False
      then have eq: "fua_loop n r t False bs = ((FUA_NALU_TYPE OR r) # t # take n bs) # fua_loop n r t False (drop n bs)"
        using less.prems assms(1) by (subst fua_loop.simps) (simp add: Let_def)
      have "drop n bs \<noteq> []" "length (drop n bs) < length bs" using False assms(1) less.prems by auto
      from less.hyps [OF this(2,1)] False bits assms(1) show ?thesis
        by (auto simp: eq fua_fragment_def)
    qed
  qed
  then show "fua_loop n r t False bs \<noteq> []" "concat (map (drop 2) (fua_loop n r t False bs)) = bs"
    "\<And>f. f \<in> set (butlast (fua_loop n r t False bs)) \<Longrightarrow> fua_fragment h False f"
    "fua_fragment h True (last (fua_loop n r t False bs))" by auto
qed

definition payloader_fragments :: "nat \<Rightarrow> bytes \<Rightarrow> bytes list" where
  "payloader_fragments mtu nalu =
     fua_loop (mtu - FUA_HEADER_SIZE) (hd nalu AND NALU_REF_IDC_BITMASK) (hd nalu AND NALU_TYPE_BITMASK) True (tl nalu)"

lemma payloader_fragments_eq:
  assumes "3 \<le> mtu" "mtu < length nalu"
  shows "payloader_fragments mtu nalu =
    ((FUA_NALU_TYPE OR (hd nalu AND 0x60)) # ((hd nalu AND 0x1F) OR 0x80) # take (mtu - 2) (tl nalu)) #
    fua_loop (mtu - 2) (hd nalu AND 0x60) (hd nalu AND 0x1F) False (drop (mtu - 2) (tl nalu))"
  using assms unfolding payloader_fragments_def nalu_masks FUA_HEADER_SIZE_def
  by (subst fua_loop.simps) (cases nalu, auto simp: Let_def)

interpretation payloader_fua: fua_fragmenter "payloader_fragments mtu" "\<lambda>nalu. 3 \<le> mtu \<and> mtu < length nalu" for mtu
proof
  fix nalu f :: bytes
  assume good: "3 \<le> mtu \<and> mtu < length nalu"
  let ?h = "hd nalu" and ?rest = "drop (mtu - 2) (tl nalu)"
  have "0 < mtu - 2" "?rest \<noteq> []" using good by auto
  note rest = fua_loop_rest [where h = ?h, OF this(1) refl refl this(2)]
  have bits: "(FUA_NALU_TYPE OR (?h AND 0x60)) AND 0x1F = 28" "(FUA_NALU_TYPE OR (?h AND 0x60)) AND 0x60 = ?h AND 0x60"
      "((?h AND 0x1F) OR 0x80) AND 0x1F = ?h AND 0x1F" "((?h AND 0x1F) OR 0x80) AND 0x40 = 0"
    by (simp_all add: FUA_NALU_TYPE_def bit.conj_disj_distrib2 and.assoc)
  note eq = payloader_fragments_eq [OF conjunct1 [OF good] conjunct2 [OF good]]
  show "nalu \<noteq> [] \<and> payloader_fragments mtu nalu \<noteq> []" using good by (auto simp: eq)
  show "fua_fragment ?h True (last (payloader_fragments mtu nalu))" using rest by (simp add: eq)
  show "concat (map (drop 2) (payloader_fragments mtu nalu)) = tl nalu" using rest by (simp add: eq)
  show "fua_fragment ?h False f" if "f \<in> set (butlast (payloader_fragments mtu nalu))"
    using that rest good bits by (auto simp: eq fua_fragment_def)
qed

end
