(* ===== verification/Rtp_Vp8.thy ===== *)
theory Rtp_Vp8
  imports Rtp_Packet
begin

text \<open>
  VP8 over RTP: \<^verbatim>\<open>rtc-patched/rtc-rtp/src/codec/vp8/mod.rs\<close>. The payloader cuts a frame into fragments, each behind a payload
  descriptor that says whether it is the first, with an optional picture number; the depacketizer reads the descriptor and
  gives the rest of the packet. What several fragmentations of frames promise is the interface \<open>vp8_fragmenter\<close>.

  \<open>None\<close> is a panic.
\<close>

section \<open>The payloader\<close>

definition VP8_HEADER_SIZE :: nat where "VP8_HEADER_SIZE = 1"

record vp8_payloader =
  enable_picture_id :: bool
  vp_picture_id :: u16

definition vp8_payloader_default :: vp8_payloader where
  "vp8_payloader_default = \<lparr>enable_picture_id = False, vp_picture_id = 0\<rparr>"

definition using_header_size :: "vp8_payloader \<Rightarrow> nat" where
  "using_header_size p =
     (if enable_picture_id p
      then if vp_picture_id p = 0 \<or> vp_picture_id p < 128 then VP8_HEADER_SIZE + 2 else VP8_HEADER_SIZE + 3
      else VP8_HEADER_SIZE)"

text \<open>The first \<open>using_header_size\<close> bytes of the buffer of four.\<close>

definition vp8_header :: "vp8_payloader \<Rightarrow> bool \<Rightarrow> bytes" where
  "vp8_header p first =
     (let b0 = (if first then 0x10 else 0) :: u8;
          buf = (if enable_picture_id p
                 then if using_header_size p = VP8_HEADER_SIZE + 2
                      then [b0 OR 0x80, 0x80, ucast (vp_picture_id p AND 0x7F), 0]
                      else if using_header_size p = VP8_HEADER_SIZE + 3
                      then [b0 OR 0x80, 0x80, 0x80 OR ucast (drop_bit 8 (vp_picture_id p) AND 0x7F), ucast (vp_picture_id p AND 0xFF)]
                      else [b0, 0, 0, 0]
                 else [b0, 0, 0, 0])
      in take (using_header_size p) buf)"

function vp8_loop :: "(bool \<Rightarrow> bytes) \<Rightarrow> nat \<Rightarrow> bool \<Rightarrow> bytes \<Rightarrow> bytes list" where
  "vp8_loop header max_fragment_size first remaining =
     (if remaining = [] \<or> max_fragment_size = 0 then []
      else
        let current_fragment_size = min max_fragment_size (length remaining)
        in (header first @ take current_fragment_size remaining) #
           vp8_loop header max_fragment_size False (drop current_fragment_size remaining))"
  by pat_completeness auto
termination
  by (relation "measure (\<lambda>(_, _, _, remaining). length remaining)") auto

declare vp8_loop.simps [simp del]

text \<open>The picture number is incremented in sixteen bits, which panics on overflow, and cut to fifteen.\<close>

definition vp8_payload :: "nat \<Rightarrow> bytes \<Rightarrow> vp8_payloader \<Rightarrow> (bytes list \<times> vp8_payloader) option" where
  "vp8_payload mtu frame p =
     (if frame = [] \<or> mtu = 0 then Some ([], p)
      else if min (int mtu - int (using_header_size p)) (int (length frame)) \<le> 0 then Some ([], p)
      else
        let payloads = vp8_loop (vp8_header p) (mtu - using_header_size p) True frame
        in do { n \<leftarrow> checked_add (vp_picture_id p) 1; Some (payloads, p\<lparr>vp_picture_id := n AND 0x7FFF\<rparr>) })"

section \<open>The depacketizer\<close>

record vp8_packet =
  vp_x :: u8
  vp_n :: u8
  vp_s :: u8
  vp_pid :: u8
  vp_i :: u8
  vp_l :: u8
  vp_t :: u8
  vp_k :: u8
  vp_packet_picture_id :: u16
  vp_tl0_pic_idx :: u8
  vp_tid :: u8
  vp_y :: u8
  vp_key_idx :: u8

definition vp8_packet_default :: vp8_packet where
  "vp8_packet_default =
     \<lparr>vp_x = 0, vp_n = 0, vp_s = 0, vp_pid = 0, vp_i = 0, vp_l = 0, vp_t = 0, vp_k = 0,
      vp_packet_picture_id = 0, vp_tl0_pic_idx = 0, vp_tid = 0, vp_y = 0, vp_key_idx = 0\<rparr>"

text \<open>The parts of the descriptor, each with the reader; the number of bytes read is the difference of lengths.\<close>

definition read_required :: "bytes \<Rightarrow> vp8_packet \<Rightarrow> (vp8_packet \<times> bytes) option" where
  "read_required bs p = do {
     (b, bs) \<leftarrow> get_byte bs;
     Some (p\<lparr>vp_x := drop_bit 7 (b AND 0x80), vp_n := drop_bit 5 (b AND 0x20), vp_s := drop_bit 4 (b AND 0x10),
             vp_pid := b AND 0x07\<rparr>, bs) }"

definition read_extended :: "bytes \<Rightarrow> vp8_packet \<Rightarrow> (vp8_packet \<times> bytes) option" where
  "read_extended bs p =
     (if vp_x p = 1 then do {
        (b, bs) \<leftarrow> get_byte bs;
        Some (p\<lparr>vp_i := drop_bit 7 (b AND 0x80), vp_l := drop_bit 6 (b AND 0x40), vp_t := drop_bit 5 (b AND 0x20),
                vp_k := drop_bit 4 (b AND 0x10)\<rparr>, bs) }
      else Some (p, bs))"

definition read_picture_id :: "bytes \<Rightarrow> vp8_packet \<Rightarrow> (vp8_packet \<times> bytes) option" where
  "read_picture_id bs p =
     (if vp_i p = 1 then do {
        (b, bs) \<leftarrow> get_byte bs;
        if b AND 0x80 > 0
        then do {
          (b', bs) \<leftarrow> get_byte bs;
          Some (p\<lparr>vp_packet_picture_id := push_bit 8 (ucast (b AND 0x7F)) OR ucast b'\<rparr>, bs) }
        else Some (p\<lparr>vp_packet_picture_id := ucast b\<rparr>, bs) }
      else Some (p, bs))"

definition read_tl0 :: "bytes \<Rightarrow> vp8_packet \<Rightarrow> (vp8_packet \<times> bytes) option" where
  "read_tl0 bs p =
     (if vp_l p = 1 then do { (b, bs) \<leftarrow> get_byte bs; Some (p\<lparr>vp_tl0_pic_idx := b\<rparr>, bs) } else Some (p, bs))"

definition read_tid_key :: "bytes \<Rightarrow> vp8_packet \<Rightarrow> (vp8_packet \<times> bytes) option" where
  "read_tid_key bs p =
     (if vp_t p = 1 \<or> vp_k p = 1 then do {
        (b, bs) \<leftarrow> get_byte bs;
        let p = (if vp_t p = 1 then p\<lparr>vp_tid := drop_bit 6 b, vp_y := drop_bit 5 b AND 1\<rparr> else p);
            p = (if vp_k p = 1 then p\<lparr>vp_key_idx := b AND 0x1F\<rparr> else p)
        in Some (p, bs) }
      else Some (p, bs))"

definition vp8_depacketize :: "bytes \<Rightarrow> vp8_packet \<Rightarrow> ((rtp_error + bytes) \<times> vp8_packet) option" where
  "vp8_depacketize packet p =
     (if length packet < 4 then Some (Inl ErrShortPacket, p)
      else do {
        (p, bs) \<leftarrow> read_required packet p;
        (p, bs) \<leftarrow> read_extended bs p;
        (p, bs) \<leftarrow> read_picture_id bs p;
        if bs = [] then Some (Inl ErrShortPacket, p)
        else do {
          (p, bs) \<leftarrow> read_tl0 bs p;
          if bs = [] then Some (Inl ErrShortPacket, p)
          else do {
            (p, bs) \<leftarrow> read_tid_key bs p;
            if bs = [] then Some (Inl ErrShortPacket, p) else Some (Inr bs, p) } } })"

definition vp8_is_partition_head :: "bytes \<Rightarrow> bool" where
  "vp8_is_partition_head packet \<longleftrightarrow> packet \<noteq> [] \<and> packet ! 0 AND 0x10 \<noteq> 0"

definition vp8_is_partition_tail :: "bool \<Rightarrow> bytes \<Rightarrow> bool" where
  "vp8_is_partition_tail marker packet = marker"

lemmas vp8_read_defs = read_required_def read_extended_def read_picture_id_def read_tl0_def read_tid_key_def

text \<open>Whatever arrives, and whatever was read before, reading a descriptor does not panic.\<close>

lemma get_byte_Some: "bs \<noteq> [] \<Longrightarrow> get_byte bs = Some (hd bs, tl bs)"
  by (cases bs) auto

lemma read_parts_total:
  "bs \<noteq> [] \<Longrightarrow> \<exists>p'. read_required bs p = Some (p', tl bs)"
  "bs \<noteq> [] \<Longrightarrow> \<exists>p' bs'. read_extended bs p = Some (p', bs') \<and> length bs - 1 \<le> length bs'"
  "2 \<le> length bs \<Longrightarrow> \<exists>p' bs'. read_picture_id bs p = Some (p', bs')"
  "bs \<noteq> [] \<Longrightarrow> \<exists>p' bs'. read_tl0 bs p = Some (p', bs')"
  "bs \<noteq> [] \<Longrightarrow> \<exists>p' bs'. read_tid_key bs p = Some (p', bs')"
proof -
  show "\<exists>p'. read_required bs p = Some (p', tl bs)" if "bs \<noteq> []" using that by (simp add: read_required_def get_byte_Some)
  show "\<exists>p' bs'. read_extended bs p = Some (p', bs') \<and> length bs - 1 \<le> length bs'" if "bs \<noteq> []"
    using that by (simp add: read_extended_def get_byte_Some)
  show "\<exists>p' bs'. read_picture_id bs p = Some (p', bs')" if "2 \<le> length bs"
  proof -
    have "bs \<noteq> []" "tl bs \<noteq> []" using that by (cases bs; force)+
    then show ?thesis by (simp add: read_picture_id_def get_byte_Some)
  qed
  show "\<exists>p' bs'. read_tl0 bs p = Some (p', bs')" if "bs \<noteq> []" using that by (simp add: read_tl0_def get_byte_Some)
  show "\<exists>p' bs'. read_tid_key bs p = Some (p', bs')" if "bs \<noteq> []"
    using that by (simp add: read_tid_key_def get_byte_Some Let_def)
qed

lemma vp8_depacketize_total: "vp8_depacketize packet p \<noteq> None"
proof (cases "length packet < 4")
  case False
  then have packet: "packet \<noteq> []" by auto
  obtain p1 where 1: "read_required packet p = Some (p1, tl packet)" using read_parts_total(1) [OF packet] by blast
  have "tl packet \<noteq> []" using False by (cases packet) auto
  then obtain p2 bs2 where 2: "read_extended (tl packet) p1 = Some (p2, bs2)" "2 \<le> length bs2"
    using read_parts_total(2) [of "tl packet" p1] False by auto
  obtain p3 bs3 where 3: "read_picture_id bs2 p2 = Some (p3, bs3)" using read_parts_total(3) [OF 2(2)] by blast
  show ?thesis
  proof (cases "bs3 = []")
    case True
    then show ?thesis using False by (simp add: vp8_depacketize_def 1 2(1) 3)
  next
    case bs3: False
    then obtain p4 bs4 where 4: "read_tl0 bs3 p3 = Some (p4, bs4)" using read_parts_total(4) by blast
    show ?thesis
    proof (cases "bs4 = []")
      case True
      then show ?thesis using False bs3 by (simp add: vp8_depacketize_def 1 2(1) 3 4)
    next
      case bs4: False
      then obtain p5 bs5 where 5: "read_tid_key bs4 p4 = Some (p5, bs5)" using read_parts_total(5) by blast
      then show ?thesis using False bs3 bs4 by (simp add: vp8_depacketize_def 1 2(1) 3 4)
    qed
  qed
qed (simp add: vp8_depacketize_def)

section \<open>Fragments of a frame\<close>

text \<open>
  What the fragmentations of VP8 frames promise: the depacketizer, in a state that the fragments keep, gives the body of each
  fragment; the bodies make up the frame; and only the first fragment has the start bit.
\<close>

locale vp8_fragmenter =
  fixes fragments :: "bytes \<Rightarrow> bytes list"
    and body :: "bytes \<Rightarrow> bytes"
    and good :: "bytes \<Rightarrow> bool"
    and ready :: "vp8_packet \<Rightarrow> bool"
  assumes fragment_parsed:
      "good frame \<Longrightarrow> f \<in> set (fragments frame) \<Longrightarrow> ready p \<Longrightarrow> \<exists>p'. vp8_depacketize f p = Some (Inr (body f), p') \<and> ready p'"
    and fragment_bodies: "good frame \<Longrightarrow> concat (map body (fragments frame)) = frame"
    and fragment_starts: "good frame \<Longrightarrow> fragments frame \<noteq> [] \<and>
      map vp8_is_partition_head (fragments frame) = True # replicate (length (fragments frame) - 1) False"

lemma vp8_loop_rest:
  assumes "0 < n"
  shows
    "concat (map (drop (length (h False))) (vp8_loop h n False bs)) = bs"
    "\<And>f. f \<in> set (vp8_loop h n False bs) \<Longrightarrow> \<exists>c. f = h False @ c \<and> c \<noteq> [] \<and> length c \<le> n"
proof -
  have "concat (map (drop (length (h False))) (vp8_loop h n False bs)) = bs \<and>
      (\<forall>f \<in> set (vp8_loop h n False bs). \<exists>c. f = h False @ c \<and> c \<noteq> [] \<and> length c \<le> n)"
  proof (induction "length bs" arbitrary: bs rule: less_induct)
    case less
    show ?case
    proof (cases "bs = []")
      case False
      have eq: "vp8_loop h n False bs = (h False @ take n bs) # vp8_loop h n False (drop n bs)"
        using False assms by (subst vp8_loop.simps) (auto simp: Let_def min_def)
      have "length (drop n bs) < length bs" using False assms by simp
      from less.hyps [OF this] False assms show ?thesis by (auto simp: eq)
    qed (simp add: vp8_loop.simps)
  qed
  then show "concat (map (drop (length (h False))) (vp8_loop h n False bs)) = bs"
    "\<And>f. f \<in> set (vp8_loop h n False bs) \<Longrightarrow> \<exists>c. f = h False @ c \<and> c \<noteq> [] \<and> length c \<le> n" by auto
qed

lemma vp8_loop_first:
  "0 < n \<Longrightarrow> bs \<noteq> [] \<Longrightarrow> vp8_loop h n True bs = (h True @ take n bs) # vp8_loop h n False (drop n bs)"
  by (subst vp8_loop.simps) (auto simp: Let_def min_def)

text \<open>A descriptor with a picture number is read the same way in every state.\<close>

definition pictured :: "bytes \<Rightarrow> bool" where
  "pictured d \<longleftrightarrow>
     (length d = 3 \<and> d ! 0 AND 0x80 = 0x80 \<and> d ! 1 = 0x80 \<and> d ! 2 AND 0x80 = 0) \<or>
     (length d = 4 \<and> d ! 0 AND 0x80 = 0x80 \<and> d ! 1 = 0x80 \<and> d ! 2 AND 0x80 = 0x80)"

lemma pictured_cases:
  assumes "pictured d"
  obtains (seven) b0 n where "d = [b0, 0x80, n]" "b0 AND 0x80 = 0x80" "n AND 0x80 = 0"
  | (fifteen) b0 hi lo where "d = [b0, 0x80, hi, lo]" "b0 AND 0x80 = 0x80" "hi AND 0x80 = 0x80"
proof (cases "length d = 3")
  case True
  then obtain b0 b1 n where "d = [b0, b1, n]" by (auto simp: length_Suc_conv numeral_3_eq_3)
  with assms show ?thesis by (intro seven [of b0 n]) (auto simp: pictured_def)
next
  case False
  with assms obtain b0 b1 hi lo where "d = [b0, b1, hi, lo]" by (auto simp: pictured_def length_Suc_conv eval_nat_numeral)
  with assms show ?thesis by (intro fifteen [of b0 hi lo]) (auto simp: pictured_def)
qed

lemma x_bit: "drop_bit 7 (b :: u8) AND 1 = drop_bit 7 (b AND 0x80)"
  by simp

lemma pictured_parsed:
  assumes "pictured d" "c \<noteq> []"
  shows "\<exists>p'. vp8_depacketize (d @ c) p = Some (Inr c, p')"
  using assms(1)
proof (cases rule: pictured_cases)
  case (seven b0 n)
  then have "drop_bit 7 b0 AND 1 = 1" by (simp only: x_bit) simp
  with seven show ?thesis using assms(2)
    by (cases c) (simp_all add: vp8_depacketize_def vp8_read_defs)
next
  case (fifteen b0 hi lo)
  then have "drop_bit 7 b0 AND 1 = 1" by (simp only: x_bit) simp
  with fifteen show ?thesis using assms(2)
    by (cases c) (simp_all add: vp8_depacketize_def vp8_read_defs)
qed

text \<open>A descriptor of one byte is read right in a state without extension bits, and only before three bytes or more.\<close>

definition no_extension :: "vp8_packet \<Rightarrow> bool" where
  "no_extension p \<longleftrightarrow> vp_i p = 0 \<and> vp_l p = 0 \<and> vp_t p = 0 \<and> vp_k p = 0"

lemma plain_parsed:
  assumes "no_extension p" "b0 AND 0x80 = 0" "3 \<le> length c"
  shows "\<exists>p'. vp8_depacketize (b0 # c) p = Some (Inr c, p') \<and> no_extension p'"
proof -
  have "c \<noteq> []" using assms(3) by auto
  moreover have "drop_bit 7 b0 AND 1 = 0" using assms(2) by (simp only: x_bit) simp
  ultimately show ?thesis using assms
    by (simp add: vp8_depacketize_def vp8_read_defs no_extension_def)
qed

lemma vp8_header_pictured:
  assumes "enable_picture_id p"
  shows "pictured (vp8_header p first)" "length (vp8_header p first) = using_header_size p"
    "vp8_header p first ! 0 AND 0x10 \<noteq> 0 \<longleftrightarrow> first"
proof -
  show "length (vp8_header p first) = using_header_size p"
    by (simp add: vp8_header_def using_header_size_def VP8_HEADER_SIZE_def Let_def)
  have "ucast (w AND 0x7F :: u16) AND (0x80 :: u8) = 0" for w
    by (simp add: unsigned_and_eq and.assoc)
  then show "pictured (vp8_header p first)"
    using assms by (simp add: vp8_header_def using_header_size_def VP8_HEADER_SIZE_def Let_def pictured_def bit.conj_disj_distrib2)
  show "vp8_header p first ! 0 AND 0x10 \<noteq> 0 \<longleftrightarrow> first"
    using assms by (simp add: vp8_header_def using_header_size_def VP8_HEADER_SIZE_def Let_def)
qed

definition payloader_vp8_fragments :: "nat \<Rightarrow> vp8_payloader \<Rightarrow> bytes \<Rightarrow> bytes list" where
  "payloader_vp8_fragments mtu p frame = vp8_loop (vp8_header p) (mtu - using_header_size p) True frame"

lemma vp8_payload_eq:
  assumes "frame \<noteq> []" "using_header_size p < mtu" "vp_picture_id p < 0x8000"
  shows "vp8_payload mtu frame p = Some (payloader_vp8_fragments mtu p frame, p\<lparr>vp_picture_id := (vp_picture_id p + 1) AND 0x7FFF\<rparr>)"
proof -
  have "unat (vp_picture_id p) < 0x8000" using assms(3) by (simp add: word_less_nat_alt)
  then have "checked_add (vp_picture_id p) 1 = Some (vp_picture_id p + 1)" by (simp add: checked_add_def)
  with assms(1,2) show ?thesis by (simp add: vp8_payload_def payloader_vp8_fragments_def min_le_iff_disj)
qed

text \<open>The fragments of a frame behind descriptors with picture numbers, for any loop that has this shape.\<close>

lemma pictured_fragments:
  assumes "0 < n" "frame \<noteq> []" "pictured (h True)" "pictured (h False)" "length (h True) = k" "length (h False) = k"
    and "vp8_is_partition_head (h True)" "\<not> vp8_is_partition_head (h False)"
  defines "fs \<equiv> vp8_loop h n True frame"
  shows "f \<in> set fs \<Longrightarrow> \<exists>p'. vp8_depacketize f p = Some (Inr (drop k f), p')"
    and "concat (map (drop k) fs) = frame"
    and "fs \<noteq> [] \<and> map vp8_is_partition_head fs = True # replicate (length fs - 1) False"
    and "f \<in> set fs \<Longrightarrow> length f \<le> k + n"
proof -
  let ?rest = "vp8_loop h n False (drop n frame)"
  have fs: "fs = (h True @ take n frame) # ?rest" using vp8_loop_first [OF assms(1,2)] by (simp add: fs_def)
  note rest = vp8_loop_rest [where h = h and bs = "drop n frame", OF assms(1), unfolded assms(6)]
  have head: "vp8_is_partition_head (d @ c) = vp8_is_partition_head d" if "pictured d" for d c
    using that by (auto simp: vp8_is_partition_head_def pictured_def nth_append)
  have "take n frame \<noteq> []" using assms(1,2) by simp
  then show "\<exists>p'. vp8_depacketize f p = Some (Inr (drop k f), p')" if "f \<in> set fs"
    using that rest(2) pictured_parsed [OF assms(3)] pictured_parsed [OF assms(4)] assms(5,6) by (fastforce simp: fs)
  show "concat (map (drop k) fs) = frame" using rest(1) assms(5) by (simp add: fs)
  have "map vp8_is_partition_head ?rest = replicate (length ?rest) False"
    using rest(2) head [OF assms(4)] assms(8) by (intro map_replicate_const [THEN trans [rotated]] map_cong refl) fastforce
  then show "fs \<noteq> [] \<and> map vp8_is_partition_head fs = True # replicate (length fs - 1) False"
    using head [OF assms(3)] assms(7) by (simp add: fs)
  show "length f \<le> k + n" if "f \<in> set fs" using that rest(2) assms(5,6) by (fastforce simp: fs)
qed

lemma payloader_pictured_fragments:
  assumes "enable_picture_id p" "using_header_size p < mtu" "frame \<noteq> []"
  shows "f \<in> set (payloader_vp8_fragments mtu p frame) \<Longrightarrow> \<exists>q'. vp8_depacketize f q = Some (Inr (drop (using_header_size p) f), q')"
    and "concat (map (drop (using_header_size p)) (payloader_vp8_fragments mtu p frame)) = frame"
    and "payloader_vp8_fragments mtu p frame \<noteq> [] \<and>
      map vp8_is_partition_head (payloader_vp8_fragments mtu p frame) = True # replicate (length (payloader_vp8_fragments mtu p frame) - 1) False"
    and "f \<in> set (payloader_vp8_fragments mtu p frame) \<Longrightarrow> length f \<le> mtu"
proof -
  have "vp8_header p b \<noteq> []" for b using vp8_header_pictured(2) [OF assms(1), of b]
    by (auto simp: using_header_size_def VP8_HEADER_SIZE_def split: if_splits)
  then have "vp8_is_partition_head (vp8_header p True)" "\<not> vp8_is_partition_head (vp8_header p False)"
    using vp8_header_pictured(3) [OF assms(1)] by (simp_all add: vp8_is_partition_head_def)
  note fragments = pictured_fragments [OF _ assms(3) vp8_header_pictured(1) [OF assms(1)] vp8_header_pictured(1) [OF assms(1)]
      vp8_header_pictured(2) [OF assms(1)] vp8_header_pictured(2) [OF assms(1)] this,
      where n = "mtu - using_header_size p", folded payloader_vp8_fragments_def]
  show "\<exists>q'. vp8_depacketize f q = Some (Inr (drop (using_header_size p) f), q')" if "f \<in> set (payloader_vp8_fragments mtu p frame)"
    using fragments(1) that assms(2) by simp
  show "concat (map (drop (using_header_size p)) (payloader_vp8_fragments mtu p frame)) = frame"
    using fragments(2) assms(2) by simp
  show "payloader_vp8_fragments mtu p frame \<noteq> [] \<and>
      map vp8_is_partition_head (payloader_vp8_fragments mtu p frame) = True # replicate (length (payloader_vp8_fragments mtu p frame) - 1) False"
    using fragments(3) assms(2) by simp
  show "length f \<le> mtu" if "f \<in> set (payloader_vp8_fragments mtu p frame)" using fragments(4) that assms(2) by fastforce
qed

interpretation pictured_payloader: vp8_fragmenter "payloader_vp8_fragments mtu p" "drop (using_header_size p)"
    "\<lambda>frame. enable_picture_id p \<and> using_header_size p < mtu \<and> frame \<noteq> []" "\<lambda>_. True" for mtu p
  by unfold_locales (auto dest: payloader_pictured_fragments(1,2) simp: payloader_pictured_fragments(2,3))

text \<open>Without picture numbers the depacketizer refuses a fragment that carries fewer than three bytes.\<close>

lemma short_fragment_refused:
  assumes "\<not> enable_picture_id p" "length c < 3"
  shows "vp8_depacketize (vp8_header p first @ c) q = Some (Inl ErrShortPacket, q)"
  using assms by (simp add: vp8_header_def using_header_size_def VP8_HEADER_SIZE_def Let_def vp8_depacketize_def)

text \<open>The bits of an earlier descriptor are used for a packet that has no extension: its first byte is taken for a picture
  number.\<close>

lemma stale_extension_bits:
  assumes "b0 AND 0x80 = 0" "vp_i p = 1" "vp_l p = 0" "vp_t p = 0" "vp_k p = 0" "c AND 0x80 = 0" "2 \<le> length cs"
  shows "\<exists>p'. vp8_depacketize (b0 # c # cs) p = Some (Inr cs, p')"
proof -
  have "cs \<noteq> []" using assms(7) by auto
  moreover have "drop_bit 7 b0 AND 1 = 0" using assms(1) by (simp only: x_bit) simp
  ultimately show ?thesis using assms by (simp add: vp8_depacketize_def vp8_read_defs)
qed

end
