(* ===== verification/Rtp_Send.thy ===== *)
theory Rtp_Send
  imports Rtp_H264 Rtp_Vp8 Decimal
begin

text \<open>
  Sending media: \<^verbatim>\<open>libwebrtc/src/ohos/rtp_packetizer.rs\<close> cuts encoded H.264, VP8 and Opus frames into RTP payloads, and
  \<^verbatim>\<open>libwebrtc/src/ohos/rtp_send_pipeline.rs\<close> numbers them and hands them to the driver, which wraps each in an RTP packet
  (\<^verbatim>\<open>rtc_io_driver.rs\<close>).

  The driver's command channel is a log of the commands accepted so far, the number of calls, and a function that says whether the
  \<open>n\<close>-th call finds the channel open. Strings are lists of bytes read as characters. \<open>None\<close> is a panic.
\<close>

section \<open>Fragments\<close>

definition MAX_RTP_PAYLOAD_SIZE :: nat where "MAX_RTP_PAYLOAD_SIZE = 1200"
definition H264_NAL_TYPE_FU_A :: u8 where "H264_NAL_TYPE_FU_A = 28"

record rtp_fragment =
  fr_payload :: bytes
  fr_marker :: bool

subsection \<open>H.264\<close>

text \<open>The length of the start code at a position, zero when there is none.\<close>

definition start_code_len :: "bytes \<Rightarrow> nat \<Rightarrow> nat" where
  "start_code_len data i =
     (if i + 2 < length data \<and> data ! i = 0 \<and> data ! (i + 1) = 0
      then if data ! (i + 2) = 1 then 3
           else if i + 3 < length data \<and> data ! (i + 2) = 0 \<and> data ! (i + 3) = 1 then 4
           else 0
      else 0)"

function split_loop :: "bytes \<Rightarrow> nat \<Rightarrow> nat option \<Rightarrow> bytes list" where
  "split_loop data i nalu_start =
     (if i < length data
      then if start_code_len data i > 0
           then (case nalu_start of
                   Some start \<Rightarrow> if start < i then [take (i - start) (drop start data)] else []
                 | None \<Rightarrow> []) @
                split_loop data (i + start_code_len data i) (Some (i + start_code_len data i))
           else split_loop data (i + 1) nalu_start
      else (case nalu_start of
              Some start \<Rightarrow> if start < length data then [drop start data] else []
            | None \<Rightarrow> []))"
  by pat_completeness auto
termination
  by (relation "measure (\<lambda>(data, i, _). length data - i)") auto

declare split_loop.simps [simp del]

definition split_annexb_nalus :: "bytes \<Rightarrow> bytes list" where
  "split_annexb_nalus data =
     (let nalus = split_loop data 0 None in if nalus = [] \<and> data \<noteq> [] then [data] else nalus)"

definition is_picture_nalu :: "bytes \<Rightarrow> bool" where
  "is_picture_nalu nalu \<longleftrightarrow> nalu \<noteq> [] \<and> 1 \<le> hd nalu AND 0x1F \<and> hd nalu AND 0x1F \<le> 5"

definition find_last_picture_nalu :: "bytes list \<Rightarrow> nat option" where
  "find_last_picture_nalu nalus =
     map_option fst (find (\<lambda>(idx, nalu). is_picture_nalu nalu) (rev (enumerate 0 nalus)))"

function fua_fragment_loop :: "u8 \<Rightarrow> u8 \<Rightarrow> bool \<Rightarrow> bool \<Rightarrow> bytes \<Rightarrow> rtp_fragment list" where
  "fua_fragment_loop fu_indicator nalu_type is_last_picture_of_frame is_first remaining =
     (if remaining = [] then []
      else
        let chunk = min (length remaining) (MAX_RTP_PAYLOAD_SIZE - 2);
            is_last = (chunk \<ge> length remaining);
            fu_header = nalu_type;
            fu_header = (if is_first then fu_header OR 0x80 else fu_header);
            fu_header = (if is_last then fu_header OR 0x40 else fu_header)
        in \<lparr>fr_payload = fu_indicator # fu_header # take chunk remaining, fr_marker = is_last \<and> is_last_picture_of_frame\<rparr> #
           fua_fragment_loop fu_indicator nalu_type is_last_picture_of_frame False (drop chunk remaining))"
  by pat_completeness auto
termination
  by (relation "measure (\<lambda>(_, _, _, _, remaining). length remaining)") (auto simp: MAX_RTP_PAYLOAD_SIZE_def)

declare fua_fragment_loop.simps [simp del]

text \<open>Only called for a unit that does not fit into a packet, so that the unit has a first byte.\<close>

definition pack_h264_fua :: "bytes \<Rightarrow> bool \<Rightarrow> rtp_fragment list" where
  "pack_h264_fua nalu is_last_picture_of_frame =
     (let nalu_header = hd nalu;
          nri = nalu_header AND 0xE0;
          nalu_type = nalu_header AND 0x1F
      in fua_fragment_loop (nri OR H264_NAL_TYPE_FU_A) nalu_type is_last_picture_of_frame True (tl nalu))"

definition pack_h264_nalu :: "bytes \<Rightarrow> bool \<Rightarrow> rtp_fragment list" where
  "pack_h264_nalu nalu is_last_picture =
     (if nalu = [] then []
      else if length nalu \<le> MAX_RTP_PAYLOAD_SIZE then [\<lparr>fr_payload = nalu, fr_marker = is_last_picture\<rparr>]
      else pack_h264_fua nalu is_last_picture)"

definition pack_h264_frame :: "bytes \<Rightarrow> rtp_fragment list" where
  "pack_h264_frame annexb_data =
     (let nalus = split_annexb_nalus annexb_data
      in if nalus = [] then []
         else concat (map (\<lambda>(idx, nalu). pack_h264_nalu nalu (Some idx = find_last_picture_nalu nalus)) (enumerate 0 nalus)))"

subsection \<open>VP8\<close>

definition vp8_descriptor :: "u16 \<Rightarrow> bool \<Rightarrow> bytes" where
  "vp8_descriptor picture_id is_first =
     (let n_bit = 0x00;
          first_byte = 0x90 OR n_bit;
          cont_first_byte = first_byte AND NOT 0x10;
          b0 = (if is_first then first_byte else cont_first_byte)
      in if picture_id < 128 then [b0, 0x80, ucast picture_id]
         else [b0, 0x80, 0x80 OR (ucast (drop_bit 8 picture_id) AND 0x7F), ucast picture_id])"

definition vp8_descriptor_size :: "u16 \<Rightarrow> nat" where
  "vp8_descriptor_size picture_id = (if picture_id < 128 then 3 else 4)"

function vp8_fragment_loop :: "u16 \<Rightarrow> bool \<Rightarrow> bytes \<Rightarrow> rtp_fragment list" where
  "vp8_fragment_loop picture_id is_first remaining =
     (if remaining = [] then []
      else
        let chunk = min (length remaining) (MAX_RTP_PAYLOAD_SIZE - vp8_descriptor_size picture_id);
            is_last = (chunk \<ge> length remaining)
        in \<lparr>fr_payload = vp8_descriptor picture_id is_first @ take chunk remaining, fr_marker = is_last\<rparr> #
           vp8_fragment_loop picture_id False (drop chunk remaining))"
  by pat_completeness auto
termination
  by (relation "measure (\<lambda>(_, _, remaining). length remaining)") (auto simp: MAX_RTP_PAYLOAD_SIZE_def vp8_descriptor_size_def)

declare vp8_fragment_loop.simps [simp del]

text \<open>The key frame flag is not used.\<close>

definition pack_vp8_frame :: "bytes \<Rightarrow> bool \<Rightarrow> u16 \<Rightarrow> rtp_fragment list" where
  "pack_vp8_frame vp8_data is_key_frame picture_id =
     (if vp8_data = [] then [] else vp8_fragment_loop picture_id True vp8_data)"

subsection \<open>Opus\<close>

definition pack_opus_frame :: "bytes \<Rightarrow> rtp_fragment" where
  "pack_opus_frame opus_data = \<lparr>fr_payload = opus_data, fr_marker = True\<rparr>"

section \<open>Packets\<close>

record rtp_packet_data =
  pd_payload_type :: u8
  pd_sequence_number :: u16
  pd_timestamp :: u32
  pd_ssrc :: u32
  pd_marker :: bool
  pd_payload :: bytes

fun fragments_to_packets :: "rtp_fragment list \<Rightarrow> u8 \<Rightarrow> u32 \<Rightarrow> u32 \<Rightarrow> u16 \<Rightarrow> rtp_packet_data list \<times> u16" where
  "fragments_to_packets [] payload_type ssrc timestamp seq = ([], seq)"
| "fragments_to_packets (frag # fragments) payload_type ssrc timestamp seq =
     (let seq = seq + 1;
          (packets, seq') = fragments_to_packets fragments payload_type ssrc timestamp seq
      in (\<lparr>pd_payload_type = payload_type, pd_sequence_number = seq, pd_timestamp = timestamp, pd_ssrc = ssrc,
           pd_marker = fr_marker frag, pd_payload = fr_payload frag\<rparr> # packets, seq'))"

section \<open>The send pipeline\<close>

datatype control_command = WriteRtp string rtp_packet_data

record cmd_channel =
  cc_sent :: "control_command list"
  cc_calls :: nat
  cc_open :: "nat \<Rightarrow> bool"

datatype rtc_error = RtcInternal string

record rtp_send_pipeline =
  sp_track_id :: string
  sp_ssrc :: u32
  sp_payload_type :: u8
  sp_payload_type_vp8 :: u8
  sp_vp8_picture_id :: u16
  sp_clock_rate :: u32
  sp_sequence_number :: u16
  sp_cmd_tx :: cmd_channel
  sp_send_fail_count :: u32

text \<open>The nanoseconds of the current second give the first sequence number.\<close>

definition random_initial_seq :: "u32 \<Rightarrow> u16" where
  "random_initial_seq nanos = ucast (nanos AND 0xFFFF)"

definition send_pipeline_new :: "u32 \<Rightarrow> string \<Rightarrow> u32 \<Rightarrow> u8 \<Rightarrow> u8 \<Rightarrow> u32 \<Rightarrow> cmd_channel \<Rightarrow> rtp_send_pipeline" where
  "send_pipeline_new nanos track_id ssrc payload_type payload_type_vp8 clock_rate cmd_tx =
     \<lparr>sp_track_id = track_id, sp_ssrc = ssrc, sp_payload_type = payload_type, sp_payload_type_vp8 = payload_type_vp8,
      sp_vp8_picture_id = 0, sp_clock_rate = clock_rate, sp_sequence_number = random_initial_seq nanos,
      sp_cmd_tx = cmd_tx, sp_send_fail_count = 0\<rparr>"

definition ms_to_rtp_timestamp :: "u64 \<Rightarrow> u32 \<Rightarrow> u32" where
  "ms_to_rtp_timestamp timestamp_ms clock_rate =
     word_of_nat (min (unat timestamp_ms * unat clock_rate) (2 ^ 64 - 1) div 1000)"

definition driver_closed :: "string \<Rightarrow> u32 \<Rightarrow> rtc_error" where
  "driver_closed track_id failures =
     RtcInternal (''rtc-io driver closed (track='' @ track_id @ '', failures='' @ decimal (unat failures) @ '')'')"

definition send_rtp_packet :: "rtp_packet_data \<Rightarrow> rtp_send_pipeline \<Rightarrow> ((rtc_error + unit) \<times> rtp_send_pipeline) option" where
  "send_rtp_packet packet p =
     (let ch = sp_cmd_tx p; ch' = ch\<lparr>cc_calls := cc_calls ch + 1\<rparr>
      in if cc_open ch (cc_calls ch)
         then Some (Inr (), p\<lparr>sp_cmd_tx := ch'\<lparr>cc_sent := cc_sent ch @ [WriteRtp (sp_track_id p) packet]\<rparr>\<rparr>)
         else do {
           n \<leftarrow> checked_add (sp_send_fail_count p) 1;
           Some (Inl (driver_closed (sp_track_id p) n), p\<lparr>sp_cmd_tx := ch', sp_send_fail_count := n\<rparr>) })"

fun send_rtp_packets :: "rtp_packet_data list \<Rightarrow> rtp_send_pipeline \<Rightarrow> ((rtc_error + unit) \<times> rtp_send_pipeline) option" where
  "send_rtp_packets [] p = Some (Inr (), p)"
| "send_rtp_packets (pkt # packets) p = do {
     (r, p) \<leftarrow> send_rtp_packet pkt p;
     case r of Inl e \<Rightarrow> Some (Inl e, p) | Inr _ \<Rightarrow> send_rtp_packets packets p }"

definition ascii_uppercase :: "string \<Rightarrow> string" where
  "ascii_uppercase s = map (\<lambda>c. if 97 \<le> (of_char c :: nat) \<and> (of_char c :: nat) \<le> 122 then char_of ((of_char c :: nat) - 32) else c) s"

text \<open>The payload type and the fragments for a codec, with the picture number counted up for VP8.\<close>

definition packetize_video ::
    "bytes \<Rightarrow> string \<Rightarrow> bool \<Rightarrow> rtp_send_pipeline \<Rightarrow> (rtc_error + (u8 \<times> rtp_fragment list) \<times> rtp_send_pipeline) option" where
  "packetize_video data codec is_key_frame p =
     (let upper = ascii_uppercase codec
      in if upper = ''H264'' then Some (Inr ((sp_payload_type p, pack_h264_frame data), p))
         else if upper = ''VP8'' then do {
           n \<leftarrow> checked_add (sp_vp8_picture_id p) 1;
           Some (Inr ((sp_payload_type_vp8 p, pack_vp8_frame data is_key_frame (sp_vp8_picture_id p)),
                      p\<lparr>sp_vp8_picture_id := n AND 0x7FFF\<rparr>)) }
         else Some (Inl (RtcInternal (''unsupported video codec: '' @ upper))))"

definition send_encoded_video ::
    "bytes \<Rightarrow> u64 \<Rightarrow> string \<Rightarrow> bool \<Rightarrow> rtp_send_pipeline \<Rightarrow> ((rtc_error + u32) \<times> rtp_send_pipeline) option" where
  "send_encoded_video data timestamp_ms codec is_key_frame p = do {
     r \<leftarrow> packetize_video data codec is_key_frame p;
     case r of
       Inl e \<Rightarrow> Some (Inl e, p)
     | Inr ((pt, fragments), p) \<Rightarrow>
         if fragments = [] then Some (Inr 0, p)
         else
           let rtp_ts = ms_to_rtp_timestamp timestamp_ms (sp_clock_rate p);
               (packets, seq) = fragments_to_packets fragments pt (sp_ssrc p) rtp_ts (sp_sequence_number p);
               p = p\<lparr>sp_sequence_number := seq\<rparr>
           in do {
             (r, p) \<leftarrow> send_rtp_packets packets p;
             Some (case r of Inl e \<Rightarrow> Inl e | Inr _ \<Rightarrow> Inr (word_of_nat (length packets)), p) } }"

definition send_encoded_audio :: "bytes \<Rightarrow> u64 \<Rightarrow> rtp_send_pipeline \<Rightarrow> ((rtc_error + unit) \<times> rtp_send_pipeline) option" where
  "send_encoded_audio data timestamp_ms p =
     (let rtp_ts = ms_to_rtp_timestamp timestamp_ms (sp_clock_rate p);
          p = p\<lparr>sp_sequence_number := sp_sequence_number p + 1\<rparr>
      in send_rtp_packet
           \<lparr>pd_payload_type = sp_payload_type p, pd_sequence_number = sp_sequence_number p, pd_timestamp = rtp_ts,
            pd_ssrc = sp_ssrc p, pd_marker = True, pd_payload = data\<rparr> p)"

section \<open>The driver\<close>

text \<open>The RTP packet that the driver makes, under the stream number its connection has for the track, and the packet it hands to a
  track's receiver.\<close>

definition rtp_packet_of :: "u32 \<Rightarrow> rtp_packet_data \<Rightarrow> rtp_packet" where
  "rtp_packet_of ssrc packet_data =
     \<lparr>rp_header = \<lparr>rh_version = 2, rh_padding = False, rh_extension = False, rh_marker = pd_marker packet_data,
        rh_payload_type = pd_payload_type packet_data, rh_sequence_number = pd_sequence_number packet_data,
        rh_timestamp = pd_timestamp packet_data, rh_ssrc = ssrc, rh_csrc = [], rh_extension_profile = 0, rh_extensions = [],
        rh_extensions_padding = 0\<rparr>,
      rp_payload = pd_payload packet_data\<rparr>"

record received_rtp_packet =
  rr_track_id :: string
  rr_payload_type :: u8
  rr_sequence_number :: u16
  rr_timestamp :: u32
  rr_ssrc :: u32
  rr_marker :: bool
  rr_payload :: bytes

definition received_of :: "string \<Rightarrow> rtp_packet \<Rightarrow> received_rtp_packet" where
  "received_of track_id packet =
     \<lparr>rr_track_id = track_id, rr_payload_type = rh_payload_type (rp_header packet),
      rr_sequence_number = rh_sequence_number (rp_header packet), rr_timestamp = rh_timestamp (rp_header packet),
      rr_ssrc = rh_ssrc (rp_header packet), rr_marker = rh_marker (rp_header packet), rr_payload = rp_payload packet\<rparr>"

section \<open>Splitting a byte stream into units\<close>

text \<open>A byte stream of units, and what H.264 demands of a unit: no start code inside and a last byte that is not zero.\<close>

definition annexb :: "bytes list \<Rightarrow> bytes" where
  "annexb nalus = concat (map (\<lambda>nalu. [0, 0, 0, 1] @ nalu) nalus)"

definition start_free :: "bytes \<Rightarrow> bool" where
  "start_free nalu \<longleftrightarrow> nalu \<noteq> [] \<and> last nalu \<noteq> 0 \<and>
     list_all (\<lambda>i. \<not> (nalu ! i = 0 \<and> nalu ! (i + 1) = 0 \<and> (nalu ! (i + 2) = 0 \<or> nalu ! (i + 2) = 1))) [0..<length nalu - 2]"

lemma split_loop_skip:
  assumes "\<And>k. i \<le> k \<Longrightarrow> k < i + m \<Longrightarrow> start_code_len data k = 0" "i + m \<le> length data"
  shows "split_loop data i st = split_loop data (i + m) st"
  using assms
proof (induction m arbitrary: i)
  case (Suc m)
  have "split_loop data i st = split_loop data (i + 1) st"
    using Suc.prems(1) [of i] Suc.prems(2) by (subst split_loop.simps) simp
  also have "\<dots> = split_loop data (i + 1 + m) st" using Suc.prems by (intro Suc.IH) auto
  finally show ?case by simp
qed simp

lemma start_free_codes:
  assumes "start_free nalu" "length pre \<le> k" "k < length pre + length nalu"
  shows "start_code_len (pre @ nalu @ post) k = 0"
proof -
  define j where "j = k - length pre"
  have j: "k = length pre + j" "j < length nalu" using assms(2,3) by (auto simp: j_def)
  have nth: "(pre @ nalu @ post) ! (length pre + m) = nalu ! m" if "m < length nalu" for m
    using that by (simp add: nth_append)
  have last: "nalu ! (length nalu - 1) \<noteq> 0" using assms(1) by (auto simp: start_free_def last_conv_nth)
  consider "j + 2 < length nalu" | "j + 2 = length nalu" | "j + 1 = length nalu" using j(2) by linarith
  then show ?thesis
  proof cases
    case 1
    then have "\<not> (nalu ! j = 0 \<and> nalu ! (j + 1) = 0 \<and> (nalu ! (j + 2) = 0 \<or> nalu ! (j + 2) = 1))"
      using assms(1) by (auto simp: start_free_def list_all_iff)
    then show ?thesis using nth [of j] nth [of "j + 1"] nth [of "j + 2"] 1 by (auto simp: start_code_len_def j(1) add.assoc)
  next
    case 2
    then have "length nalu - 1 = j + 1" by linarith
    then show ?thesis using nth [of "j + 1"] 2 last by (auto simp: start_code_len_def j(1) add.assoc)
  next
    case 3
    then have "length nalu - 1 = j" by linarith
    then show ?thesis using nth [of j] 3 last by (auto simp: start_code_len_def j(1))
  qed
qed

lemma split_loop_annexb:
  assumes "list_all start_free nalus" "case st of None \<Rightarrow> True | Some s \<Rightarrow> s < length pre"
  shows "split_loop (pre @ annexb nalus) (length pre) st =
    (case st of None \<Rightarrow> [] | Some s \<Rightarrow> [drop s pre]) @ nalus"
  using assms
proof (induction nalus arbitrary: pre st)
  case Nil
  then show ?case by (subst split_loop.simps) (auto simp: annexb_def split: option.splits)
next
  case (Cons n ns)
  let ?data = "pre @ annexb (n # ns)" and ?pre = "pre @ [0, 0, 0, 1] @ n"
  have data: "?data = ?pre @ annexb ns" "?data = (pre @ [0, 0, 0, 1]) @ n @ annexb ns" by (simp_all add: annexb_def)
  have free: "start_free n" and n: "n \<noteq> []" using Cons.prems(1) by (auto simp: start_free_def)
  have code: "start_code_len ?data (length pre) = 4" by (simp add: start_code_len_def annexb_def nth_append)
  have more: "length pre < length ?data" by (simp add: annexb_def)
  have "split_loop ?data (length pre) st =
      (case st of None \<Rightarrow> [] | Some s \<Rightarrow> [drop s pre]) @ split_loop ?data (length pre + 4) (Some (length pre + 4))"
    using Cons.prems(2) more by (subst split_loop.simps) (simp add: code split: option.splits)
  also have "split_loop ?data (length pre + 4) (Some (length pre + 4)) =
      split_loop ?data (length pre + 4 + length n) (Some (length pre + 4))"
    using start_free_codes [OF free, of "pre @ [0, 0, 0, 1]" _ "annexb ns", folded data(2)]
    by (intro split_loop_skip) (simp_all add: data(1))
  also have "\<dots> = n # ns"
    using Cons.IH [where st = "Some (length pre + 4)" and pre = ?pre, folded data(1)] Cons.prems(1) n by (simp add: eval_nat_numeral)
  finally show ?case .
qed

lemma split_annexb:
  assumes "list_all start_free nalus"
  shows "split_annexb_nalus (annexb nalus) = nalus"
  using split_loop_annexb [OF assms, where pre = "[]" and st = None] by (auto simp: split_annexb_nalus_def annexb_def)

section \<open>Fragments of H.264 units\<close>

definition pack_fragments :: "bytes \<Rightarrow> bytes list" where
  "pack_fragments nalu = map fr_payload (pack_h264_fua nalu False)"

lemma fua_fragment_loop_payloads:
  "map fr_payload (fua_fragment_loop ind t m first bs) = map fr_payload (fua_fragment_loop ind t m' first bs)"
proof (induction "length bs" arbitrary: bs first rule: less_induct)
  case less
  show ?case
  proof (cases "bs = []")
    case False
    then have "length (drop (min (length bs) (MAX_RTP_PAYLOAD_SIZE - 2)) bs) < length bs" by (simp add: MAX_RTP_PAYLOAD_SIZE_def)
    from less.hyps [OF this] False show ?thesis
      by (subst (1 2) fua_fragment_loop.simps) (simp add: Let_def)
  qed (simp add: fua_fragment_loop.simps)
qed

lemma fua_fragment_loop_spec:
  fixes m :: bool
  assumes "bs \<noteq> []" "ind AND 0x1F = 28" "ind AND 0x60 = h AND 0x60" "h AND 0x1F = t"
    and "first \<Longrightarrow> MAX_RTP_PAYLOAD_SIZE - 2 < length bs"
  defines "fs \<equiv> map fr_payload (fua_fragment_loop ind t m first bs)"
  shows "fs \<noteq> []" "concat (map (drop 2) fs) = bs" "\<And>f. f \<in> set (butlast fs) \<Longrightarrow> fua_fragment h False f"
    "fua_fragment h True (last fs)" "\<And>f. f \<in> set fs \<Longrightarrow> length f \<le> MAX_RTP_PAYLOAD_SIZE"
proof -
  have "fs \<noteq> [] \<and> concat (map (drop 2) fs) = bs \<and> (\<forall>f \<in> set (butlast fs). fua_fragment h False f) \<and>
      fua_fragment h True (last fs) \<and> (\<forall>f \<in> set fs. length f \<le> MAX_RTP_PAYLOAD_SIZE)"
    using assms(1,5) unfolding fs_def
  proof (induction "length bs" arbitrary: bs first rule: less_induct)
    case less
    let ?n = "MAX_RTP_PAYLOAD_SIZE - 2" and ?loop = "\<lambda>first bs. map fr_payload (fua_fragment_loop ind t m first bs)"
    have n: "?n = 1198" "MAX_RTP_PAYLOAD_SIZE = 1200" by (simp_all add: MAX_RTP_PAYLOAD_SIZE_def)
    have bits: "t AND 0x1F = h AND 0x1F" "t AND 0x40 = 0" "(t OR 0x40) AND 0x1F = h AND 0x1F" "(t OR 0x40) AND 0x40 \<noteq> 0"
        "(t OR 0x80) AND 0x1F = h AND 0x1F" "(t OR 0x80) AND 0x40 = 0"
      by (simp_all add: bit.conj_disj_distrib2 and.assoc flip: assms(4))
    show ?case
    proof (cases "length bs \<le> ?n")
      case True
      then have "\<not> first" using less.prems(2) by auto
      with True have "?loop first bs = [ind # (t OR 0x40) # bs]"
        using less.prems(1) by (subst fua_fragment_loop.simps) (simp add: Let_def fua_fragment_loop.simps [of _ _ _ _ "[]"] n)
      with bits less.prems(1) assms(2,3) True show ?thesis by (cases bs) (simp_all add: fua_fragment_def n)
    next
      case False
      then have eq: "?loop first bs = (ind # (if first then t OR 0x80 else t) # take ?n bs) # ?loop False (drop ?n bs)"
        using less.prems(1) by (subst fua_fragment_loop.simps) (simp add: Let_def n min_def)
      have "length (drop ?n bs) < length bs" "drop ?n bs \<noteq> []" using False by (auto simp: n)
      define rest where "rest = ?loop False (drop ?n bs)"
      have ih: "rest \<noteq> [] \<and> concat (map (drop 2) rest) = drop ?n bs \<and> (\<forall>f \<in> set (butlast rest). fua_fragment h False f) \<and>
          fua_fragment h True (last rest) \<and> (\<forall>f \<in> set rest. length f \<le> MAX_RTP_PAYLOAD_SIZE)"
        unfolding rest_def using less.hyps [OF \<open>length (drop ?n bs) < length bs\<close> \<open>drop ?n bs \<noteq> []\<close>, of False] by blast
      have "fua_fragment h False (ind # (if first then t OR 0x80 else t) # take ?n bs)"
        using False bits assms(2,3) by (simp add: fua_fragment_def n)
      then show ?thesis using ih unfolding eq rest_def [symmetric] by (simp add: n min_def)
    qed
  qed
  then show "fs \<noteq> []" "concat (map (drop 2) fs) = bs" "\<And>f. f \<in> set (butlast fs) \<Longrightarrow> fua_fragment h False f"
    "fua_fragment h True (last fs)" "\<And>f. f \<in> set fs \<Longrightarrow> length f \<le> MAX_RTP_PAYLOAD_SIZE" by auto
qed

lemma pack_fragments_spec:
  assumes "MAX_RTP_PAYLOAD_SIZE < length nalu"
  shows "pack_fragments nalu \<noteq> []" "concat (map (drop 2) (pack_fragments nalu)) = tl nalu"
    "\<And>f. f \<in> set (butlast (pack_fragments nalu)) \<Longrightarrow> fua_fragment (hd nalu) False f"
    "fua_fragment (hd nalu) True (last (pack_fragments nalu))"
    "\<And>f. f \<in> set (pack_fragments nalu) \<Longrightarrow> length f \<le> MAX_RTP_PAYLOAD_SIZE"
proof -
  let ?ind = "(hd nalu AND 0xE0) OR H264_NAL_TYPE_FU_A"
  have "tl nalu \<noteq> []" "MAX_RTP_PAYLOAD_SIZE - 2 < length (tl nalu)"
    using assms by (cases nalu; force simp: MAX_RTP_PAYLOAD_SIZE_def)+
  moreover have "?ind AND 0x1F = 28" "?ind AND 0x60 = hd nalu AND 0x60"
    by (simp_all add: H264_NAL_TYPE_FU_A_def bit.conj_disj_distrib2 and.assoc)
  ultimately have spec: "tl nalu \<noteq> []" "?ind AND 0x1F = 28" "?ind AND 0x60 = hd nalu AND 0x60"
      "True \<Longrightarrow> MAX_RTP_PAYLOAD_SIZE - 2 < length (tl nalu)" by auto
  note spec = fua_fragment_loop_spec [OF spec(1,2,3) refl spec(4), where m = False]
  have "pack_fragments nalu = map fr_payload (fua_fragment_loop ?ind (hd nalu AND 0x1F) False True (tl nalu))"
    by (simp add: pack_fragments_def pack_h264_fua_def Let_def)
  with spec show "pack_fragments nalu \<noteq> []" "concat (map (drop 2) (pack_fragments nalu)) = tl nalu"
    "\<And>f. f \<in> set (butlast (pack_fragments nalu)) \<Longrightarrow> fua_fragment (hd nalu) False f"
    "fua_fragment (hd nalu) True (last (pack_fragments nalu))"
    "\<And>f. f \<in> set (pack_fragments nalu) \<Longrightarrow> length f \<le> MAX_RTP_PAYLOAD_SIZE" by simp_all
qed

interpretation pack_fua: fua_fragmenter pack_fragments "\<lambda>nalu. MAX_RTP_PAYLOAD_SIZE < length nalu"
  by unfold_locales (use pack_fragments_spec in \<open>auto simp: MAX_RTP_PAYLOAD_SIZE_def\<close>)

section \<open>Fragments of VP8 frames\<close>

definition pack_vp8_payloads :: "u16 \<Rightarrow> bytes \<Rightarrow> bytes list" where
  "pack_vp8_payloads picture_id frame = map fr_payload (pack_vp8_frame frame False picture_id)"

lemma vp8_descriptor_spec:
  "pictured (vp8_descriptor picture_id first)" "length (vp8_descriptor picture_id first) = vp8_descriptor_size picture_id"
  "vp8_is_partition_head (vp8_descriptor picture_id first) \<longleftrightarrow> first"
proof -
  have "ucast picture_id AND (0x80 :: u8) = 0" if "picture_id < 128"
  proof -
    have "list_all (\<lambda>n. ucast (word_of_nat n :: u16) AND (0x80 :: u8) = 0) [0..<128]" by code_simp
    moreover have "unat picture_id < 128" using that by (simp add: word_less_nat_alt)
    ultimately show ?thesis using all_below [of "\<lambda>n. ucast (word_of_nat n :: u16) AND (0x80 :: u8) = 0" 128 "unat picture_id"] by simp
  qed
  then show "pictured (vp8_descriptor picture_id first)"
    by (simp add: pictured_def vp8_descriptor_def Let_def bit.conj_disj_distrib2)
  show "length (vp8_descriptor picture_id first) = vp8_descriptor_size picture_id"
    by (simp add: vp8_descriptor_def vp8_descriptor_size_def Let_def)
  show "vp8_is_partition_head (vp8_descriptor picture_id first) \<longleftrightarrow> first"
    by (simp add: vp8_is_partition_head_def vp8_descriptor_def Let_def)
qed

lemma vp8_fragment_loop_eq:
  "map fr_payload (vp8_fragment_loop picture_id first bs) =
     vp8_loop (vp8_descriptor picture_id) (MAX_RTP_PAYLOAD_SIZE - vp8_descriptor_size picture_id) first bs"
proof (induction picture_id first bs rule: vp8_fragment_loop.induct)
  case (1 picture_id first bs)
  have n: "MAX_RTP_PAYLOAD_SIZE - vp8_descriptor_size picture_id \<noteq> 0"
    by (simp add: MAX_RTP_PAYLOAD_SIZE_def vp8_descriptor_size_def)
  show ?case
    using 1 n by (subst vp8_fragment_loop.simps, subst vp8_loop.simps) (simp add: Let_def min.commute)
qed

lemma vp8_fragment_loop_markers:
  assumes "bs \<noteq> []"
  shows "map fr_marker (vp8_fragment_loop picture_id first bs) =
    replicate (length (vp8_fragment_loop picture_id first bs) - 1) False @ [True]"
  using assms
proof (induction picture_id first bs rule: vp8_fragment_loop.induct)
  case (1 picture_id first bs)
  let ?chunk = "min (length bs) (MAX_RTP_PAYLOAD_SIZE - vp8_descriptor_size picture_id)"
  show ?case
  proof (cases "length bs \<le> ?chunk")
    case True
    with 1(2) show ?thesis
      by (subst (1 2) vp8_fragment_loop.simps) (simp add: Let_def vp8_fragment_loop.simps [of _ _ "[]"])
  next
    case False
    let ?rest = "vp8_fragment_loop picture_id False (drop ?chunk bs)"
    have "drop ?chunk bs \<noteq> []" using False by simp
    then have ih: "map fr_marker ?rest = replicate (length ?rest - 1) False @ [True]" using 1 by simp
    moreover have "length ?rest = Suc (length ?rest - 1)" using arg_cong [OF ih, of length] by simp
    ultimately show ?thesis
      using 1(2) False by (subst (1 2) vp8_fragment_loop.simps) (simp add: Let_def, metis append_Cons replicate_Suc)
  qed
qed

lemma pack_vp8_payloads_spec:
  assumes "frame \<noteq> []"
  shows "f \<in> set (pack_vp8_payloads picture_id frame) \<Longrightarrow>
      \<exists>p'. vp8_depacketize f p = Some (Inr (drop (vp8_descriptor_size picture_id) f), p')"
    and "concat (map (drop (vp8_descriptor_size picture_id)) (pack_vp8_payloads picture_id frame)) = frame"
    and "pack_vp8_payloads picture_id frame \<noteq> [] \<and> map vp8_is_partition_head (pack_vp8_payloads picture_id frame) =
      True # replicate (length (pack_vp8_payloads picture_id frame) - 1) False"
    and "f \<in> set (pack_vp8_payloads picture_id frame) \<Longrightarrow> length f \<le> MAX_RTP_PAYLOAD_SIZE"
proof -
  have n: "0 < MAX_RTP_PAYLOAD_SIZE - vp8_descriptor_size picture_id"
    "vp8_descriptor_size picture_id + (MAX_RTP_PAYLOAD_SIZE - vp8_descriptor_size picture_id) = MAX_RTP_PAYLOAD_SIZE"
    by (simp_all add: MAX_RTP_PAYLOAD_SIZE_def vp8_descriptor_size_def)
  have eq: "pack_vp8_payloads picture_id frame =
      vp8_loop (vp8_descriptor picture_id) (MAX_RTP_PAYLOAD_SIZE - vp8_descriptor_size picture_id) True frame"
    using assms by (simp add: pack_vp8_payloads_def pack_vp8_frame_def vp8_fragment_loop_eq)
  have heads: "vp8_is_partition_head (vp8_descriptor picture_id True)" "\<not> vp8_is_partition_head (vp8_descriptor picture_id False)"
    by (simp_all add: vp8_descriptor_spec(3))
  note fragments = pictured_fragments [OF n(1) assms vp8_descriptor_spec(1) vp8_descriptor_spec(1) vp8_descriptor_spec(2)
      vp8_descriptor_spec(2) heads, folded eq, unfolded n(2)]
  show "f \<in> set (pack_vp8_payloads picture_id frame) \<Longrightarrow>
      \<exists>p'. vp8_depacketize f p = Some (Inr (drop (vp8_descriptor_size picture_id) f), p')"
    "concat (map (drop (vp8_descriptor_size picture_id)) (pack_vp8_payloads picture_id frame)) = frame"
    "pack_vp8_payloads picture_id frame \<noteq> [] \<and> map vp8_is_partition_head (pack_vp8_payloads picture_id frame) =
      True # replicate (length (pack_vp8_payloads picture_id frame) - 1) False"
    "f \<in> set (pack_vp8_payloads picture_id frame) \<Longrightarrow> length f \<le> MAX_RTP_PAYLOAD_SIZE"
    by (fact fragments)+
qed

interpretation pack_vp8: vp8_fragmenter "pack_vp8_payloads picture_id" "drop (vp8_descriptor_size picture_id)"
    "\<lambda>frame. frame \<noteq> []" "\<lambda>_. True" for picture_id
  by unfold_locales (auto dest: pack_vp8_payloads_spec(1) simp: pack_vp8_payloads_spec(2,3))

section \<open>Sending\<close>

definition packets_of :: "rtp_fragment list \<Rightarrow> u8 \<Rightarrow> u32 \<Rightarrow> u32 \<Rightarrow> u16 \<Rightarrow> rtp_packet_data list" where
  "packets_of fragments pt ssrc ts seq = fst (fragments_to_packets fragments pt ssrc ts seq)"

lemma fragments_to_packets_spec:
  "map pd_payload (packets_of fragments pt ssrc ts seq) = map fr_payload fragments"
  "map pd_marker (packets_of fragments pt ssrc ts seq) = map fr_marker fragments"
  "map pd_sequence_number (packets_of fragments pt ssrc ts seq) = map (\<lambda>i. seq + word_of_nat (Suc i)) [0..<length fragments]"
  "length (packets_of fragments pt ssrc ts seq) = length fragments"
  "snd (fragments_to_packets fragments pt ssrc ts seq) = seq + word_of_nat (length fragments)"
  "\<And>q. q \<in> set (packets_of fragments pt ssrc ts seq) \<Longrightarrow> pd_payload_type q = pt \<and> pd_ssrc q = ssrc \<and> pd_timestamp q = ts"
proof -
  show "map pd_payload (packets_of fragments pt ssrc ts seq) = map fr_payload fragments"
    "map pd_marker (packets_of fragments pt ssrc ts seq) = map fr_marker fragments"
    by (induction fragments arbitrary: seq) (simp_all add: packets_of_def Let_def split_beta)
  show "map pd_sequence_number (packets_of fragments pt ssrc ts seq) = map (\<lambda>i. seq + word_of_nat (Suc i)) [0..<length fragments]"
  proof (induction fragments arbitrary: seq)
    case (Cons f fs)
    then show ?case
      by (simp add: packets_of_def Let_def split_beta upt_conv_Cons add.assoc del: upt_Suc) (simp add: map_Suc_upt [symmetric] del: upt_Suc)
  qed (simp add: packets_of_def)
  show "length (packets_of fragments pt ssrc ts seq) = length fragments"
    by (induction fragments arbitrary: seq) (simp_all add: packets_of_def Let_def split_beta)
  show "snd (fragments_to_packets fragments pt ssrc ts seq) = seq + word_of_nat (length fragments)"
    by (induction fragments arbitrary: seq) (simp_all add: Let_def split_beta)
  show "pd_payload_type q = pt \<and> pd_ssrc q = ssrc \<and> pd_timestamp q = ts" if "q \<in> set (packets_of fragments pt ssrc ts seq)" for q
    using that by (induction fragments arbitrary: seq) (auto simp: packets_of_def Let_def split_beta)
qed

lemma send_rtp_packets_open:
  assumes "\<And>n. cc_open (sp_cmd_tx p) n"
  shows "send_rtp_packets packets p = Some (Inr (), p\<lparr>sp_cmd_tx := (sp_cmd_tx p)
    \<lparr>cc_sent := cc_sent (sp_cmd_tx p) @ map (WriteRtp (sp_track_id p)) packets, cc_calls := cc_calls (sp_cmd_tx p) + length packets\<rparr>\<rparr>)"
  using assms by (induction packets arbitrary: p) (simp_all add: send_rtp_packet_def Let_def)

lemma rtp_packet_of_wire:
  assumes "pd_payload_type q < 128"
  shows "packet_marshal (rtp_packet_of ssrc q) = Some (Inr bs) \<Longrightarrow> packet_unmarshal bs = Some (Inr (rtp_packet_of ssrc q))"
    "\<exists>bs. packet_marshal (rtp_packet_of ssrc q) = Some (Inr bs)"
proof -
  have "rtp_header_wf (rp_header (rtp_packet_of ssrc q))"
    using assms by (simp add: rtp_header_wf_def rtp_packet_of_def word_less_nat_alt)
  note facts = packet_marshal_eq [OF this] packet_unmarshal_bytes [OF this]
  show "packet_marshal (rtp_packet_of ssrc q) = Some (Inr bs) \<Longrightarrow> packet_unmarshal bs = Some (Inr (rtp_packet_of ssrc q))"
    "\<exists>bs. packet_marshal (rtp_packet_of ssrc q) = Some (Inr bs)"
    using facts by auto
qed

end
