(* ===== verification/Video_Stream.thy ===== *)
theory Video_Stream
  imports Rtp_Send "HOL-Library.Sublist"
begin

text \<open>
  Receiving video: \<^verbatim>\<open>libwebrtc/src/ohos/video_stream.rs\<close>. A stream takes the RTP packets of a track, finds out the codec, puts
  units or frames together and feeds them to a decoder that it brings up at the first key frame.

  The decoders are native: whether the \<open>n\<close>-th attempt to bring one up succeeds is a parameter (\<open>decoder_env\<close>), and the calls of
  a decoder are recorded. The codec name negotiated for the track is an argument, in ASCII. \<open>None\<close> is a panic.
\<close>

section \<open>Assembling VP8 frames\<close>

record vp8_frame_assembler =
  as_parser :: vp8_packet
  as_buffer :: bytes
  as_assembling :: bool
  as_current_ts :: u32
  as_skip_until_s :: bool

definition assembler_default :: vp8_frame_assembler where
  "assembler_default =
     \<lparr>as_parser = vp8_packet_default, as_buffer = [], as_assembling = False, as_current_ts = 0, as_skip_until_s = False\<rparr>"

definition assembler_reset :: "vp8_frame_assembler \<Rightarrow> vp8_frame_assembler" where
  "assembler_reset a = a\<lparr>as_buffer := [], as_assembling := False, as_skip_until_s := True\<rparr>"

text \<open>What happens to the data of a packet once its descriptor has been read.\<close>

definition assemble :: "bytes \<Rightarrow> bool \<Rightarrow> bool \<Rightarrow> vp8_frame_assembler \<Rightarrow> bytes \<times> vp8_frame_assembler" where
  "assemble frame_data has_s_bit marker a =
     (if as_skip_until_s a \<and> \<not> has_s_bit then ([], a)
      else
        let a = a\<lparr>as_skip_until_s := False\<rparr>;
            a = (if has_s_bit then a\<lparr>as_assembling := True, as_buffer := []\<rparr> else a)
        in if as_assembling a \<or> has_s_bit
           then
             let a = a\<lparr>as_buffer := as_buffer a @ frame_data\<rparr>
             in if marker then (as_buffer a, a\<lparr>as_buffer := [], as_assembling := False\<rparr>) else ([], a)
           else (frame_data, a))"

definition assembler_feed :: "bytes \<Rightarrow> bool \<Rightarrow> vp8_frame_assembler \<Rightarrow> ((rtp_error + bytes) \<times> vp8_frame_assembler) option" where
  "assembler_feed packet marker a = do {
     (r, parser) \<leftarrow> vp8_depacketize packet (as_parser a);
     let a = a\<lparr>as_parser := parser\<rparr>
     in case r of
          Inl e \<Rightarrow> Some (Inl e, a)
        | Inr frame_data \<Rightarrow>
            let has_s_bit = (packet \<noteq> [] \<and> packet ! 0 AND 0x10 \<noteq> 0);
                (out, a) = assemble frame_data has_s_bit marker a
            in Some (Inr out, a) }"

section \<open>The stream\<close>

datatype codec_type = H264 | VP8

datatype depacketizer_type = DepH264 h264_packet | DepVP8 vp8_frame_assembler

datatype decoder_type = DecoderH264 | DecoderVP8

text \<open>A call of a decoder: the data, the time in microseconds, and for H.264 whether it can start a picture sequence.\<close>

datatype decode_call = DecodeH264 bytes nat bool | DecodeVP8 bytes nat

record decoder_env =
  de_create_h264 :: "nat \<Rightarrow> bool"
  de_start_h264 :: "nat \<Rightarrow> bool"
  de_init_vp8 :: "nat \<Rightarrow> bool"

record video_stream =
  vs_depacketizer :: depacketizer_type
  vs_decoder :: "decoder_type option"
  vs_decoder_initialized :: bool
  vs_codec_type :: "codec_type option"
  vs_last_seq :: "u16 option"
  vs_closed :: bool
  vs_attempts :: nat
  vs_calls :: "decode_call list"

definition video_stream_new :: video_stream where
  "video_stream_new =
     \<lparr>vs_depacketizer = DepH264 h264_packet_default, vs_decoder = None, vs_decoder_initialized = False, vs_codec_type = None,
      vs_last_seq = None, vs_closed = False, vs_attempts = 0, vs_calls = []\<rparr>"

definition video_stream_close :: "video_stream \<Rightarrow> video_stream" where
  "video_stream_close v = v\<lparr>vs_closed := True, vs_decoder := None\<rparr>"

subsection \<open>The codec\<close>

fun is_prefix_of :: "string \<Rightarrow> string \<Rightarrow> bool" where
  "is_prefix_of [] s = True"
| "is_prefix_of (c # cs) [] = False"
| "is_prefix_of (c # cs) (d # ds) \<longleftrightarrow> c = d \<and> is_prefix_of cs ds"

fun contains_str :: "string \<Rightarrow> string \<Rightarrow> bool" where
  "contains_str pat [] \<longleftrightarrow> pat = []"
| "contains_str pat (c # cs) \<longleftrightarrow> is_prefix_of pat (c # cs) \<or> contains_str pat cs"

definition codec_from_payload_type :: "u8 \<Rightarrow> codec_type option" where
  "codec_from_payload_type pt = (if pt = 96 then Some VP8 else if pt = 125 \<or> pt = 108 then Some H264 else None)"

definition h264_like :: "u8 \<Rightarrow> bool" where
  "h264_like first = (let nal_type = first AND 0x1F in 1 \<le> nal_type \<and> nal_type \<le> 5 \<or> nal_type = 24 \<or> nal_type = 28)"

definition use_codec :: "codec_type \<Rightarrow> video_stream \<Rightarrow> video_stream" where
  "use_codec c v =
     v\<lparr>vs_depacketizer := (case c of H264 \<Rightarrow> DepH264 h264_packet_default | VP8 \<Rightarrow> DepVP8 assembler_default),
       vs_codec_type := Some c\<rparr>"

definition detect_codec_type :: "string option \<Rightarrow> u8 \<Rightarrow> bytes \<Rightarrow> video_stream \<Rightarrow> video_stream" where
  "detect_codec_type mime payload_type packet v =
     (if vs_codec_type v \<noteq> None then v
      else
        case (case mime of
                None \<Rightarrow> None
              | Some m \<Rightarrow>
                  if contains_str ''VP8'' (ascii_uppercase m) then Some VP8
                  else if contains_str ''H264'' (ascii_uppercase m) then Some H264
                  else None) of
          Some c \<Rightarrow> use_codec c v
        | None \<Rightarrow>
            (case codec_from_payload_type payload_type of
               Some c \<Rightarrow> use_codec c v
             | None \<Rightarrow>
                 if packet \<noteq> [] then use_codec (if h264_like (packet ! 0) then H264 else VP8) v
                 else v\<lparr>vs_codec_type := Some H264\<rparr>))"

subsection \<open>Feeding the decoders\<close>

definition VIDEO_CLOCK_RATE :: nat where "VIDEO_CLOCK_RATE = 90000"

definition timestamp_us :: "u32 \<Rightarrow> nat" where
  "timestamp_us rtp_timestamp = unat rtp_timestamp * 1000000 div VIDEO_CLOCK_RATE"

function idr_loop :: "bytes \<Rightarrow> nat \<Rightarrow> bool" where
  "idr_loop data i =
     (if i + 3 < length data
      then
        let three_byte = (data ! i = 0 \<and> data ! (i + 1) = 0 \<and> data ! (i + 2) = 1);
            four_byte = (data ! i = 0 \<and> data ! (i + 1) = 0 \<and> data ! (i + 2) = 0 \<and> data ! (i + 3) = 1)
        in if four_byte then i + 4 < length data \<and> data ! (i + 4) AND 0x1F = 5 \<or> idr_loop data (i + 4)
           else if three_byte then data ! (i + 3) AND 0x1F = 5 \<or> idr_loop data (i + 3)
           else idr_loop data (i + 1)
      else False)"
  by pat_completeness auto
termination
  by (relation "measure (\<lambda>(data, i). length data - i)") auto

declare idr_loop.simps [simp del]

definition annexb_contains_idr :: "bytes \<Rightarrow> bool" where
  "annexb_contains_idr data = idr_loop data 0"

definition nal_header_idx :: "bytes \<Rightarrow> nat" where
  "nal_header_idx data =
     (if length data \<ge> 4 \<and> data ! 0 = 0 \<and> data ! 1 = 0 \<and> data ! 2 = 0 \<and> data ! 3 = 1 then 4
      else if length data \<ge> 3 \<and> data ! 0 = 0 \<and> data ! 1 = 0 \<and> data ! 2 = 1 then 3
      else 0)"

definition first_nal_type :: "bytes \<Rightarrow> u8" where
  "first_nal_type data = (if nal_header_idx data < length data then data ! nal_header_idx data AND 0x1F else 0)"

definition h264_is_key :: "bytes \<Rightarrow> bool" where
  "h264_is_key data \<longleftrightarrow>
     first_nal_type data = 5 \<or> first_nal_type data = 7 \<or> first_nal_type data = 8 \<or> annexb_contains_idr data"

text \<open>Bringing up a decoder at a key frame: the stream afterwards, and whether to go on.\<close>

definition ensure_h264 :: "decoder_env \<Rightarrow> bool \<Rightarrow> video_stream \<Rightarrow> bool \<times> video_stream" where
  "ensure_h264 env is_key v =
     (if vs_decoder_initialized v then (True, v)
      else if \<not> is_key then (False, v)
      else
        let n = vs_attempts v; v = v\<lparr>vs_attempts := n + 1\<rparr>
        in if \<not> de_create_h264 env n \<or> \<not> de_start_h264 env n then (False, v)
           else (True, v\<lparr>vs_decoder := Some DecoderH264, vs_decoder_initialized := True\<rparr>))"

definition feed_h264_decoder :: "decoder_env \<Rightarrow> bytes \<Rightarrow> u32 \<Rightarrow> video_stream \<Rightarrow> video_stream" where
  "feed_h264_decoder env data rtp_timestamp v =
     (let (go, v) = ensure_h264 env (h264_is_key data) v
      in if go \<and> vs_decoder v = Some DecoderH264
         then v\<lparr>vs_calls := vs_calls v @ [DecodeH264 data (timestamp_us rtp_timestamp) (h264_is_key data)]\<rparr>
         else v)"

definition vp8_is_key :: "bytes \<Rightarrow> bool" where
  "vp8_is_key vp8_data \<longleftrightarrow> vp8_data \<noteq> [] \<and> vp8_data ! 0 AND 0x01 = 0"

definition ensure_vp8 :: "decoder_env \<Rightarrow> bool \<Rightarrow> video_stream \<Rightarrow> bool \<times> video_stream" where
  "ensure_vp8 env is_key v =
     (if vs_decoder_initialized v then (True, v)
      else if \<not> is_key then (False, v)
      else
        let n = vs_attempts v; v = v\<lparr>vs_attempts := n + 1\<rparr>
        in if \<not> de_init_vp8 env n then (False, v)
           else (True, v\<lparr>vs_decoder := Some DecoderVP8, vs_decoder_initialized := True\<rparr>))"

definition feed_vp8_decoder :: "decoder_env \<Rightarrow> bytes \<Rightarrow> u32 \<Rightarrow> video_stream \<Rightarrow> video_stream" where
  "feed_vp8_decoder env vp8_data rtp_timestamp v =
     (let (go, v) = ensure_vp8 env (vp8_is_key vp8_data) v
      in if go \<and> vs_decoder v = Some DecoderVP8
         then v\<lparr>vs_calls := vs_calls v @ [DecodeVP8 vp8_data (timestamp_us rtp_timestamp)]\<rparr>
         else v)"

definition feed_decoder :: "decoder_env \<Rightarrow> bytes \<Rightarrow> u32 \<Rightarrow> video_stream \<Rightarrow> video_stream" where
  "feed_decoder env frame_data rtp_timestamp v =
     (case vs_codec_type v of
        None \<Rightarrow> v
      | Some H264 \<Rightarrow> feed_h264_decoder env frame_data rtp_timestamp v
      | Some VP8 \<Rightarrow> feed_vp8_decoder env frame_data rtp_timestamp v)"

subsection \<open>A packet\<close>

text \<open>A gap in the sequence numbers resets the assembler of VP8 frames.\<close>

definition note_sequence :: "u16 \<Rightarrow> video_stream \<Rightarrow> video_stream" where
  "note_sequence seq v =
     (let v = (case vs_last_seq v of
                 Some last_seq \<Rightarrow>
                   if seq \<noteq> last_seq + 1
                   then (case vs_depacketizer v of
                           DepVP8 a \<Rightarrow> v\<lparr>vs_depacketizer := DepVP8 (assembler_reset a)\<rparr>
                         | DepH264 _ \<Rightarrow> v)
                   else v
               | None \<Rightarrow> v)
      in v\<lparr>vs_last_seq := Some seq\<rparr>)"

definition stream_depacketize :: "bytes \<Rightarrow> bool \<Rightarrow> video_stream \<Rightarrow> ((rtp_error + bytes) \<times> video_stream) option" where
  "stream_depacketize packet marker v =
     (case vs_depacketizer v of
        DepH264 dep \<Rightarrow> map_option (\<lambda>(r, dep). (r, v\<lparr>vs_depacketizer := DepH264 dep\<rparr>)) (h264_depacketize packet dep)
      | DepVP8 dep \<Rightarrow> map_option (\<lambda>(r, dep). (r, v\<lparr>vs_depacketizer := DepVP8 dep\<rparr>)) (assembler_feed packet marker dep))"

text \<open>After an error of the H.264 depacketizer on a packet that does not look like H.264, the packet is tried as VP8.\<close>

definition switch_to_vp8 :: "decoder_env \<Rightarrow> received_rtp_packet \<Rightarrow> video_stream \<Rightarrow> video_stream option" where
  "switch_to_vp8 env pkt v =
     (let v = (use_codec VP8 v)\<lparr>vs_decoder := None, vs_decoder_initialized := False\<rparr>
      in do {
        (r, v) \<leftarrow> stream_depacketize (rr_payload pkt) (rr_marker pkt) v;
        Some (case r of
                Inr frame_data \<Rightarrow> if frame_data \<noteq> [] then feed_decoder env frame_data (rr_timestamp pkt) v else v
              | Inl _ \<Rightarrow> v) })"

definition process_rtp_packet :: "decoder_env \<Rightarrow> string option \<Rightarrow> received_rtp_packet \<Rightarrow> video_stream \<Rightarrow> video_stream option" where
  "process_rtp_packet env mime pkt v =
     (let v = note_sequence (rr_sequence_number pkt) (detect_codec_type mime (rr_payload_type pkt) (rr_payload pkt) v)
      in if rr_payload pkt = [] then Some v
         else do {
           (r, v) \<leftarrow> stream_depacketize (rr_payload pkt) (rr_marker pkt) v;
           case r of
             Inr frame_data \<Rightarrow> Some (if frame_data \<noteq> [] then feed_decoder env frame_data (rr_timestamp pkt) v else v)
           | Inl e \<Rightarrow>
               if vs_codec_type v = Some H264 \<and> \<not> h264_like (rr_payload pkt ! 0) then switch_to_vp8 env pkt v
               else Some v })"

fun process_rtp_packets :: "decoder_env \<Rightarrow> string option \<Rightarrow> received_rtp_packet list \<Rightarrow> video_stream \<Rightarrow> video_stream option" where
  "process_rtp_packets env mime [] v = Some v"
| "process_rtp_packets env mime (pkt # pkts) v = Option.bind (process_rtp_packet env mime pkt v) (process_rtp_packets env mime pkts)"

section \<open>A train of VP8 packets\<close>

text \<open>
  A received packet with what it means: the part of the frame in it, and the frame it belongs to. In a train the packets are numbered
  consecutively; \<open>pre\<close> is what the earlier packets of the current frame carried, and a packet has the start bit exactly when there
  are none, the marker only when it completes its frame.
\<close>

record train_item =
  ti_packet :: received_rtp_packet
  ti_body :: bytes
  ti_frame :: bytes

definition item_ok :: "train_item \<Rightarrow> bool" where
  "item_ok t \<longleftrightarrow> rr_payload (ti_packet t) \<noteq> [] \<and> ti_frame t \<noteq> [] \<and>
     (\<forall>p. \<exists>p'. vp8_depacketize (rr_payload (ti_packet t)) p = Some (Inr (ti_body t), p'))"

definition next_pre :: "bytes \<Rightarrow> train_item \<Rightarrow> bytes" where
  "next_pre pre t = (if rr_marker (ti_packet t) then [] else pre @ ti_body t)"

fun train :: "u16 \<Rightarrow> bytes \<Rightarrow> train_item list \<Rightarrow> bytes \<Rightarrow> bool" where
  "train seq pre [] pre' \<longleftrightarrow> pre = pre'"
| "train seq pre (t # ts) pre' \<longleftrightarrow>
     item_ok t \<and> rr_sequence_number (ti_packet t) = seq + 1 \<and>
     (vp8_is_partition_head (rr_payload (ti_packet t)) \<longleftrightarrow> pre = []) \<and>
     (rr_marker (ti_packet t) \<longrightarrow> pre @ ti_body t = ti_frame t) \<and>
     train (seq + 1) (next_pre pre t) ts pre'"

lemma train_append:
  "train seq pre (xs @ ys) pre'' \<longleftrightarrow> (\<exists>pre'. train seq pre xs pre' \<and> train (seq + word_of_nat (length xs)) pre' ys pre'')"
  by (induction xs arbitrary: seq pre) (simp_all add: add.assoc)

text \<open>The calls of the decoder for the frames completed in a train.\<close>

definition item_call :: "train_item \<Rightarrow> decode_call" where
  "item_call t = DecodeVP8 (ti_frame t) (timestamp_us (rr_timestamp (ti_packet t)))"

definition train_calls :: "train_item list \<Rightarrow> decode_call list" where
  "train_calls ts = map item_call (filter (\<lambda>t. rr_marker (ti_packet t)) ts)"

text \<open>The assembler agrees with the train: it skips to the next start, or has what the current frame carried so far.\<close>

definition in_step :: "bytes \<Rightarrow> vp8_frame_assembler \<Rightarrow> bool" where
  "in_step pre a \<longleftrightarrow> as_skip_until_s a \<or> pre = [] \<or> as_assembling a \<and> as_buffer a = pre"

lemma assemble_item:
  assumes "item_ok t" "vp8_is_partition_head (rr_payload (ti_packet t)) \<longleftrightarrow> pre = []"
    and "rr_marker (ti_packet t) \<longrightarrow> pre @ ti_body t = ti_frame t" "in_step pre a"
  shows "\<exists>out a'. assembler_feed (rr_payload (ti_packet t)) (rr_marker (ti_packet t)) a = Some (Inr out, a') \<and>
    in_step (next_pre pre t) a' \<and> (out = [] \<or> rr_marker (ti_packet t) \<and> out = ti_frame t) \<and>
    (\<not> as_skip_until_s a \<or> pre = [] \<longrightarrow> \<not> as_skip_until_s a' \<and> (rr_marker (ti_packet t) \<longrightarrow> out = ti_frame t))"
proof -
  obtain p' where p': "vp8_depacketize (rr_payload (ti_packet t)) (as_parser a) = Some (Inr (ti_body t), p')"
    using assms(1) by (auto simp: item_ok_def)
  have s: "(rr_payload (ti_packet t) \<noteq> [] \<and> rr_payload (ti_packet t) ! 0 AND 0x10 \<noteq> 0) \<longleftrightarrow> pre = []"
    using assms(2) by (simp add: vp8_is_partition_head_def)
  have feed: "assembler_feed (rr_payload (ti_packet t)) (rr_marker (ti_packet t)) a =
      (let (out, a) = assemble (ti_body t) (pre = []) (rr_marker (ti_packet t)) (a\<lparr>as_parser := p'\<rparr>) in Some (Inr out, a))"
    by (simp add: assembler_feed_def p' s)
  show ?thesis
    unfolding feed using assms(3,4) by (cases "pre = []"; cases "rr_marker (ti_packet t)")
      (auto simp: assemble_def Let_def in_step_def next_pre_def)
qed

section \<open>Streams that receive a train\<close>

definition vp8_stream :: "video_stream \<Rightarrow> bool" where
  "vp8_stream v \<longleftrightarrow> vs_codec_type v = Some VP8 \<and> (\<exists>a. vs_depacketizer v = DepVP8 a)"

definition stream_assembler :: "video_stream \<Rightarrow> vp8_frame_assembler" where
  "stream_assembler v = (case vs_depacketizer v of DepVP8 a \<Rightarrow> a | DepH264 _ \<Rightarrow> assembler_default)"

text \<open>The decoder is up, or comes up with the frame.\<close>

definition can_feed :: "decoder_env \<Rightarrow> video_stream \<Rightarrow> bytes \<Rightarrow> bool" where
  "can_feed env v frame \<longleftrightarrow>
     (if vs_decoder_initialized v then vs_decoder v = Some DecoderVP8 else vp8_is_key frame \<and> de_init_vp8 env (vs_attempts v))"

lemma feed_decoder_vp8:
  assumes "vp8_stream v"
  shows "vp8_stream (feed_decoder env frame ts v)" "stream_assembler (feed_decoder env frame ts v) = stream_assembler v"
    "vs_last_seq (feed_decoder env frame ts v) = vs_last_seq v"
    "vs_calls (feed_decoder env frame ts v) = vs_calls v \<or>
     vs_calls (feed_decoder env frame ts v) = vs_calls v @ [DecodeVP8 frame (timestamp_us ts)]"
    "can_feed env v frame \<Longrightarrow> vs_calls (feed_decoder env frame ts v) = vs_calls v @ [DecodeVP8 frame (timestamp_us ts)] \<and>
       can_feed env (feed_decoder env frame ts v) frame' "
  using assms by (auto simp: vp8_stream_def stream_assembler_def feed_decoder_def feed_vp8_decoder_def ensure_vp8_def
      can_feed_def Let_def)

lemma note_sequence_vp8:
  assumes "vp8_stream v"
  shows "vp8_stream (note_sequence seq v)" "vs_last_seq (note_sequence seq v) = Some seq"
    "vs_calls (note_sequence seq v) = vs_calls v" "can_feed env (note_sequence seq v) frame = can_feed env v frame"
    "stream_assembler (note_sequence seq v) =
      (if vs_last_seq v = None \<or> vs_last_seq v = Some (seq - 1) then stream_assembler v else assembler_reset (stream_assembler v))"
  using assms by (auto simp: vp8_stream_def stream_assembler_def note_sequence_def can_feed_def Let_def split: option.splits)

lemma process_item:
  assumes "vp8_stream v" "item_ok t" "vp8_is_partition_head (rr_payload (ti_packet t)) \<longleftrightarrow> pre = []"
    and "rr_marker (ti_packet t) \<longrightarrow> pre @ ti_body t = ti_frame t"
  defines "a \<equiv> stream_assembler (note_sequence (rr_sequence_number (ti_packet t)) v)"
  assumes "in_step pre a"
  shows "\<exists>v'. process_rtp_packet env mime (ti_packet t) v = Some v' \<and> vp8_stream v' \<and>
    vs_last_seq v' = Some (rr_sequence_number (ti_packet t)) \<and> in_step (next_pre pre t) (stream_assembler v') \<and>
    (vs_calls v' = vs_calls v \<or> rr_marker (ti_packet t) \<and> vs_calls v' = vs_calls v @ [item_call t]) \<and>
    (\<not> as_skip_until_s a \<or> pre = [] \<longrightarrow> \<not> as_skip_until_s (stream_assembler v') \<and>
      (if rr_marker (ti_packet t)
       then can_feed env v (ti_frame t) \<longrightarrow> vs_calls v' = vs_calls v @ [item_call t] \<and> (\<forall>frame. can_feed env v' frame)
       else \<forall>frame. can_feed env v' frame = can_feed env v frame))"
proof -
  let ?w = "note_sequence (rr_sequence_number (ti_packet t)) v" and ?pkt = "ti_packet t"
  have nonempty: "rr_payload ?pkt \<noteq> []" "ti_frame t \<noteq> []" using assms(2) by (auto simp: item_ok_def)
  note w = note_sequence_vp8 [OF assms(1), where seq = "rr_sequence_number ?pkt"]
  obtain out a' where feed: "assembler_feed (rr_payload ?pkt) (rr_marker ?pkt) a = Some (Inr out, a')"
      and a': "in_step (next_pre pre t) a'" and out: "out = [] \<or> rr_marker ?pkt \<and> out = ti_frame t"
      and go: "\<not> as_skip_until_s a \<or> pre = [] \<longrightarrow> \<not> as_skip_until_s a' \<and> (rr_marker ?pkt \<longrightarrow> out = ti_frame t)"
    using assemble_item [OF assms(2-4,6)] by blast
  define x where "x = ?w\<lparr>vs_depacketizer := DepVP8 a'\<rparr>"
  have x: "vp8_stream x" "stream_assembler x = a'" "vs_last_seq x = Some (rr_sequence_number ?pkt)" "vs_calls x = vs_calls v"
    using w(1-3) by (auto simp: x_def vp8_stream_def stream_assembler_def)
  have can: "can_feed env x frame = can_feed env v frame" for frame
    unfolding w(4) [where env = env and frame = frame, symmetric] by (simp add: x_def can_feed_def)
  have dep: "stream_depacketize (rr_payload ?pkt) (rr_marker ?pkt) ?w = Some (Inr out, x)"
    using w(1) feed by (auto simp: stream_depacketize_def vp8_stream_def a_def stream_assembler_def x_def)
  have "detect_codec_type mime (rr_payload_type ?pkt) (rr_payload ?pkt) v = v"
    using assms(1) by (simp add: detect_codec_type_def vp8_stream_def)
  then have process: "process_rtp_packet env mime ?pkt v =
      Some (if out \<noteq> [] then feed_decoder env out (rr_timestamp ?pkt) x else x)"
    using nonempty(1) dep by (simp add: process_rtp_packet_def)
  show ?thesis
  proof (cases "out = []")
    case True
    with process x can a' go nonempty(2) show ?thesis by auto
  next
    case False
    then have m: "rr_marker ?pkt" "out = ti_frame t" using out by auto
    note fed = feed_decoder_vp8 [OF x(1), where env = env and frame = out and ts = "rr_timestamp ?pkt"]
    from process False m fed(1-4) fed(5) x can a' go show ?thesis by (auto simp: item_call_def)
  qed
qed

text \<open>A stream in step that receives a whole train gives every frame to the decoder.\<close>

lemma process_train:
  assumes "train seq pre ts pre'" "vp8_stream v"
    and "vs_last_seq v = Some seq \<or> pre = []" "pre = [] \<or> in_step pre (stream_assembler v) \<and> \<not> as_skip_until_s (stream_assembler v)"
    and "case filter (\<lambda>t. rr_marker (ti_packet t)) ts of [] \<Rightarrow> True | t # _ \<Rightarrow> can_feed env v (ti_frame t)"
  shows "\<exists>v'. process_rtp_packets env mime (map ti_packet ts) v = Some v' \<and> vs_calls v' = vs_calls v @ train_calls ts"
  using assms
proof (induction ts arbitrary: seq pre v)
  case Nil
  then show ?case by (simp add: train_calls_def)
next
  case (Cons t ts)
  let ?pkt = "ti_packet t"
  have t: "item_ok t" "rr_sequence_number ?pkt = seq + 1" "vp8_is_partition_head (rr_payload ?pkt) \<longleftrightarrow> pre = []"
      "rr_marker ?pkt \<longrightarrow> pre @ ti_body t = ti_frame t" and ts: "train (seq + 1) (next_pre pre t) ts pre'"
    using Cons.prems(1) by auto
  let ?a = "stream_assembler (note_sequence (rr_sequence_number ?pkt) v)"
  have a: "in_step pre ?a" "\<not> as_skip_until_s ?a \<or> pre = []"
    using Cons.prems(3,4) note_sequence_vp8(5) [OF Cons.prems(2), of "seq + 1"] t(2) by (auto simp: in_step_def)
  obtain v' where v': "process_rtp_packet env mime ?pkt v = Some v'" "vp8_stream v'" "vs_last_seq v' = Some (seq + 1)"
      "in_step (next_pre pre t) (stream_assembler v')" "\<not> as_skip_until_s (stream_assembler v')"
      "if rr_marker ?pkt
       then can_feed env v (ti_frame t) \<longrightarrow> vs_calls v' = vs_calls v @ [item_call t] \<and> (\<forall>frame. can_feed env v' frame)
       else \<forall>frame. can_feed env v' frame = can_feed env v frame"
      "vs_calls v' = vs_calls v \<or> rr_marker ?pkt \<and> vs_calls v' = vs_calls v @ [item_call t]"
    using process_item [OF Cons.prems(2) t(1,3,4) a(1), of env mime] a(2) t(2) by auto
  have "case filter (\<lambda>t. rr_marker (ti_packet t)) ts of [] \<Rightarrow> True | t # _ \<Rightarrow> can_feed env v' (ti_frame t)"
    using v'(6) Cons.prems(5) by (auto split: list.splits if_splits)
  then obtain v'' where "process_rtp_packets env mime (map ti_packet ts) v' = Some v''" "vs_calls v'' = vs_calls v' @ train_calls ts"
    using Cons.IH [OF ts v'(2)] v'(3,4,5) by auto
  moreover have "vs_calls v' @ train_calls ts = vs_calls v @ train_calls (t # ts)"
    using v'(6,7) Cons.prems(5) by (auto simp: train_calls_def split: if_splits)
  ultimately show ?case using v'(1) by simp
qed

section \<open>Losses\<close>

text \<open>What arrives of a train, and that fewer than \<open>2 ^ 16\<close> packets in a row are lost.\<close>

definition select :: "bool list \<Rightarrow> 'a list \<Rightarrow> 'a list" where
  "select ms xs = map snd (filter fst (zip ms xs))"

fun short_gaps :: "nat \<Rightarrow> bool list \<Rightarrow> bool" where
  "short_gaps n [] = True"
| "short_gaps n (arrives # ms) =
     (if arrives then short_gaps 0 ms else n + 1 < 65536 \<and> short_gaps (n + 1) ms)"

lemma select_simps [simp]:
  "select [] xs = []" "select (b # bs) (x # xs) = (if b then x # select bs xs else select bs xs)" "select bs [] = []"
  by (simp_all add: select_def)

lemma select_map: "select ms (map f xs) = map f (select ms xs)"
  by (induction ms xs rule: list_induct2') auto

text \<open>A stream that has lost \<open>n\<close> packets since the last one.\<close>

definition lost_step :: "u16 \<Rightarrow> bytes \<Rightarrow> nat \<Rightarrow> video_stream \<Rightarrow> bool" where
  "lost_step seq pre n v \<longleftrightarrow> vp8_stream v \<and> vs_last_seq v = Some (seq - word_of_nat n) \<and> n < 65536 \<and>
     (n = 0 \<longrightarrow> in_step pre (stream_assembler v))"

lemma seq_gap:
  assumes "n < 65536"
  shows "(seq :: u16) - word_of_nat n = seq \<longleftrightarrow> n = 0"
proof -
  have "unat (word_of_nat n :: u16) = n" using assms by (simp add: unat_of_nat)
  then show ?thesis by (metis diff_0_right diff_left_imp_eq semiring_1_class.of_nat_0 unat_0)
qed

lemma lost_step_in_step:
  assumes "lost_step seq pre n v"
  shows "in_step pre (stream_assembler (note_sequence (seq + 1) v))"
proof -
  have v: "vp8_stream v" "vs_last_seq v = Some (seq - word_of_nat n)" "n < 65536" "n = 0 \<longrightarrow> in_step pre (stream_assembler v)"
    using assms by (auto simp: lost_step_def)
  show ?thesis
  proof (cases "n = 0")
    case True
    then show ?thesis using v note_sequence_vp8(5) [OF v(1), of "seq + 1"] by simp
  next
    case False
    then show ?thesis
      using v(2) seq_gap [OF v(3), of seq] note_sequence_vp8(5) [OF v(1), of "seq + 1"]
      by (simp add: in_step_def assembler_reset_def)
  qed
qed

lemma process_lossy:
  assumes "train seq pre ts pre'" "lost_step seq pre n v" "short_gaps n ms"
  shows "\<exists>v' cs. process_rtp_packets env mime (map ti_packet (select ms ts)) v = Some v' \<and>
    vs_calls v' = vs_calls v @ cs \<and> subseq cs (train_calls ts)"
  using assms
proof (induction ts arbitrary: seq pre n v ms)
  case Nil
  then show ?case by (simp add: train_calls_def)
next
  case (Cons t ts)
  let ?pkt = "ti_packet t"
  have t: "item_ok t" "rr_sequence_number ?pkt = seq + 1" "vp8_is_partition_head (rr_payload ?pkt) \<longleftrightarrow> pre = []"
      "rr_marker ?pkt \<longrightarrow> pre @ ti_body t = ti_frame t" and ts: "train (seq + 1) (next_pre pre t) ts pre'"
    using Cons.prems(1) by auto
  have sub: "subseq cs (train_calls (t # ts))" if "subseq cs (train_calls ts)" for cs
    using that by (auto simp: train_calls_def)
  show ?case
  proof (cases ms)
    case Nil
    then show ?thesis by simp
  next
    case ms: (Cons b more)
    show ?thesis
    proof (cases b)
      case True
      obtain v' where v': "process_rtp_packet env mime ?pkt v = Some v'" "vp8_stream v'" "vs_last_seq v' = Some (seq + 1)"
          "in_step (next_pre pre t) (stream_assembler v')"
          "vs_calls v' = vs_calls v \<or> rr_marker ?pkt \<and> vs_calls v' = vs_calls v @ [item_call t]"
        using process_item [OF _ t(1,3,4), of v env mime] lost_step_in_step [OF Cons.prems(2)] Cons.prems(2) t(2)
        by (auto simp: lost_step_def)
      then have "lost_step (seq + 1) (next_pre pre t) 0 v'" by (simp add: lost_step_def)
      then obtain v'' cs where "process_rtp_packets env mime (map ti_packet (select more ts)) v' = Some v''"
          "vs_calls v'' = vs_calls v' @ cs" "subseq cs (train_calls ts)"
        using Cons.IH [OF ts, of 0 v' more] Cons.prems(3) ms True by auto
      with v'(1,5) ms True sub show ?thesis by (auto simp: train_calls_def)
    next
      case False
      then have "lost_step (seq + 1) (next_pre pre t) (n + 1) v" "short_gaps (n + 1) more"
        using Cons.prems(2,3) ms False by (auto simp: lost_step_def)
      from Cons.IH [OF ts this] ms False sub show ?thesis by auto
    qed
  qed
qed

end
