(* ===== verification/Media_Transfer.thy ===== *)
theory Media_Transfer
  imports Video_Stream
begin

text \<open>
  Video from end to end: the send pipeline of \<^verbatim>\<open>libwebrtc/src/ohos/rtp_send_pipeline.rs\<close>, the RTP packets on the wire
  (\<^verbatim>\<open>rtc-patched/rtc-rtp\<close>), and the video stream of \<^verbatim>\<open>libwebrtc/src/ohos/video_stream.rs\<close>, with and without losses.
\<close>

section \<open>The way of a packet\<close>

text \<open>The driver wraps the data, the packet is written and read, and the receiving driver hands it to the stream. Encryption of the
  transport in between is the identity for the two ends.\<close>

definition transmit :: "string \<Rightarrow> u32 \<Rightarrow> rtp_packet_data \<Rightarrow> received_rtp_packet option" where
  "transmit track_id ssrc q =
     (case packet_marshal (rtp_packet_of ssrc q) of
        Some (Inr bs) \<Rightarrow>
          (case packet_unmarshal bs of Some (Inr packet) \<Rightarrow> Some (received_of track_id packet) | _ \<Rightarrow> None)
      | _ \<Rightarrow> None)"

lemma transmit_eq:
  assumes "pd_payload_type q < 128"
  shows "transmit track_id ssrc q = Some (received_of track_id (rtp_packet_of ssrc q))"
proof -
  obtain bs where bs: "packet_marshal (rtp_packet_of ssrc q) = Some (Inr bs)" using rtp_packet_of_wire(2) [OF assms] by blast
  with rtp_packet_of_wire(1) [OF assms bs] show ?thesis by (simp add: transmit_def)
qed

lemma received_fields [simp]:
  "rr_payload (received_of tid (rtp_packet_of ssrc q)) = pd_payload q"
  "rr_marker (received_of tid (rtp_packet_of ssrc q)) = pd_marker q"
  "rr_sequence_number (received_of tid (rtp_packet_of ssrc q)) = pd_sequence_number q"
  "rr_timestamp (received_of tid (rtp_packet_of ssrc q)) = pd_timestamp q"
  "rr_payload_type (received_of tid (rtp_packet_of ssrc q)) = pd_payload_type q"
  by (simp_all add: received_of_def rtp_packet_of_def)

text \<open>Sending frames one after the other: data, time in milliseconds, key frame flag.\<close>

type_synonym video_frame = "bytes \<times> u64 \<times> bool"

fun send_frames :: "string \<Rightarrow> video_frame list \<Rightarrow> rtp_send_pipeline \<Rightarrow> rtp_send_pipeline option" where
  "send_frames codec [] p = Some p"
| "send_frames codec ((data, timestamp_ms, is_key) # frames) p =
     do { (r, p) \<leftarrow> send_encoded_video data timestamp_ms codec is_key p; send_frames codec frames p }"

fun command_packet :: "control_command \<Rightarrow> rtp_packet_data" where
  "command_packet (WriteRtp track_id packet) = packet"

definition sent_packets :: "rtp_send_pipeline \<Rightarrow> rtp_packet_data list" where
  "sent_packets p = map command_packet (cc_sent (sp_cmd_tx p))"

section \<open>The packets of VP8 frames form a train\<close>

definition item_of :: "string \<Rightarrow> u32 \<Rightarrow> u16 \<Rightarrow> bytes \<Rightarrow> rtp_packet_data \<Rightarrow> train_item" where
  "item_of tid ssrc picture_id frame q =
     \<lparr>ti_packet = received_of tid (rtp_packet_of ssrc q), ti_body = drop (vp8_descriptor_size picture_id) (pd_payload q),
      ti_frame = frame\<rparr>"

lemma item_fields [simp]:
  "ti_packet (item_of tid ssrc n frame q) = received_of tid (rtp_packet_of ssrc q)"
  "ti_body (item_of tid ssrc n frame q) = drop (vp8_descriptor_size n) (pd_payload q)"
  "ti_frame (item_of tid ssrc n frame q) = frame"
  by (simp_all add: item_of_def)

lemma vp8_depacketize_nonempty: "vp8_depacketize packet p = Some (Inr bs, p') \<Longrightarrow> bs \<noteq> []"
  by (auto simp: vp8_depacketize_def split: if_splits Option.bind_splits)

lemma fragments_train:
  assumes "qs \<noteq> []" "\<And>q. q \<in> set qs \<Longrightarrow> item_ok (item_of tid ssrc n frame q)"
    and "map pd_sequence_number qs = map (\<lambda>i. seq + word_of_nat (Suc i)) [0..<length qs]"
    and "map (vp8_is_partition_head \<circ> pd_payload) qs = (pre = []) # replicate (length qs - 1) False"
    and "map pd_marker qs = replicate (length qs - 1) False @ [True]"
    and "pre @ concat (map (drop (vp8_descriptor_size n) \<circ> pd_payload) qs) = frame"
  shows "train seq pre (map (item_of tid ssrc n frame) qs) []"
  using assms
proof (induction qs arbitrary: seq pre)
  case (Cons q qs)
  let ?body = "drop (vp8_descriptor_size n) (pd_payload q)"
  have ok: "item_ok (item_of tid ssrc n frame q)" using Cons.prems(2) by simp
  then obtain p' where "vp8_depacketize (pd_payload q) vp8_packet_default = Some (Inr ?body, p')"
    by (auto simp: item_ok_def)
  then have body: "?body \<noteq> []" by (rule vp8_depacketize_nonempty)
  have seqs: "pd_sequence_number q = seq + 1"
      "map pd_sequence_number qs = map (\<lambda>i. (seq + 1) + word_of_nat (Suc i)) [0..<length qs]"
    using Cons.prems(3) by (simp_all add: upt_conv_Cons map_Suc_upt [symmetric] add.assoc del: upt_Suc)
  have head: "vp8_is_partition_head (pd_payload q) \<longleftrightarrow> pre = []" "map (vp8_is_partition_head \<circ> pd_payload) qs = replicate (length qs) False"
    using Cons.prems(4) by (simp_all add: comp_def)
  show ?case
  proof (cases "qs = []")
    case True
    then show ?thesis using Cons.prems(5,6) ok seqs(1) head(1) by (simp add: next_pre_def)
  next
    case False
    then obtain k where k: "length qs = Suc k" by (cases qs) auto
    have marker: "\<not> pd_marker q" "map pd_marker qs = replicate (length qs - 1) False @ [True]"
      using Cons.prems(5) k by simp_all
    have "train (seq + 1) (pre @ ?body) (map (item_of tid ssrc n frame) qs) []"
      using Cons.IH [OF False _ seqs(2) _ marker(2), of "pre @ ?body"] Cons.prems(2,6) head(2) body k by (simp add: comp_def)
    then show ?thesis using ok seqs(1) head(1) marker(1) by (simp add: next_pre_def)
  qed
qed simp

definition frame_call :: "u32 \<Rightarrow> video_frame \<Rightarrow> decode_call" where
  "frame_call clock_rate f = (case f of (data, timestamp_ms, _) \<Rightarrow> DecodeVP8 data (timestamp_us (ms_to_rtp_timestamp timestamp_ms clock_rate)))"

lemma pack_vp8_frame_flag: "pack_vp8_frame frame k n = pack_vp8_frame frame False n"
  by (simp add: pack_vp8_frame_def)

lemma frame_train:
  fixes frame :: bytes and is_key :: bool and n seq :: u16 and pt :: u8 and own_ssrc ts :: u32
  assumes "frame \<noteq> []"
  defines "qs \<equiv> packets_of (pack_vp8_frame frame is_key n) pt own_ssrc ts seq"
  shows "train seq [] (map (item_of tid ssrc n frame) qs) []" "qs \<noteq> []"
    "train_calls (map (item_of tid ssrc n frame) qs) = [DecodeVP8 frame (timestamp_us ts)]"
proof -
  let ?fs = "pack_vp8_frame frame is_key n"
  have payloads: "map pd_payload qs = pack_vp8_payloads n frame"
    by (simp add: qs_def fragments_to_packets_spec(1) pack_vp8_payloads_def pack_vp8_frame_flag [of frame is_key])
  have len: "length qs = length ?fs" by (simp add: qs_def fragments_to_packets_spec(4))
  have "?fs = vp8_fragment_loop n True frame" using assms(1) by (simp add: pack_vp8_frame_def)
  then have markers: "map pd_marker qs = replicate (length qs - 1) False @ [True]"
    using vp8_fragment_loop_markers [OF assms(1), of n True] len by (simp add: qs_def fragments_to_packets_spec(2))
  note spec = pack_vp8_payloads_spec [OF assms(1), where picture_id = n]
  show nonempty: "qs \<noteq> []" using markers by auto
  have ok: "item_ok (item_of tid ssrc n frame q)" if "q \<in> set qs" for q
  proof -
    have "pd_payload q \<in> set (pack_vp8_payloads n frame)" using that payloads by (metis image_eqI list.set_map)
    from spec(1) [OF this] assms(1) show ?thesis
      by (auto simp: item_ok_def dest: vp8_depacketize_nonempty) (metis drop_Nil vp8_depacketize_nonempty)
  qed
  have plen: "length (pack_vp8_payloads n frame) = length qs" by (simp flip: payloads)
  have heads: "map (vp8_is_partition_head \<circ> pd_payload) qs = ([] = ([] :: bytes)) # replicate (length qs - 1) False"
    using spec(3) plen by (simp add: payloads flip: map_map)
  have bodies: "[] @ concat (map (drop (vp8_descriptor_size n) \<circ> pd_payload) qs) = frame"
    using spec(2) by (simp add: payloads flip: map_map)
  show "train seq [] (map (item_of tid ssrc n frame) qs) []"
    by (rule fragments_train [OF nonempty ok _ heads markers bodies]) (simp_all add: qs_def fragments_to_packets_spec(3,4))
  have "filter pd_marker qs = [last qs]"
  proof -
    have qs: "qs = butlast qs @ [last qs]" using nonempty by simp
    then have "map pd_marker (butlast qs) = replicate (length qs - 1) False" "pd_marker (last qs)"
      using markers by (metis append_eq_append_conv last_snoc length_append_singleton list.simps(9) map_append map_butlast butlast_snoc, 
        metis last_map last_snoc nonempty)
    then have "filter pd_marker (butlast qs) = []" by (metis (mono_tags, lifting) filter_False image_eqI in_set_replicate list.set_map)
    with qs \<open>pd_marker (last qs)\<close> show ?thesis by (metis append_Nil filter.simps filter_append)
  qed
  moreover have "pd_timestamp (last qs) = ts"
    using fragments_to_packets_spec(6) [of "last qs"] last_in_set [OF nonempty] by (simp add: qs_def)
  ultimately show "train_calls (map (item_of tid ssrc n frame) qs) = [DecodeVP8 frame (timestamp_us ts)]"
    by (simp add: train_calls_def filter_map comp_def item_call_def)
qed

lemma send_vp8_frame:
  fixes is_key :: bool and ms :: u64
  assumes "ascii_uppercase codec = ''VP8''" "\<And>n. cc_open (sp_cmd_tx p) n" "sp_vp8_picture_id p < 0x8000" "frame \<noteq> []"
  defines "qs \<equiv> packets_of (pack_vp8_frame frame is_key (sp_vp8_picture_id p)) (sp_payload_type_vp8 p) (sp_ssrc p)
    (ms_to_rtp_timestamp ms (sp_clock_rate p)) (sp_sequence_number p)"
  shows "send_encoded_video frame ms codec is_key p =
    Some (Inr (word_of_nat (length qs)), p\<lparr>sp_vp8_picture_id := (sp_vp8_picture_id p + 1) AND 0x7FFF,
      sp_sequence_number := sp_sequence_number p + word_of_nat (length qs),
      sp_cmd_tx := (sp_cmd_tx p)\<lparr>cc_sent := cc_sent (sp_cmd_tx p) @ map (WriteRtp (sp_track_id p)) qs,
        cc_calls := cc_calls (sp_cmd_tx p) + length qs\<rparr>\<rparr>)"
proof -
  let ?fs = "pack_vp8_frame frame is_key (sp_vp8_picture_id p)"
  let ?to = "fragments_to_packets ?fs (sp_payload_type_vp8 p) (sp_ssrc p) (ms_to_rtp_timestamp ms (sp_clock_rate p)) (sp_sequence_number p)"
  have "unat (sp_vp8_picture_id p) < 0x8000" using assms(3) by (simp add: word_less_nat_alt)
  then have id: "checked_add (sp_vp8_picture_id p) 1 = Some (sp_vp8_picture_id p + 1)" by (simp add: checked_add_def)
  have to: "?to = (qs, sp_sequence_number p + word_of_nat (length qs))"
    using fragments_to_packets_spec(4,5) by (simp add: qs_def packets_of_def prod_eq_iff)
  have "qs \<noteq> []"
    using frame_train(2) [OF assms(4)] by (simp add: qs_def)
  then have fs: "?fs \<noteq> []" by (auto simp: qs_def packets_of_def)
  show ?thesis
    using fs assms(2) send_rtp_packets_open
    by (simp add: send_encoded_video_def packetize_video_def assms(1) id to)
qed

text \<open>A session: the packets sent for a list of frames arrive as a train that carries these frames.\<close>

definition vp8_sender :: "string \<Rightarrow> rtp_send_pipeline \<Rightarrow> bool" where
  "vp8_sender codec p \<longleftrightarrow> ascii_uppercase codec = ''VP8'' \<and> sp_vp8_picture_id p < 0x8000 \<and> sp_payload_type_vp8 p < 128 \<and>
     (\<forall>n. cc_open (sp_cmd_tx p) n)"

lemma fifteen_bits: "(w :: u16) AND 0x7FFF < 0x8000"
  by (rule le_less_trans [of _ "0x7FFF :: u16"]) (simp_all add: word_and_le1)

lemma session_train:
  assumes "vp8_sender codec p" "list_all (\<lambda>f. fst f \<noteq> []) frames"
  shows "\<exists>p' qs its. send_frames codec frames p = Some p' \<and> sent_packets p' = sent_packets p @ qs \<and>
    map (transmit tid ssrc) qs = map (\<lambda>t. Some (ti_packet t)) its \<and> train (sp_sequence_number p) [] its [] \<and>
    train_calls its = map (frame_call (sp_clock_rate p)) frames \<and>
    list_all (\<lambda>t. rr_payload_type (ti_packet t) = sp_payload_type_vp8 p) its"
  using assms
proof (induction frames arbitrary: p)
  case Nil
  then show ?case by (auto simp: train_calls_def)
next
  case (Cons f frames)
  obtain frame ms is_key where f: "f = (frame, ms, is_key)" by (cases f)
  have frame: "frame \<noteq> []" "list_all (\<lambda>f. fst f \<noteq> []) frames" using Cons.prems(2) f by auto
  define n where "n = sp_vp8_picture_id p"
  define ts where "ts = ms_to_rtp_timestamp ms (sp_clock_rate p)"
  define qs where "qs = packets_of (pack_vp8_frame frame is_key n) (sp_payload_type_vp8 p) (sp_ssrc p) ts (sp_sequence_number p)"
  define p1 where "p1 = p\<lparr>sp_vp8_picture_id := (n + 1) AND 0x7FFF, sp_sequence_number := sp_sequence_number p + word_of_nat (length qs),
      sp_cmd_tx := (sp_cmd_tx p)\<lparr>cc_sent := cc_sent (sp_cmd_tx p) @ map (WriteRtp (sp_track_id p)) qs,
        cc_calls := cc_calls (sp_cmd_tx p) + length qs\<rparr>\<rparr>"
  have sender: "ascii_uppercase codec = ''VP8''" "\<And>n. cc_open (sp_cmd_tx p) n" "sp_vp8_picture_id p < 0x8000" "sp_payload_type_vp8 p < 128"
    using Cons.prems(1) by (auto simp: vp8_sender_def)
  have send: "send_encoded_video frame ms codec is_key p = Some (Inr (word_of_nat (length qs)), p1)"
    using send_vp8_frame [OF sender(1-3) frame(1), where is_key = is_key and ms = ms] by (simp add: p1_def qs_def n_def ts_def)
  have p1: "vp8_sender codec p1" "sent_packets p1 = sent_packets p @ qs"
      "sp_sequence_number p1 = sp_sequence_number p + word_of_nat (length qs)" "sp_clock_rate p1 = sp_clock_rate p"
      "sp_payload_type_vp8 p1 = sp_payload_type_vp8 p"
    using Cons.prems(1) fifteen_bits by (simp_all add: vp8_sender_def p1_def sent_packets_def comp_def)
  note here = frame_train(1,3) [OF frame(1), where seq = "sp_sequence_number p" and tid = tid and ssrc = ssrc and n = n and is_key = is_key and
      pt = "sp_payload_type_vp8 p" and own_ssrc = "sp_ssrc p" and ts = ts, folded qs_def]
  have pt: "pd_payload_type q = sp_payload_type_vp8 p" if "q \<in> set qs" for q
    using fragments_to_packets_spec(6) that unfolding qs_def by blast
  obtain p' qs' its where rest: "send_frames codec frames p1 = Some p'" "sent_packets p' = sent_packets p1 @ qs'"
      "map (transmit tid ssrc) qs' = map (\<lambda>t. Some (ti_packet t)) its" "train (sp_sequence_number p1) [] its []"
      "train_calls its = map (frame_call (sp_clock_rate p)) frames"
      "list_all (\<lambda>t. rr_payload_type (ti_packet t) = sp_payload_type_vp8 p) its"
    using Cons.IH [OF p1(1) frame(2)] p1(4,5) by auto
  let ?its = "map (item_of tid ssrc n frame) qs @ its"
  have "send_frames codec (f # frames) p = Some p'" "sent_packets p' = sent_packets p @ qs @ qs'"
    using send rest(1,2) p1(2) by (simp_all add: f)
  moreover have "map (transmit tid ssrc) (qs @ qs') = map (\<lambda>t. Some (ti_packet t)) ?its"
    using rest(3) pt sender(4) by (simp add: transmit_eq)
  moreover have "train (sp_sequence_number p) [] ?its []"
    using here(1) rest(4) p1(3) by (auto simp: train_append)
  moreover have "train_calls ?its = map (frame_call (sp_clock_rate p)) (f # frames)"
    using here(2) rest(5) by (simp add: train_calls_def f frame_call_def ts_def)
  moreover have "list_all (\<lambda>t. rr_payload_type (ti_packet t) = sp_payload_type_vp8 p) ?its"
    using rest(6) pt by (auto simp: list_all_iff)
  ultimately show ?case by blast
qed

section \<open>A new stream\<close>

text \<open>The track is known to carry VP8: from the negotiated codec, or from the payload type.\<close>

definition vp8_track :: "string option \<Rightarrow> u8 \<Rightarrow> bool" where
  "vp8_track mime pt = (case mime of Some m \<Rightarrow> contains_str ''VP8'' (ascii_uppercase m) | None \<Rightarrow> pt = 96)"

definition vp8_stream_new :: video_stream where
  "vp8_stream_new = use_codec VP8 video_stream_new"

lemma vp8_stream_new_facts [simp]:
  "vp8_stream vp8_stream_new" "vs_last_seq vp8_stream_new = None" "vs_calls vp8_stream_new = []"
  "stream_assembler vp8_stream_new = assembler_default" "can_feed env vp8_stream_new frame \<longleftrightarrow> vp8_is_key frame \<and> de_init_vp8 env 0"
  by (simp_all add: vp8_stream_new_def use_codec_def video_stream_new_def vp8_stream_def stream_assembler_def can_feed_def)

lemma new_stream_detects:
  assumes "pkts \<noteq> []" "list_all (\<lambda>pkt. vp8_track mime (rr_payload_type pkt)) pkts"
  shows "process_rtp_packets env mime pkts video_stream_new = process_rtp_packets env mime pkts vp8_stream_new"
proof -
  obtain pkt rest where pkts: "pkts = pkt # rest" using assms(1) by (cases pkts) auto
  have "vp8_track mime (rr_payload_type pkt)" using assms(2) pkts by simp
  then have "detect_codec_type mime (rr_payload_type pkt) (rr_payload pkt) video_stream_new = vp8_stream_new"
    by (auto simp: detect_codec_type_def vp8_track_def codec_from_payload_type_def vp8_stream_new_def video_stream_new_def
        split: option.splits)
  moreover have "detect_codec_type mime (rr_payload_type pkt) (rr_payload pkt) vp8_stream_new = vp8_stream_new"
    by (simp add: detect_codec_type_def vp8_stream_new_def use_codec_def)
  ultimately show ?thesis by (simp add: pkts process_rtp_packet_def)
qed

lemma process_lossy_start:
  assumes "train seq pre ts pre'" "vp8_stream v" "vs_last_seq v = None" "short_gaps 0 (dropWhile Not ms)"
    and "case select ms ts of [] \<Rightarrow> True | t # _ \<Rightarrow> vp8_is_partition_head (rr_payload (ti_packet t))"
  shows "\<exists>v' cs. process_rtp_packets env mime (map ti_packet (select ms ts)) v = Some v' \<and>
    vs_calls v' = vs_calls v @ cs \<and> subseq cs (train_calls ts)"
  using assms
proof (induction ts arbitrary: seq pre ms)
  case Nil
  then show ?case by (simp add: train_calls_def)
next
  case (Cons t ts)
  let ?pkt = "ti_packet t"
  have t: "item_ok t" "rr_sequence_number ?pkt = seq + 1" "vp8_is_partition_head (rr_payload ?pkt) \<longleftrightarrow> pre = []"
      "rr_marker ?pkt \<longrightarrow> pre @ ti_body t = ti_frame t" and ts: "train (seq + 1) (next_pre pre t) ts pre'"
    using Cons.prems(1) by auto
  have sub: "subseq cs (train_calls (t # ts))" if "subseq cs (train_calls ts)" for cs
    using that by (auto simp: train_calls_def)
  show ?case
  proof (cases ms)
    case Nil
    then show ?thesis by simp
  next
    case ms: (Cons b more)
    show ?thesis
    proof (cases b)
      case True
      then have pre: "pre = []" using Cons.prems(5) ms t(3) by simp
      obtain v' where v': "process_rtp_packet env mime ?pkt v = Some v'" "vp8_stream v'" "vs_last_seq v' = Some (seq + 1)"
          "in_step (next_pre pre t) (stream_assembler v')"
          "vs_calls v' = vs_calls v \<or> rr_marker ?pkt \<and> vs_calls v' = vs_calls v @ [item_call t]"
        using process_item [OF Cons.prems(2) t(1,3,4), of env mime] pre t(2) by (auto simp: in_step_def)
      then have "lost_step (seq + 1) (next_pre pre t) 0 v'" by (simp add: lost_step_def)
      moreover have "short_gaps 0 more" using Cons.prems(4) ms True by simp
      ultimately obtain v'' cs where "process_rtp_packets env mime (map ti_packet (select more ts)) v' = Some v''"
          "vs_calls v'' = vs_calls v' @ cs" "subseq cs (train_calls ts)"
        using process_lossy [OF ts, of 0 v' more env mime] by auto
      with v'(1,5) ms True sub show ?thesis by (auto simp: train_calls_def)
    next
      case False
      with Cons.IH [OF ts Cons.prems(2,3), of more] Cons.prems(4,5) ms sub show ?thesis by auto
    qed
  qed
qed

lemma those_Some: "those (map Some xs) = Some xs"
  by (induction xs) simp_all

section \<open>End to end\<close>

text \<open>C24. Video from end to end: whatever VP8 frames are given to the send pipeline, cut into RTP packets, numbered, written to
  the wire, read, and received in order by a new video stream, the decoder is called once for each frame, in order, with exactly
  the bytes of the frame and its time, provided that the first frame is a key frame and the decoder comes up.\<close>

theorem vp8_video_end_to_end:
  assumes "vp8_sender codec p" "sent_packets p = []" "vp8_track mime (sp_payload_type_vp8 p)"
    and "list_all (\<lambda>f. fst f \<noteq> []) frames" "frames \<noteq> []" "vp8_is_key (fst (hd frames))" "de_init_vp8 env 0"
  shows "\<exists>p' rs v. send_frames codec frames p = Some p' \<and> those (map (transmit tid ssrc) (sent_packets p')) = Some rs \<and>
    process_rtp_packets env mime rs video_stream_new = Some v \<and> vs_calls v = map (frame_call (sp_clock_rate p)) frames"
proof -
  obtain p' qs its where s: "send_frames codec frames p = Some p'" "sent_packets p' = qs"
      "map (transmit tid ssrc) qs = map Some (map ti_packet its)" "train (sp_sequence_number p) [] its []"
      "train_calls its = map (frame_call (sp_clock_rate p)) frames"
      "list_all (\<lambda>t. rr_payload_type (ti_packet t) = sp_payload_type_vp8 p) its"
    using session_train [OF assms(1,4), of tid ssrc] assms(2) by (auto simp: comp_def)
  have marked: "map item_call (filter (\<lambda>t. rr_marker (ti_packet t)) its) = map (frame_call (sp_clock_rate p)) frames"
    using s(5) by (simp add: train_calls_def)
  then obtain t ts where t: "filter (\<lambda>t. rr_marker (ti_packet t)) its = t # ts" "ti_frame t = fst (hd frames)"
    using assms(5) by (cases "filter (\<lambda>t. rr_marker (ti_packet t)) its"; cases frames)
      (auto simp: item_call_def frame_call_def split: prod.splits)
  then have "its \<noteq> []" by auto
  moreover have "list_all (\<lambda>pkt. vp8_track mime (rr_payload_type pkt)) (map ti_packet its)"
    using s(6) assms(3) by (simp add: list_all_iff)
  ultimately have "process_rtp_packets env mime (map ti_packet its) video_stream_new =
      process_rtp_packets env mime (map ti_packet its) vp8_stream_new"
    by (intro new_stream_detects) simp_all
  moreover obtain v where "process_rtp_packets env mime (map ti_packet its) vp8_stream_new = Some v" "vs_calls v = train_calls its"
    using process_train [OF s(4), of vp8_stream_new env mime] t assms(6,7) by auto
  ultimately show ?thesis using s(1,2,3,5) those_Some [of "map ti_packet its"] by simp
qed

text \<open>C23. Losses never damage a frame: whatever packets of a VP8 session are lost, as long as fewer than 65536 in a row, a new
  stream that starts to receive at the beginning of a frame calls the decoder only with whole frames that were sent, each at
  most once and in the order in which they were sent.\<close>

theorem vp8_lossy_frames_whole:
  assumes "vp8_sender codec p" "sent_packets p = []" "vp8_track mime (sp_payload_type_vp8 p)"
    and "list_all (\<lambda>f. fst f \<noteq> []) frames" "send_frames codec frames p = Some p'"
    and "those (map (transmit tid ssrc) (select arrived (sent_packets p'))) = Some rs" "short_gaps 0 (dropWhile Not arrived)"
    and "rs = [] \<or> vp8_is_partition_head (rr_payload (hd rs))"
  shows "\<exists>v. process_rtp_packets env mime rs video_stream_new = Some v \<and>
    subseq (vs_calls v) (map (frame_call (sp_clock_rate p)) frames)"
proof -
  obtain qs its where s: "sent_packets p' = qs"
      "map (transmit tid ssrc) qs = map Some (map ti_packet its)" "train (sp_sequence_number p) [] its []"
      "train_calls its = map (frame_call (sp_clock_rate p)) frames"
      "list_all (\<lambda>t. rr_payload_type (ti_packet t) = sp_payload_type_vp8 p) its"
    using session_train [OF assms(1,4), of tid ssrc] assms(2,5) by (auto simp: comp_def)
  have "map (transmit tid ssrc) (select arrived qs) = map Some (map ti_packet (select arrived its))"
    using s(2) by (simp flip: select_map)
  then have rs: "rs = map ti_packet (select arrived its)" using assms(6) s(1) those_Some by (metis option.inject)
  show ?thesis
  proof (cases "rs = []")
    case True
    then show ?thesis by (simp add: video_stream_new_def)
  next
    case False
    have "set (select arrived its) \<subseteq> set its" by (auto simp: select_def dest: set_zip_rightD)
    then have "list_all (\<lambda>pkt. vp8_track mime (rr_payload_type pkt)) rs"
      using s(5) assms(3) by (auto simp: rs list_all_iff)
    then have new: "process_rtp_packets env mime rs video_stream_new = process_rtp_packets env mime rs vp8_stream_new"
      using False by (intro new_stream_detects)
    have "case select arrived its of [] \<Rightarrow> True | t # _ \<Rightarrow> vp8_is_partition_head (rr_payload (ti_packet t))"
      using assms(8) False by (auto simp: rs split: list.split)
    from process_lossy_start [OF s(3) _ _ assms(7) this, of vp8_stream_new env mime] show ?thesis
      unfolding new by (auto simp: rs s(4))
  qed
qed

definition sample_sender :: rtp_send_pipeline where
  "sample_sender = send_pipeline_new 7 ''cam'' 5 125 96 90000 \<lparr>cc_sent = [], cc_calls = 0, cc_open = (\<lambda>_. True)\<rparr>"

definition sample_decoders :: decoder_env where
  "sample_decoders = \<lparr>de_create_h264 = (\<lambda>_. True), de_start_h264 = (\<lambda>_. True), de_init_vp8 = (\<lambda>_. True)\<rparr>"

definition sample_frames :: "video_frame list" where
  "sample_frames = [([0x10, 1, 2], 0, True), ([0x11, 5], 33, False), ([0x11, 6, 7], 66, False)]"

lemma sample_sender_ok:
  "vp8_sender ''vp8'' sample_sender" "sent_packets sample_sender = []" "sp_payload_type_vp8 sample_sender = 96"
  "list_all (\<lambda>f. fst f \<noteq> []) sample_frames"
proof -
  have "ascii_uppercase ''vp8'' = ''VP8''" by code_simp
  then show "vp8_sender ''vp8'' sample_sender" by (simp add: vp8_sender_def sample_sender_def send_pipeline_new_def)
qed (simp_all add: sample_sender_def send_pipeline_new_def sent_packets_def sample_frames_def)

theorem vp8_video_end_to_end_witness:
  "\<exists>p' rs v. send_frames ''vp8'' sample_frames sample_sender = Some p' \<and>
    those (map (transmit ''cam'' 9) (sent_packets p')) = Some rs \<and>
    process_rtp_packets sample_decoders None rs video_stream_new = Some v \<and>
    vs_calls v = [DecodeVP8 [0x10, 1, 2] 0, DecodeVP8 [0x11, 5] 33000, DecodeVP8 [0x11, 6, 7] 66000]"
proof -
  have "vp8_track None (sp_payload_type_vp8 sample_sender)" by (simp add: vp8_track_def sample_sender_ok)
  moreover have "vp8_is_key (fst (hd sample_frames))" "de_init_vp8 sample_decoders 0" "sample_frames \<noteq> []"
    by (simp_all add: sample_frames_def vp8_is_key_def sample_decoders_def)
  moreover have "map (frame_call (sp_clock_rate sample_sender)) sample_frames =
      [DecodeVP8 [0x10, 1, 2] 0, DecodeVP8 [0x11, 5] 33000, DecodeVP8 [0x11, 6, 7] 66000]"
    by (simp add: sample_frames_def frame_call_def sample_sender_def send_pipeline_new_def ms_to_rtp_timestamp_def timestamp_us_def
        VIDEO_CLOCK_RATE_def)
  ultimately show ?thesis
    using vp8_video_end_to_end [OF sample_sender_ok(1,2) _ sample_sender_ok(4), of None sample_decoders "''cam''" 9] by simp
qed

theorem vp8_lossy_frames_whole_witness:
  "\<exists>p' rs v. send_frames ''vp8'' sample_frames sample_sender = Some p' \<and>
    those (map (transmit ''cam'' 9) (select [True, False, True] (sent_packets p'))) = Some rs \<and> rs \<noteq> [] \<and>
    process_rtp_packets sample_decoders None rs video_stream_new = Some v \<and>
    subseq (vs_calls v) (map (frame_call (sp_clock_rate sample_sender)) sample_frames)"
proof -
  obtain p' qs its where s: "send_frames ''vp8'' sample_frames sample_sender = Some p'" "sent_packets p' = qs"
      "map (transmit ''cam'' 9) qs = map Some (map ti_packet its)" "train (sp_sequence_number sample_sender) [] its []"
      "train_calls its = map (frame_call (sp_clock_rate sample_sender)) sample_frames"
    using session_train [OF sample_sender_ok(1,4), of "''cam''" 9] sample_sender_ok(2) by (auto simp: comp_def)
  let ?rs = "map ti_packet (select [True, False, True] its)"
  obtain t ts where its: "its = t # ts" using s(5) by (cases its) (auto simp: train_calls_def sample_frames_def)
  then have "?rs \<noteq> []" "vp8_is_partition_head (rr_payload (hd ?rs))" using s(4) by simp_all
  moreover have "those (map (transmit ''cam'' 9) (select [True, False, True] (sent_packets p'))) = Some ?rs"
    using those_Some [of ?rs] by (simp only: s(2) s(3) flip: select_map)
  moreover have "vp8_track None (sp_payload_type_vp8 sample_sender)" by (simp add: vp8_track_def sample_sender_ok)
  moreover have "short_gaps 0 (dropWhile Not [True, False, True])" by simp
  ultimately show ?thesis
    using vp8_lossy_frames_whole [OF sample_sender_ok(1,2) _ sample_sender_ok(4) s(1), of None "''cam''" 9 "[True, False, True]" ?rs sample_decoders]
      s(1) by blast
qed

section \<open>Joining in the middle of a frame\<close>

text \<open>C39. A stream that starts to receive in the middle of a VP8 frame takes the first fragment it sees for a whole frame: when its
  data happen to look like a key frame, the decoder is brought up with it.\<close>

theorem midframe_fragment_decoded:
  assumes "frame \<noteq> []" "rr_payload pkt \<in> set (tl (pack_vp8_payloads n frame))" "rr_payload_type pkt = 96"
    and "vp8_is_key (drop (vp8_descriptor_size n) (rr_payload pkt))" "de_init_vp8 env 0"
  shows "\<exists>v. process_rtp_packet env None pkt video_stream_new = Some v \<and>
    vs_calls v = [DecodeVP8 (drop (vp8_descriptor_size n) (rr_payload pkt)) (timestamp_us (rr_timestamp pkt))]"
proof -
  let ?fs = "pack_vp8_payloads n frame" and ?body = "drop (vp8_descriptor_size n) (rr_payload pkt)"
  note spec = pack_vp8_payloads_spec [OF assms(1), where picture_id = n]
  obtain f fs where fs: "?fs = f # fs" using spec(3) by (cases ?fs) auto
  then have "rr_payload pkt \<in> set ?fs" "\<not> vp8_is_partition_head (rr_payload pkt)"
    using assms(2) spec(3) by (auto simp: map_eq_conv [of vp8_is_partition_head _ "\<lambda>_. False"] simp flip: map_replicate_const)
  then obtain p' where p': "vp8_depacketize (rr_payload pkt) vp8_packet_default = Some (Inr ?body, p')"
      and s: "\<not> (rr_payload pkt \<noteq> [] \<and> rr_payload pkt ! 0 AND 0x10 \<noteq> 0)" and body: "?body \<noteq> []"
    using spec(1) vp8_depacketize_nonempty by (metis vp8_is_partition_head_def)
  have nonempty: "rr_payload pkt \<noteq> []" using body by auto
  have feed: "assembler_feed (rr_payload pkt) (rr_marker pkt) assembler_default =
      Some (Inr ?body, assembler_default\<lparr>as_parser := p'\<rparr>)"
    using s by (auto simp: assembler_feed_def p' assemble_def assembler_default_def Let_def)
  have detect: "note_sequence (rr_sequence_number pkt) (detect_codec_type None (rr_payload_type pkt) (rr_payload pkt) video_stream_new) =
      (use_codec VP8 video_stream_new)\<lparr>vs_last_seq := Some (rr_sequence_number pkt)\<rparr>"
    using assms(3) by (simp add: detect_codec_type_def codec_from_payload_type_def note_sequence_def use_codec_def video_stream_new_def Let_def)
  show ?thesis
    unfolding process_rtp_packet_def Let_def detect using feed nonempty body assms(4,5)
    by (simp add: stream_depacketize_def use_codec_def feed_decoder_def feed_vp8_decoder_def
        ensure_vp8_def video_stream_new_def Let_def)
qed

theorem midframe_fragment_decoded_witness:
  "\<exists>frame pkt v. rr_payload pkt \<in> set (tl (pack_vp8_payloads 1 frame)) \<and>
    process_rtp_packet sample_decoders None pkt video_stream_new = Some v \<and>
    vs_calls v = [DecodeVP8 (drop 3 (rr_payload pkt)) 1000000]"
proof -
  let ?frame = "replicate 1197 1 @ [0 :: u8]"
  let ?f = "vp8_descriptor 1 False @ [0]"
  have size: "vp8_descriptor_size 1 = 3" "MAX_RTP_PAYLOAD_SIZE = 1200" by (simp_all add: vp8_descriptor_size_def MAX_RTP_PAYLOAD_SIZE_def)
  have "vp8_fragment_loop 1 False [0] = [\<lparr>fr_payload = ?f, fr_marker = True\<rparr>]"
    by (subst vp8_fragment_loop.simps) (simp add: Let_def vp8_fragment_loop.simps [of _ _ "[]"] size)
  then have "pack_vp8_payloads 1 ?frame = [vp8_descriptor 1 True @ replicate 1197 1, ?f]"
    unfolding pack_vp8_payloads_def pack_vp8_frame_def
    by (subst vp8_fragment_loop.simps) (simp add: Let_def size)
  then have f: "?f \<in> set (tl (pack_vp8_payloads 1 ?frame))" by simp
  let ?pkt = "\<lparr>rr_track_id = ''cam'', rr_payload_type = 96, rr_sequence_number = 8, rr_timestamp = 90000, rr_ssrc = 9,
    rr_marker = True, rr_payload = ?f\<rparr>"
  have desc: "vp8_descriptor 1 False = [0x80, 0x80, 1]" by code_simp
  have "\<exists>v. process_rtp_packet sample_decoders None ?pkt video_stream_new = Some v \<and>
      vs_calls v = [DecodeVP8 (drop (vp8_descriptor_size 1) (rr_payload ?pkt)) (timestamp_us (rr_timestamp ?pkt))]"
    by (rule midframe_fragment_decoded [of ?frame]) (use f in \<open>simp_all add: size desc vp8_is_key_def sample_decoders_def\<close>)
  then obtain v where "process_rtp_packet sample_decoders None ?pkt video_stream_new = Some v"
      "vs_calls v = [DecodeVP8 (drop 3 (rr_payload ?pkt)) 1000000]"
    by (auto simp: size timestamp_us_def VIDEO_CLOCK_RATE_def)
  with f show ?thesis by (intro exI [of _ ?frame] exI [of _ ?pkt]) simp
qed

section \<open>H.264 units\<close>

text \<open>A unit as the depacketizer takes it: at least three bytes, a type of the single units, the first bit zero, no start code
  inside.\<close>

definition h264_unit :: "bytes \<Rightarrow> bool" where
  "h264_unit nalu \<longleftrightarrow> start_free nalu \<and> 3 \<le> length nalu \<and> hd nalu AND 0x80 = 0 \<and> 1 \<le> hd nalu AND 0x1F \<and> hd nalu AND 0x1F \<le> 23"

definition unit_payloads :: "bytes \<Rightarrow> bytes list" where
  "unit_payloads nalu = (if length nalu \<le> MAX_RTP_PAYLOAD_SIZE then [nalu] else pack_fragments nalu)"

lemma pack_h264_payloads:
  assumes "list_all start_free nalus"
  shows "map fr_payload (pack_h264_frame (annexb nalus)) = concat (map unit_payloads nalus)"
proof -
  have one: "map fr_payload (pack_h264_nalu nalu m) = unit_payloads nalu" if "start_free nalu" for nalu m
    using that fua_fragment_loop_payloads [where m = m and m' = False]
    by (auto simp: pack_h264_nalu_def unit_payloads_def pack_fragments_def start_free_def pack_h264_fua_def Let_def)
  have "map fr_payload (concat (map (\<lambda>(idx, nalu). pack_h264_nalu nalu (g idx)) (enumerate k nalus))) = concat (map unit_payloads nalus)" for k g
    using assms by (induction nalus arbitrary: k) (simp_all add: one)
  then show ?thesis by (simp add: pack_h264_frame_def split_annexb [OF assms] Let_def)
qed

lemma unit_depacketized:
  assumes "h264_unit nalu"
  shows "h264_depacketize_all (unit_payloads nalu) h264_packet_default =
    Some (replicate (length (unit_payloads nalu) - 1) (Inr []) @ [Inr ([0, 0, 0, 1] @ nalu)], h264_packet_default)"
proof (cases "length nalu \<le> MAX_RTP_PAYLOAD_SIZE")
  case True
  have "hd nalu = nalu ! 0" using assms by (auto simp: h264_unit_def start_free_def hd_conv_nth)
  then show ?thesis using True assms
    by (auto simp: unit_payloads_def h264_depacketize_def h264_unit_def nalu_masks Let_def h264_packet_default_def unit_prefix_def
        ANNEXB_NALUSTART_CODE_def)
next
  case False
  then show ?thesis
    using pack_fua.reassembled [of nalu h264_packet_default] assms
    by (simp add: unit_payloads_def h264_unit_def h264_packet_default_def unit_prefix_def ANNEXB_NALUSTART_CODE_def)
qed

text \<open>The outputs of the depacketizer for the payloads of some units.\<close>

definition unit_outputs :: "bytes list \<Rightarrow> bytes list" where
  "unit_outputs nalus = concat (map (\<lambda>nalu. replicate (length (unit_payloads nalu) - 1) [] @ [[0, 0, 0, 1] @ nalu]) nalus)"

lemma pack_fragments_nonempty:
  assumes "MAX_RTP_PAYLOAD_SIZE < length nalu"
  shows "[] \<notin> set (pack_fragments nalu)"
proof
  note f = pack_fragments_spec [OF assms]
  assume "[] \<in> set (pack_fragments nalu)"
  moreover have "pack_fragments nalu = butlast (pack_fragments nalu) @ [last (pack_fragments nalu)]" using f(1) by simp
  ultimately have "[] \<in> set (butlast (pack_fragments nalu)) \<or> last (pack_fragments nalu) = []"
    by (metis Un_iff empty_iff list.set(1) set_ConsD set_append)
  with f(3) [of "[]"] f(4) show False by (auto simp: fua_fragment_def)
qed

lemma unit_payloads_nonempty:
  assumes "h264_unit nalu"
  shows "unit_payloads nalu \<noteq> []" "[] \<notin> set (unit_payloads nalu)"
proof -
  have nalu: "nalu \<noteq> []" using assms by (auto simp: h264_unit_def)
  have "pack_fragments nalu \<noteq> []" if "MAX_RTP_PAYLOAD_SIZE < length nalu" by (rule pack_fragments_spec(1) [OF that])
  then show "unit_payloads nalu \<noteq> []" "[] \<notin> set (unit_payloads nalu)"
    using nalu pack_fragments_nonempty by (auto simp: unit_payloads_def)
qed

lemma units_depacketized:
  assumes "list_all h264_unit nalus"
  shows "h264_depacketize_all (concat (map unit_payloads nalus)) h264_packet_default =
    Some (map Inr (unit_outputs nalus), h264_packet_default)"
    "length (unit_outputs nalus) = length (concat (map unit_payloads nalus))"
    "[] \<notin> set (concat (map unit_payloads nalus))"
  using assms by (induction nalus)
    (simp_all add: unit_outputs_def h264_depacketize_all_append unit_depacketized unit_payloads_nonempty)

section \<open>Streams that receive H.264\<close>

definition h264_stream :: "h264_packet \<Rightarrow> video_stream \<Rightarrow> bool" where
  "h264_stream dep v \<longleftrightarrow> vs_codec_type v = Some H264 \<and> vs_depacketizer v = DepH264 dep"

definition h264_up :: "video_stream \<Rightarrow> bool" where
  "h264_up v \<longleftrightarrow> vs_decoder_initialized v \<and> vs_decoder v = Some DecoderH264"

definition h264_can_feed :: "decoder_env \<Rightarrow> video_stream \<Rightarrow> bytes \<Rightarrow> bool" where
  "h264_can_feed env v out \<longleftrightarrow>
     (if vs_decoder_initialized v then vs_decoder v = Some DecoderH264
      else h264_is_key out \<and> de_create_h264 env (vs_attempts v) \<and> de_start_h264 env (vs_attempts v))"

definition h264_call :: "received_rtp_packet \<times> bytes \<Rightarrow> decode_call" where
  "h264_call c = DecodeH264 (snd c) (timestamp_us (rr_timestamp (fst c))) (h264_is_key (snd c))"

definition h264_calls :: "(received_rtp_packet \<times> bytes) list \<Rightarrow> decode_call list" where
  "h264_calls cs = map h264_call (filter (\<lambda>c. snd c \<noteq> []) cs)"

lemma process_h264_packet:
  assumes "h264_stream dep v" "h264_depacketize (rr_payload pkt) dep = Some (Inr out, dep')" "rr_payload pkt \<noteq> []"
    and "out \<noteq> [] \<Longrightarrow> h264_can_feed env v out"
  shows "\<exists>v'. process_rtp_packet env mime pkt v = Some v' \<and> h264_stream dep' v' \<and>
    vs_calls v' = vs_calls v @ h264_calls [(pkt, out)] \<and>
    (if out = [] then \<forall>x. h264_can_feed env v' x = h264_can_feed env v x else h264_up v')"
proof -
  let ?w = "v\<lparr>vs_last_seq := Some (rr_sequence_number pkt)\<rparr>"
  have "note_sequence (rr_sequence_number pkt) (detect_codec_type mime (rr_payload_type pkt) (rr_payload pkt) v) = ?w"
    using assms(1) by (auto simp: h264_stream_def detect_codec_type_def note_sequence_def Let_def split: option.split)
  then have process: "process_rtp_packet env mime pkt v =
      Some (if out \<noteq> [] then feed_decoder env out (rr_timestamp pkt) (?w\<lparr>vs_depacketizer := DepH264 dep'\<rparr>)
        else ?w\<lparr>vs_depacketizer := DepH264 dep'\<rparr>)"
    using assms(1-3) by (simp add: process_rtp_packet_def stream_depacketize_def h264_stream_def)
  show ?thesis
  proof (cases "out = []")
    case True
    then show ?thesis using process assms(1) by (simp add: h264_stream_def h264_calls_def h264_can_feed_def)
  next
    case False
    with assms(4) have "h264_can_feed env v out" by simp
    then show ?thesis using process False assms(1)
      by (cases "vs_decoder_initialized v")
        (simp_all add: h264_stream_def h264_can_feed_def h264_up_def feed_decoder_def feed_h264_decoder_def ensure_h264_def h264_calls_def h264_call_def Let_def)
  qed
qed

lemma process_h264_packets:
  assumes "h264_depacketize_all (map rr_payload pkts) dep = Some (map Inr outs, dep')" "[] \<notin> set (map rr_payload pkts)"
    and "h264_stream dep v" "case filter (\<lambda>out. out \<noteq> []) outs of [] \<Rightarrow> True | out # _ \<Rightarrow> h264_can_feed env v out"
  shows "\<exists>v'. process_rtp_packets env mime pkts v = Some v' \<and> vs_calls v' = vs_calls v @ h264_calls (zip pkts outs)"
  using assms
proof (induction pkts arbitrary: dep v outs)
  case Nil
  then show ?case by (simp add: h264_calls_def)
next
  case (Cons pkt pkts)
  obtain out outs' d where outs: "outs = out # outs'" and d: "h264_depacketize (rr_payload pkt) dep = Some (Inr out, d)"
      and rest: "h264_depacketize_all (map rr_payload pkts) d = Some (map Inr outs', dep')"
    using Cons.prems(1) by (auto simp: split_beta split: Option.bind_splits)
  have "out \<noteq> [] \<Longrightarrow> h264_can_feed env v out" using Cons.prems(4) outs by simp
  then obtain v' where v': "process_rtp_packet env mime pkt v = Some v'" "h264_stream d v'"
      "vs_calls v' = vs_calls v @ h264_calls [(pkt, out)]"
      "if out = [] then \<forall>x. h264_can_feed env v' x = h264_can_feed env v x else h264_up v'"
    using process_h264_packet [OF Cons.prems(3) d, of env mime] Cons.prems(2) by auto
  have "case filter (\<lambda>out. out \<noteq> []) outs' of [] \<Rightarrow> True | out # _ \<Rightarrow> h264_can_feed env v' out"
    using v'(4) Cons.prems(4) outs by (auto simp: h264_up_def h264_can_feed_def [of _ v'] split: list.splits if_splits)
  then obtain v'' where "process_rtp_packets env mime pkts v' = Some v''" "vs_calls v'' = vs_calls v' @ h264_calls (zip pkts outs')"
    using Cons.IH [OF rest _ v'(2)] Cons.prems(2) by auto
  then show ?case using v'(1,3) outs by (auto simp: h264_calls_def)
qed

section \<open>H.264 end to end\<close>

type_synonym unit_frame = "bytes list \<times> u64 \<times> bool"

definition annexb_frame :: "unit_frame \<Rightarrow> video_frame" where
  "annexb_frame f = (case f of (nalus, timestamp_ms, is_key) \<Rightarrow> (annexb nalus, timestamp_ms, is_key))"

definition unit_call :: "nat \<Rightarrow> bytes \<Rightarrow> decode_call" where
  "unit_call t nalu = DecodeH264 ([0, 0, 0, 1] @ nalu) t (h264_is_key ([0, 0, 0, 1] @ nalu))"

definition unit_calls :: "u32 \<Rightarrow> unit_frame \<Rightarrow> decode_call list" where
  "unit_calls clock_rate f =
     (case f of (nalus, timestamp_ms, _) \<Rightarrow> map (unit_call (timestamp_us (ms_to_rtp_timestamp timestamp_ms clock_rate))) nalus)"

definition h264_sender :: "string \<Rightarrow> rtp_send_pipeline \<Rightarrow> bool" where
  "h264_sender codec p \<longleftrightarrow> ascii_uppercase codec = ''H264'' \<and> sp_payload_type p < 128 \<and> (\<forall>n. cc_open (sp_cmd_tx p) n)"

lemma send_h264_frame:
  fixes is_key :: bool and ms :: u64
  assumes "h264_sender codec p" "pack_h264_frame frame \<noteq> []"
  defines "qs \<equiv> packets_of (pack_h264_frame frame) (sp_payload_type p) (sp_ssrc p)
    (ms_to_rtp_timestamp ms (sp_clock_rate p)) (sp_sequence_number p)"
  shows "send_encoded_video frame ms codec is_key p =
    Some (Inr (word_of_nat (length qs)), p\<lparr>sp_sequence_number := sp_sequence_number p + word_of_nat (length qs),
      sp_cmd_tx := (sp_cmd_tx p)\<lparr>cc_sent := cc_sent (sp_cmd_tx p) @ map (WriteRtp (sp_track_id p)) qs,
        cc_calls := cc_calls (sp_cmd_tx p) + length qs\<rparr>\<rparr>)"
proof -
  let ?to = "fragments_to_packets (pack_h264_frame frame) (sp_payload_type p) (sp_ssrc p) (ms_to_rtp_timestamp ms (sp_clock_rate p)) (sp_sequence_number p)"
  have to: "?to = (qs, sp_sequence_number p + word_of_nat (length qs))"
    using fragments_to_packets_spec(4,5) by (simp add: qs_def packets_of_def prod_eq_iff)
  show ?thesis
    using assms(1,2) send_rtp_packets_open
    by (simp add: h264_sender_def send_encoded_video_def packetize_video_def to)
qed

lemma unit_outputs_append: "unit_outputs (xs @ ys) = unit_outputs xs @ unit_outputs ys"
  by (simp add: unit_outputs_def)

lemma h264_calls_append: "h264_calls (xs @ ys) = h264_calls xs @ h264_calls ys"
  by (simp add: h264_calls_def)

text \<open>The calls for the packets of one frame.\<close>

lemma h264_calls_same_time:
  assumes "length pkts = length outs" "\<And>pkt. pkt \<in> set pkts \<Longrightarrow> rr_timestamp pkt = ts"
  shows "h264_calls (zip pkts outs) =
    map (\<lambda>out. DecodeH264 out (timestamp_us ts) (h264_is_key out)) (filter (\<lambda>out. out \<noteq> []) outs)"
  using assms by (induction pkts outs rule: list_induct2) (simp_all add: h264_calls_def h264_call_def)

lemma frame_h264_calls:
  assumes "length pkts = length (unit_outputs nalus)" "\<And>pkt. pkt \<in> set pkts \<Longrightarrow> rr_timestamp pkt = ts"
  shows "h264_calls (zip pkts (unit_outputs nalus)) = map (unit_call (timestamp_us ts)) nalus"
proof -
  have "filter (\<lambda>out. out \<noteq> []) (unit_outputs nalus) = map (\<lambda>nalu. [0, 0, 0, 1] @ nalu) nalus"
    by (induction nalus) (simp_all add: unit_outputs_def)
  then show ?thesis using h264_calls_same_time [OF assms] by (simp add: unit_call_def comp_def)
qed

lemma h264_session:
  assumes "h264_sender codec p" "list_all (\<lambda>f. fst f \<noteq> [] \<and> list_all h264_unit (fst f)) frames"
  defines "nalus \<equiv> concat (map fst frames)"
  shows "\<exists>p' qs pkts. send_frames codec (map annexb_frame frames) p = Some p' \<and> sent_packets p' = sent_packets p @ qs \<and>
    map (transmit tid ssrc) qs = map Some pkts \<and> map rr_payload pkts = concat (map unit_payloads nalus) \<and>
    h264_calls (zip pkts (unit_outputs nalus)) = concat (map (unit_calls (sp_clock_rate p)) frames) \<and>
    list_all (\<lambda>pkt. rr_payload_type pkt = sp_payload_type p) pkts"
  using assms(1,2) unfolding nalus_def
proof (induction frames arbitrary: p)
  case Nil
  then show ?case by (auto simp: h264_calls_def unit_outputs_def)
next
  case (Cons f frames)
  obtain ns ms is_key where f: "f = (ns, ms, is_key)" by (cases f)
  have ns: "ns \<noteq> []" "list_all h264_unit ns" "list_all (\<lambda>f. fst f \<noteq> [] \<and> list_all h264_unit (fst f)) frames" using Cons.prems(2) f by auto
  define ts where "ts = ms_to_rtp_timestamp ms (sp_clock_rate p)"
  define qs where "qs = packets_of (pack_h264_frame (annexb ns)) (sp_payload_type p) (sp_ssrc p) ts (sp_sequence_number p)"
  define pkts where "pkts = map (\<lambda>q. received_of tid (rtp_packet_of ssrc q)) qs"
  define p1 where "p1 = p\<lparr>sp_sequence_number := sp_sequence_number p + word_of_nat (length qs),
      sp_cmd_tx := (sp_cmd_tx p)\<lparr>cc_sent := cc_sent (sp_cmd_tx p) @ map (WriteRtp (sp_track_id p)) qs,
        cc_calls := cc_calls (sp_cmd_tx p) + length qs\<rparr>\<rparr>"
  have "list_all start_free ns" using ns(2) by (auto simp: list_all_iff h264_unit_def)
  note payloads = pack_h264_payloads [OF this]
  have "concat (map unit_payloads ns) \<noteq> []" using ns(1,2) unit_payloads_nonempty(1) by (cases ns) auto
  then have "pack_h264_frame (annexb ns) \<noteq> []" using payloads by auto
  from send_h264_frame [OF Cons.prems(1) this, where is_key = is_key and ms = ms]
  have send: "send_encoded_video (annexb ns) ms codec is_key p = Some (Inr (word_of_nat (length qs)), p1)"
    by (simp add: p1_def qs_def ts_def)
  have p1: "h264_sender codec p1" "sent_packets p1 = sent_packets p @ qs" "sp_clock_rate p1 = sp_clock_rate p" "sp_payload_type p1 = sp_payload_type p"
    using Cons.prems(1) by (simp_all add: h264_sender_def p1_def sent_packets_def comp_def)
  have q: "pd_payload_type q = sp_payload_type p \<and> pd_timestamp q = ts" if "q \<in> set qs" for q
    using fragments_to_packets_spec(6) that unfolding qs_def by blast
  have body: "map rr_payload pkts = concat (map unit_payloads ns)"
    using fragments_to_packets_spec(1) payloads by (simp add: pkts_def qs_def comp_def)
  then have len: "length pkts = length (unit_outputs ns)" using units_depacketized(2) [OF ns(2)] by (metis length_map)
  have "rr_timestamp pkt = ts" if "pkt \<in> set pkts" for pkt using that q by (auto simp: pkts_def)
  then have calls: "h264_calls (zip pkts (unit_outputs ns)) = unit_calls (sp_clock_rate p) f"
    using frame_h264_calls [OF len] by (simp add: unit_calls_def f ts_def)
  obtain p' qs' pkts' where rest: "send_frames codec (map annexb_frame frames) p1 = Some p'" "sent_packets p' = sent_packets p1 @ qs'"
      "map (transmit tid ssrc) qs' = map Some pkts'" "map rr_payload pkts' = concat (map unit_payloads (concat (map fst frames)))"
      "h264_calls (zip pkts' (unit_outputs (concat (map fst frames)))) = concat (map (unit_calls (sp_clock_rate p)) frames)"
      "list_all (\<lambda>pkt. rr_payload_type pkt = sp_payload_type p) pkts'"
    using Cons.IH [OF p1(1) ns(3)] p1(3,4) by auto
  have "send_frames codec (map annexb_frame (f # frames)) p = Some p'" "sent_packets p' = sent_packets p @ qs @ qs'"
    using send rest(1,2) p1(2) by (simp_all add: f annexb_frame_def)
  moreover have "map (transmit tid ssrc) (qs @ qs') = map Some (pkts @ pkts')"
    using rest(3) q Cons.prems(1) by (simp add: transmit_eq pkts_def h264_sender_def)
  moreover have "map rr_payload (pkts @ pkts') = concat (map unit_payloads (concat (map fst (f # frames))))"
    using rest(4) body by (simp add: f)
  moreover have "h264_calls (zip (pkts @ pkts') (unit_outputs (concat (map fst (f # frames))))) =
      concat (map (unit_calls (sp_clock_rate p)) (f # frames))"
    using rest(5) calls len by (simp add: f unit_outputs_append h264_calls_append)
  moreover have "list_all (\<lambda>pkt. rr_payload_type pkt = sp_payload_type p) (pkts @ pkts')"
    using rest(6) q by (auto simp: pkts_def list_all_iff)
  ultimately show ?case by blast
qed

definition h264_track :: "string option \<Rightarrow> u8 \<Rightarrow> bool" where
  "h264_track mime pt = (case mime of
     Some m \<Rightarrow> \<not> contains_str ''VP8'' (ascii_uppercase m) \<and> contains_str ''H264'' (ascii_uppercase m)
   | None \<Rightarrow> pt = 125 \<or> pt = 108)"

text \<open>C25. H.264 from end to end. The units of the frames have at least three bytes, a type from 1 to 23 in a header
  without the forbidden bit, and no start code inside; every frame has a unit, and the first unit of all is one at which a decoder
  can start (a parameter set or an IDR slice). The command channel of the send pipeline stays open, the track is known as H.264 by its
  mime type or payload type, and the first attempt to bring up a decoder succeeds. Then the frames, given to the send pipeline as byte
  streams, are split at the start codes, fragmented where a unit does not fit, sent, and, received completely and in order
  by a new stream, make it call the decoder once for each unit, in order, with the start code and exactly the bytes of the unit,
  and the time of its frame.\<close>

theorem h264_video_end_to_end:
  assumes "h264_sender codec p" "sent_packets p = []" "h264_track mime (sp_payload_type p)"
    and "list_all (\<lambda>f. fst f \<noteq> [] \<and> list_all h264_unit (fst f)) frames" "frames \<noteq> []"
    and "h264_is_key ([0, 0, 0, 1] @ hd (fst (hd frames)))" "de_create_h264 env 0" "de_start_h264 env 0"
  shows "\<exists>p' rs v. send_frames codec (map annexb_frame frames) p = Some p' \<and>
    those (map (transmit tid ssrc) (sent_packets p')) = Some rs \<and>
    process_rtp_packets env mime rs video_stream_new = Some v \<and>
    vs_calls v = concat (map (unit_calls (sp_clock_rate p)) frames)"
proof -
  let ?nalus = "concat (map fst frames)" and ?new = "use_codec H264 video_stream_new"
  obtain p' qs pkts where s: "send_frames codec (map annexb_frame frames) p = Some p'" "sent_packets p' = qs"
      "map (transmit tid ssrc) qs = map Some pkts" "map rr_payload pkts = concat (map unit_payloads ?nalus)"
      "h264_calls (zip pkts (unit_outputs ?nalus)) = concat (map (unit_calls (sp_clock_rate p)) frames)"
      "list_all (\<lambda>pkt. rr_payload_type pkt = sp_payload_type p) pkts"
    using h264_session [OF assms(1,4), of tid ssrc] assms(2) by auto
  have units: "list_all h264_unit ?nalus" using assms(4) by (auto simp: list_all_iff)
  obtain n ns where ns: "?nalus = n # ns" "n = hd (fst (hd frames))"
    using assms(4,5) by (cases frames; cases "fst (hd frames)") auto
  have first: "case filter (\<lambda>out. out \<noteq> []) (unit_outputs ?nalus) of [] \<Rightarrow> True | out # _ \<Rightarrow> h264_can_feed env ?new out"
    using assms(6-8) by (simp add: ns(1) unit_outputs_def h264_can_feed_def use_codec_def video_stream_new_def) (simp add: ns(2))
  have "pkts \<noteq> []" using s(4) units_depacketized(2) [OF units] ns(1) unit_payloads_nonempty(1) [of n] units by auto
  then obtain pkt more where pkts: "pkts = pkt # more" by (cases pkts) auto
  have "detect_codec_type mime (rr_payload_type pkt) (rr_payload pkt) video_stream_new = ?new"
    using s(6) assms(3) by (auto simp: pkts detect_codec_type_def h264_track_def codec_from_payload_type_def video_stream_new_def split: option.splits)
  moreover have "detect_codec_type mime (rr_payload_type pkt) (rr_payload pkt) ?new = ?new"
    by (simp add: detect_codec_type_def use_codec_def)
  ultimately have "process_rtp_packets env mime pkts video_stream_new = process_rtp_packets env mime pkts ?new"
    by (simp add: pkts process_rtp_packet_def)
  moreover have "h264_stream h264_packet_default ?new" "vs_calls ?new = []" by (simp_all add: h264_stream_def use_codec_def video_stream_new_def)
  moreover have "h264_depacketize_all (map rr_payload pkts) h264_packet_default = Some (map Inr (unit_outputs ?nalus), h264_packet_default)"
      "[] \<notin> set (map rr_payload pkts)"
    using units_depacketized(1,3) [OF units] s(4) by simp_all
  ultimately obtain v where "process_rtp_packets env mime pkts video_stream_new = Some v" "vs_calls v = h264_calls (zip pkts (unit_outputs ?nalus))"
    using process_h264_packets [OF _ _ _ first] by fastforce
  then show ?thesis using s(1,2,3,5) those_Some by metis
qed

definition sample_unit_frames :: "unit_frame list" where
  "sample_unit_frames = [([[0x67, 1, 2], [0x68, 3, 4], [0x65, 0, 5]], 0, True), ([[0x41, 6, 7, 8]], 40, False)]"

theorem h264_video_end_to_end_witness:
  "\<exists>p' rs v. send_frames ''h264'' (map annexb_frame sample_unit_frames) sample_sender = Some p' \<and>
    those (map (transmit ''cam'' 9) (sent_packets p')) = Some rs \<and>
    process_rtp_packets sample_decoders (Some ''video/H264'') rs video_stream_new = Some v \<and>
    vs_calls v = concat (map (unit_calls 90000) sample_unit_frames)"
proof -
  have "ascii_uppercase ''h264'' = ''H264''" by code_simp
  then have "h264_sender ''h264'' sample_sender" by (simp add: h264_sender_def sample_sender_def send_pipeline_new_def)
  moreover have "h264_track (Some ''video/H264'') (sp_payload_type sample_sender)"
  proof -
    have "\<not> contains_str ''VP8'' (ascii_uppercase ''video/H264'')" "contains_str ''H264'' (ascii_uppercase ''video/H264'')" by code_simp+
    then show ?thesis by (simp add: h264_track_def)
  qed
  moreover have "list_all (\<lambda>f. fst f \<noteq> [] \<and> list_all h264_unit (fst f)) sample_unit_frames" by code_simp
  moreover have "h264_is_key ([0, 0, 0, 1] @ hd (fst (hd sample_unit_frames)))"
    by (simp add: sample_unit_frames_def h264_is_key_def first_nal_type_def nal_header_idx_def)
  moreover have "sp_clock_rate sample_sender = 90000" by (simp add: sample_sender_def send_pipeline_new_def)
  ultimately show ?thesis
    using h264_video_end_to_end [of "''h264''" sample_sender "Some ''video/H264''" sample_unit_frames sample_decoders "''cam''" 9] sample_sender_ok(2)
    by (simp add: sample_decoders_def sample_unit_frames_def)
qed

section \<open>What goes wrong with H.264\<close>

lemma collect_inner:
  assumes "fs \<noteq> []" "\<And>f. f \<in> set fs \<Longrightarrow> fua_fragment h False f"
  shows "h264_depacketize_all fs p = Some (replicate (length fs) (Inr []),
    p\<lparr>fua_buffer := Some ((case fua_buffer p of None \<Rightarrow> [] | Some b \<Rightarrow> b) @ concat (map (drop 2) fs))\<rparr>)"
  using assms
proof (induction fs arbitrary: p)
  case (Cons f fs)
  have f: "fua_fragment h False f" using Cons.prems(2) by simp
  show ?case
  proof (cases "fs = []")
    case True
    then show ?thesis by (simp add: depacketize_fragment [OF f])
  next
    case False
    with Cons.IH [OF False] Cons.prems(2) show ?thesis by (simp add: depacketize_fragment [OF f])
  qed
qed simp

text \<open>C37. When the last fragment of a large H.264 unit is lost, the stream notices the gap but keeps the earlier fragments: the next
  large unit is given to the decoder with the bytes of the broken one between its header and its own bytes.\<close>

theorem lost_fragment_corrupts:
  assumes "MAX_RTP_PAYLOAD_SIZE < length a" "MAX_RTP_PAYLOAD_SIZE < length b" "hd b AND 0x80 = 0"
    and "h264_stream h264_packet_default v" "h264_up v"
    and "map rr_payload pkts = butlast (pack_fragments a) @ pack_fragments b" "list_all (\<lambda>pkt. rr_timestamp pkt = ts) pkts"
  defines "stale \<equiv> concat (map (drop 2) (butlast (pack_fragments a)))"
  shows "stale \<noteq> [] \<and> (\<exists>v'. process_rtp_packets env mime pkts v = Some v' \<and>
    vs_calls v' = vs_calls v @ [unit_call (timestamp_us ts) (hd b # stale @ tl b)])"
proof -
  note fa = pack_fragments_spec [OF assms(1)] and fb = pack_fragments_spec [OF assms(2)]
  let ?inner = "butlast (pack_fragments a)"
  have inner: "?inner \<noteq> []"
  proof
    assume "?inner = []"
    then have "pack_fragments a = [last (pack_fragments a)]" using fa(1) by (metis append_Nil append_butlast_last_id)
    then have "tl a = drop 2 (last (pack_fragments a))" using fa(2) by (metis append_Nil2 concat.simps(1) concat.simps(2) list.map(1) list.map(2))
    moreover have "length (last (pack_fragments a)) \<le> 1200" using fa(5) last_in_set [OF fa(1)] by (simp add: MAX_RTP_PAYLOAD_SIZE_def)
    ultimately have "length (tl a) \<le> 1198" by simp
    with assms(1) show False by (simp add: MAX_RTP_PAYLOAD_SIZE_def)
  qed
  then obtain f where "f \<in> set ?inner" by (meson list.set_sel(1))
  with fa(3) have stale: "stale \<noteq> []" by (fastforce simp: stale_def fua_fragment_def)
  have first: "h264_depacketize_all ?inner h264_packet_default =
      Some (map Inr (replicate (length ?inner) []), h264_packet_default\<lparr>fua_buffer := Some stale\<rparr>)"
    using collect_inner [OF inner fa(3)] by (simp add: stale_def h264_packet_default_def)
  let ?dep = "h264_packet_default\<lparr>fua_buffer := Some stale\<rparr>" and ?out = "[0, 0, 0, 1] @ hd b # stale @ tl b"
  have "h264_depacketize_all (pack_fragments b) ?dep =
      Some (map Inr (replicate (length (pack_fragments b) - 1) [] @ [?out]), h264_packet_default)"
    using pack_fua.collect_fragments [OF fb(1,3,4), of "stale @ tl b" ?dep] fb(2) nalu_header_split [OF assms(3)]
    by (simp add: h264_packet_default_def unit_prefix_def ANNEXB_NALUSTART_CODE_def)
  with first have all: "h264_depacketize_all (map rr_payload pkts) h264_packet_default =
      Some (map Inr (replicate (length ?inner) [] @ replicate (length (pack_fragments b) - 1) [] @ [?out]), h264_packet_default)"
    by (simp add: assms(6) h264_depacketize_all_append)
  let ?outs = "replicate (length ?inner) [] @ replicate (length (pack_fragments b) - 1) [] @ [?out]"
  have "[] \<notin> set (pack_fragments b)" "[] \<notin> set ?inner"
    using pack_fragments_nonempty [OF assms(1)] pack_fragments_nonempty [OF assms(2)] by (auto dest: in_set_butlastD)
  then have "[] \<notin> set (map rr_payload pkts)" by (simp add: assms(6))
  moreover have "case filter (\<lambda>out. out \<noteq> []) ?outs of [] \<Rightarrow> True | out # _ \<Rightarrow> h264_can_feed env v out"
    using assms(5) by (simp add: h264_can_feed_def h264_up_def)
  ultimately obtain v' where v': "process_rtp_packets env mime pkts v = Some v'" "vs_calls v' = vs_calls v @ h264_calls (zip pkts ?outs)"
    using process_h264_packets [OF all _ assms(4)] by blast
  have "length pkts = length ?inner + length (pack_fragments b)" using arg_cong [OF assms(6), of length] by simp
  then have "length (?inner @ pack_fragments b) = length pkts" "length ?outs = length pkts" using fb(1) by (simp_all add: Suc_le_eq)
  then have "h264_calls (zip pkts ?outs) = [unit_call (timestamp_us ts) (hd b # stale @ tl b)]"
    using h264_calls_same_time [of pkts ?outs ts] assms(7) by (simp add: unit_call_def list_all_iff)
  with v' stale show ?thesis by auto
qed

definition h264_stream_up :: video_stream where
  "h264_stream_up = (use_codec H264 video_stream_new)\<lparr>vs_decoder := Some DecoderH264, vs_decoder_initialized := True\<rparr>"

theorem lost_fragment_corrupts_witness:
  "\<exists>pkts v' stale. stale \<noteq> [] \<and> process_rtp_packets sample_decoders None pkts h264_stream_up = Some v' \<and>
    map rr_payload pkts = butlast (pack_fragments (0x65 # replicate 2000 1)) @ pack_fragments (0x65 # replicate 1500 2) \<and>
    vs_calls v' = [unit_call 0 (0x65 # stale @ replicate 1500 2)]"
proof -
  let ?a = "0x65 # replicate 2000 1 :: bytes" and ?b = "0x65 # replicate 1500 2 :: bytes"
  let ?pkts = "map (\<lambda>f. \<lparr>rr_track_id = ''cam'', rr_payload_type = 125, rr_sequence_number = 0, rr_timestamp = 0, rr_ssrc = 9,
    rr_marker = False, rr_payload = f\<rparr>) (butlast (pack_fragments ?a) @ pack_fragments ?b)"
  have up: "h264_stream h264_packet_default h264_stream_up" "h264_up h264_stream_up" "vs_calls h264_stream_up = []"
    by (simp_all add: h264_stream_up_def h264_stream_def h264_up_def use_codec_def video_stream_new_def)
  have map: "map rr_payload ?pkts = butlast (pack_fragments ?a) @ pack_fragments ?b" by (simp add: comp_def)
  have "list_all (\<lambda>pkt. rr_timestamp pkt = 0) ?pkts" by (auto simp: list_all_iff)
  moreover have "MAX_RTP_PAYLOAD_SIZE < length ?a" "MAX_RTP_PAYLOAD_SIZE < length ?b" "hd ?b AND 0x80 = 0"
    by (simp_all add: MAX_RTP_PAYLOAD_SIZE_def)
  ultimately obtain v' where "concat (map (drop 2) (butlast (pack_fragments ?a))) \<noteq> []"
      "process_rtp_packets sample_decoders None ?pkts h264_stream_up = Some v'"
      "vs_calls v' = [unit_call (timestamp_us 0) (hd ?b # concat (map (drop 2) (butlast (pack_fragments ?a))) @ tl ?b)]"
    using lost_fragment_corrupts [OF _ _ _ up(1,2) map, of 0 sample_decoders None] unfolding up(3) append_Nil by blast
  moreover have "timestamp_us 0 = 0" by (simp add: timestamp_us_def)
  ultimately show ?thesis unfolding list.sel using map by metis
qed

lemma assembler_feed_total: "\<exists>r. assembler_feed packet marker a = Some r"
proof -
  obtain r p where "vp8_depacketize packet (as_parser a) = Some (r, p)" using vp8_depacketize_total by fastforce
  then show ?thesis by (cases r) (simp_all add: assembler_feed_def Let_def split_beta)
qed

text \<open>A stream of VP8 stays one and never panics.\<close>

lemma vp8_stream_stays:
  assumes "vp8_stream v"
  shows "\<exists>v' cs. process_rtp_packets env mime pkts v = Some v' \<and> vp8_stream v' \<and> vs_calls v' = vs_calls v @ cs \<and>
    list_all (\<lambda>c. case c of DecodeH264 _ _ _ \<Rightarrow> False | DecodeVP8 _ _ \<Rightarrow> True) cs"
  using assms
proof (induction pkts arbitrary: v)
  case (Cons pkt pkts)
  let ?w = "note_sequence (rr_sequence_number pkt) v"
  note w = note_sequence_vp8 [OF Cons.prems, where seq = "rr_sequence_number pkt"]
  have detect: "detect_codec_type mime (rr_payload_type pkt) (rr_payload pkt) v = v"
    using Cons.prems by (simp add: detect_codec_type_def vp8_stream_def)
  obtain r a' where "assembler_feed (rr_payload pkt) (rr_marker pkt) (stream_assembler ?w) = Some (r, a')"
    using assembler_feed_total by fastforce
  then have dep: "stream_depacketize (rr_payload pkt) (rr_marker pkt) ?w = Some (r, ?w\<lparr>vs_depacketizer := DepVP8 a'\<rparr>)"
    using w(1) by (auto simp: stream_depacketize_def vp8_stream_def stream_assembler_def)
  have x: "vp8_stream (?w\<lparr>vs_depacketizer := DepVP8 a'\<rparr>)" "vs_calls (?w\<lparr>vs_depacketizer := DepVP8 a'\<rparr>) = vs_calls v"
    using w(1,3) by (simp_all add: vp8_stream_def)
  note fed = feed_decoder_vp8 [OF x(1), where env = env and ts = "rr_timestamp pkt"]
  obtain v1 cs where v1: "process_rtp_packet env mime pkt v = Some v1" "vp8_stream v1" "vs_calls v1 = vs_calls v @ cs"
      "list_all (\<lambda>c. case c of DecodeH264 _ _ _ \<Rightarrow> False | DecodeVP8 _ _ \<Rightarrow> True) cs"
  proof (cases "rr_payload pkt = []")
    case True
    then have "process_rtp_packet env mime pkt v = Some ?w" using detect by (simp add: process_rtp_packet_def)
    then show ?thesis using that [of ?w "[]"] w(1,3) by simp
  next
    case False
    show ?thesis
    proof (cases r)
      case (Inl e)
      then show ?thesis using that [of _ "[]"] x False dep by (auto simp: process_rtp_packet_def detect vp8_stream_def)
    next
      case (Inr data)
      then have "process_rtp_packet env mime pkt v = Some (if data \<noteq> []
          then feed_decoder env data (rr_timestamp pkt) (?w\<lparr>vs_depacketizer := DepVP8 a'\<rparr>) else ?w\<lparr>vs_depacketizer := DepVP8 a'\<rparr>)"
        using False dep by (simp add: process_rtp_packet_def detect)
      then show ?thesis using that [of _ "[]"] that [of _ "[DecodeVP8 data (timestamp_us (rr_timestamp pkt))]"] x fed(1,4) [of data]
        by (cases "data = []") auto
    qed
  qed
  with Cons.IH [OF v1(2)] show ?case by auto
qed simp

text \<open>C38. An H.264 packet of one byte, or of two bytes that is not an access unit delimiter, makes the stream give up H.264
  for good unless its type is that of a slice, an aggregation or a fragment (an end-of-sequence unit is such a packet): the decoder is
  dropped, and whatever packets follow, no call of an H.264 decoder is made any more.\<close>

theorem short_unit_ends_h264:
  assumes "h264_stream dep v" "\<not> h264_like (rr_payload pkt ! 0)"
    and "length (rr_payload pkt) = 1 \<or> length (rr_payload pkt) = 2 \<and> rr_payload pkt ! 0 AND 0x1F \<noteq> 9"
  shows "\<exists>v' cs. process_rtp_packets env mime (pkt # pkts) v = Some v' \<and> vs_codec_type v' = Some VP8 \<and>
    vs_calls v' = vs_calls v @ cs \<and> list_all (\<lambda>c. case c of DecodeH264 _ _ _ \<Rightarrow> False | DecodeVP8 _ _ \<Rightarrow> True) cs"
proof -
  let ?w = "v\<lparr>vs_last_seq := Some (rr_sequence_number pkt)\<rparr>"
  have noted: "note_sequence (rr_sequence_number pkt) (detect_codec_type mime (rr_payload_type pkt) (rr_payload pkt) v) = ?w"
    using assms(1) by (auto simp: h264_stream_def detect_codec_type_def note_sequence_def Let_def split: option.split)
  have "h264_depacketize (rr_payload pkt) dep = Some (Inl ErrShortPacket, dep)"
    using assms(3) by (auto simp: h264_depacketize_def nalu_masks nalu_types Let_def)
  then have dep: "stream_depacketize (rr_payload pkt) (rr_marker pkt) ?w = Some (Inl ErrShortPacket, ?w)"
    using assms(1) by (simp add: stream_depacketize_def h264_stream_def)
  let ?x = "(use_codec VP8 ?w)\<lparr>vs_decoder := None, vs_decoder_initialized := False\<rparr>"
  have "stream_depacketize (rr_payload pkt) (rr_marker pkt) ?x = Some (Inl ErrShortPacket, ?x)"
    using assms(3) by (auto simp: stream_depacketize_def use_codec_def assembler_feed_def vp8_depacketize_def assembler_default_def)
  moreover have "rr_payload pkt \<noteq> []" using assms(3) by auto
  ultimately have "process_rtp_packet env mime pkt v = Some ?x"
    using assms(1,2) dep by (simp add: process_rtp_packet_def noted switch_to_vp8_def h264_stream_def)
  moreover have "vp8_stream ?x" "vs_calls ?x = vs_calls v" by (simp_all add: vp8_stream_def use_codec_def)
  ultimately show ?thesis using vp8_stream_stays [of ?x env mime pkts] by (auto simp: vp8_stream_def)
qed

theorem short_unit_ends_h264_witness:
  "\<exists>pkt. rr_payload pkt = [0x0A] \<and> (\<forall>pkts. \<exists>v'. process_rtp_packets sample_decoders None (pkt # pkts) h264_stream_up = Some v' \<and>
    vs_codec_type v' = Some VP8)"
proof -
  let ?pkt = "\<lparr>rr_track_id = ''cam'', rr_payload_type = 125, rr_sequence_number = 0, rr_timestamp = 0, rr_ssrc = 9,
    rr_marker = False, rr_payload = [0x0A]\<rparr>"
  have "h264_stream h264_packet_default h264_stream_up"
    by (simp add: h264_stream_up_def h264_stream_def use_codec_def video_stream_new_def)
  from short_unit_ends_h264 [OF this, of ?pkt sample_decoders None] show ?thesis
    by (intro exI [of _ ?pkt]) (fastforce simp: h264_like_def)
qed

text \<open>C40. A STAP-A packet from the network that has a single byte left over after its units makes the depacketizer panic.\<close>

theorem stapa_trailing_byte_panics:
  assumes "h AND 0x1F = 24" "length nalu < 65536"
  shows "h264_depacketize (h # put_u16 (word_of_nat (length nalu)) @ nalu @ [b]) p = None"
proof -
  let ?size = "put_u16 (word_of_nat (length nalu))"
  obtain hi lo where size: "?size = [hi, lo]" by (simp add: put_u16_def numeral_2_eq_2)
  have "unat hi * 256 + unat lo = be_decode ?size" by (simp add: size be_decode_def)
  also have "\<dots> = length nalu" using assms(2) by (simp add: put_u16_def be_decode_encode unat_of_nat)
  finally have n: "unat hi * 256 + unat lo = length nalu" .
  define packet where "packet = h # hi # lo # nalu @ [b]"
  have len: "length packet = length nalu + 4" by (simp add: packet_def)
  have nth: "packet ! 0 = h" "packet ! Suc 0 = hi" "packet ! Suc (Suc 0) = lo" by (simp_all add: packet_def)
  have "stapa_loop (is_avc p) packet (Suc (Suc (Suc (length nalu)))) payload = None" for payload
    by (subst stapa_loop.simps) (simp add: len)
  then have "stapa_loop (is_avc p) packet 1 [] = None"
    by (subst stapa_loop.simps) (simp add: len nth n Let_def STAPA_NALU_LENGTH_SIZE_def)
  then have "h264_depacketize packet p = None"
    using assms(1) by (simp add: h264_depacketize_def len nth nalu_masks nalu_types Let_def STAPA_HEADER_SIZE_def)
  then show ?thesis by (simp add: packet_def size)
qed

theorem stapa_trailing_byte_panics_witness: "h264_depacketize [0x78, 0, 1, 0x67, 0] h264_packet_default = None"
  using stapa_trailing_byte_panics [of "0x78" "[0x67]" 0 h264_packet_default] by (simp add: put_u16_def numeral_2_eq_2)

end
