(* ===== verification/Spec2Isabelle.thy ===== *)
theory Spec2Isabelle
  imports Pipelines Local_Manager Remote_Manager Rpc_Transfer Dc_Sender Media_Transfer
begin

text \<open>
  A verification of parts of the LiveKit Rust SDK: real-time data tracks, data streams, remote procedure calls, the data packets
  of a session with their encryption, and the media packets of RTP.

  \<^bold>\<open>The program and its parts.\<close> An application publishes frames on a data track. A frame is encrypted, cut into packets and
  sent over an unreliable data channel; a server routes the packets under small numbers (handles) to the subscribers, where
  they are put together, decrypted and delivered. Besides, participants exchange data packets over a lossy and a reliable
  channel: user messages, the headers, chunks and trailers of data streams, and the requests and responses of remote
  procedure calls. Video is cut into RTP packets by the send pipeline, and a video stream puts the received packets together
  and calls a decoder.

  \<^bold>\<open>Theories and sources.\<close> All paths are under \<^verbatim>\<open>src/\<close>.

  \<^item> \<open>Prelude\<close>: bytes, big-endian numbers, write buffers, ordered maps; the interface \<open>actor\<close> (a state, a step, an invariant;
    what holds in the beginning and is kept by each step holds after any run) and the interface \<open>chunker\<close> (pieces that
    concatenate to the whole, each non-empty and within a size).
  \<^item> \<open>Dtp_Packet\<close>, \<open>Dtp_Time\<close>: the packet format of data tracks and its clock, \<^verbatim>\<open>livekit-datatrack/src/packet/\<close>.
  \<^item> \<open>Packetizer\<close>, \<open>Depacketizer\<close>, \<open>Pipelines\<close>: frames to packets and back, \<^verbatim>\<open>livekit-datatrack/src/local/packetizer.rs\<close>,
    \<^verbatim>\<open>remote/depacketizer.rs\<close>, \<^verbatim>\<open>local/pipeline.rs\<close>, \<^verbatim>\<open>remote/pipeline.rs\<close>, \<^verbatim>\<open>frame.rs\<close>, \<^verbatim>\<open>e2ee.rs\<close>, \<^verbatim>\<open>utils/\<close>.
  \<^item> \<open>Track_Info\<close>, \<open>Local_Manager\<close>, \<open>Remote_Manager\<close>: identifiers, signalling messages, and the two managers with the tasks of
    their tracks, \<^verbatim>\<open>livekit-datatrack/src/track.rs\<close>, \<^verbatim>\<open>local/\<close>, \<^verbatim>\<open>remote/\<close>.
  \<^item> \<open>Utf8_Chunks\<close>, \<open>Data_Stream\<close>, \<open>Stream_Writer\<close>, \<open>Stream_Reader\<close>, \<open>Stream_Transfer\<close>: \<^verbatim>\<open>livekit-data-stream/src/\<close>.
  \<^item> \<open>Tx_Queue\<close>, \<open>Ttl_Map\<close>, \<open>Dc_Sender\<close>: \<^verbatim>\<open>livekit/src/utils/tx_queue.rs\<close>, \<^verbatim>\<open>ttl_map.rs\<close>,
    \<^verbatim>\<open>livekit/src/rtc_engine/dc_sender.rs\<close>.
  \<^item> \<open>E2ee\<close>: \<^verbatim>\<open>livekit/src/room/e2ee/\<close>.
  \<^item> \<open>Data_Channel\<close>, \<open>Session_Data\<close>: the data packets of \<^verbatim>\<open>livekit/src/rtc_engine/rtc_session.rs\<close>.
  \<^item> \<open>Decimal\<close>, \<open>Rpc\<close>, \<open>Rpc_Transfer\<close>: \<^verbatim>\<open>livekit/src/room/rpc/\<close>.
  \<^item> \<open>Rtp_Packet\<close>, \<open>Rtp_H264\<close>, \<open>Rtp_Vp8\<close>: \<^verbatim>\<open>rtc-patched/rtc-rtp/src/header.rs\<close>, \<^verbatim>\<open>packet/mod.rs\<close>,
    \<^verbatim>\<open>codec/h264/mod.rs\<close>, \<^verbatim>\<open>codec/vp8/mod.rs\<close>.
  \<^item> \<open>Rtp_Send\<close>, \<open>Video_Stream\<close>, \<open>Media_Transfer\<close>: the sender and the receiver of media,
    \<^verbatim>\<open>libwebrtc/src/ohos/rtp_packetizer.rs\<close>, \<^verbatim>\<open>rtp_send_pipeline.rs\<close>, \<^verbatim>\<open>video_stream.rs\<close> up to the calls of the decoders, and the
    packets of \<^verbatim>\<open>rtc_io_driver.rs\<close>.

  \<^bold>\<open>How state and operations correspond.\<close> A struct is a record with the fields of the source, an enum a datatype. A method with
  \<open>&mut self\<close> is a function that returns the new state. \<open>Result\<close> is a sum with the error on the left; a panic is \<open>None\<close>.
  Fixed-width integers are words, so that arithmetic wraps where the source says so, and overflow checks are written out. A
  task is a step function on a state that contains the queues it shares; one step is one turn of its loop. Where a turn awaits
  something in the middle it is one step all the same in two places: \<open>perform_rpc\<close> registers a call and sends its request at
  once, and \<open>shutdown\<close> of the local manager takes only the ends of the tasks it waits for in between. Time, random numbers,
  the order of hash map iteration, the file system, ciphers and the native channels are arguments of the operations that use
  them; what the code relies on is a hypothesis of the theorem, and a witness instantiates it.

  \<^bold>\<open>What is shown.\<close> For the codecs: round trips, sizes, totality on arbitrary input. For packetizing and reassembly: the exact
  packets of a frame, that only received content is delivered, that frames are complete, memory bounds under options that change
  from push to push, and an end-to-end theorem over both pipelines. For the managers: invariants of every run by the interface \<open>actor\<close>, the effect of
  reconnections, of publication updates and of shutdown, and the interleavings that go wrong. For data streams and calls:
  what is sent is what is read, for interleaved streams and for both versions of the call protocol. For data packets: what is
  encrypted and what is not, and that the receiver sees what was published. For the sending tasks: every request is answered and the
  one event at which the task panics, frames are handed over whole while the task runs, and the queue is emptied as long as the channel
  makes progress. For media: round trips of packets and payloads, that the decoders get the frames sent, also under loss for VP8,
  and the packets that lead a stream astray.

  \<^bold>\<open>Bounds and termination.\<close> Loops are recursive functions with a termination proof, by the input that is left or the items
  still queued; no fuel is used. The sizes 2^16 and 2^32 appear where the source has a counter of that width. The counts of bytes
  in memory that the sending tasks keep in 64 bits are taken not to overflow.

  \<^bold>\<open>Not modelled.\<close> Generated protocol code and its bindings (\<^verbatim>\<open>livekit-protocol\<close>); the native and foreign-function layers
  (\<^verbatim>\<open>webrtc-sys\<close>, \<^verbatim>\<open>yuv-sys\<close>, \<^verbatim>\<open>soxr-sys\<close>, \<^verbatim>\<open>livekit-ffi\<close>, \<^verbatim>\<open>livekit-jni-android\<close>, \<^verbatim>\<open>livekit-napi-ohos\<close>,
  \<^verbatim>\<open>livekit-uniffi\<close>); signalling over web sockets and HTTP services (\<^verbatim>\<open>livekit-api\<close>); the negotiation, track and
  participant bookkeeping of a room, which drives native peer connections; the remaining protocols under \<^verbatim>\<open>rtc-patched\<close>.
\<close>

end
